(* ===== verification/Prelude.thy ===== *)
theory Prelude
  imports Main "HOL-Library.Word" "HOL-Library.Multiset"
begin

text \<open>
  Shared vocabulary of the development: the result type of Go operations that may return an
  error or panic, the machine-integer abbreviations, the collections of rewrite rules the
  component theories fill, and the generic lemmas on words, lists and association lists
  that more than one component needs.
\<close>

unbundle bit_operations_syntax

subsection \<open>Errors and results\<close>

text \<open>
  A Go operation that can fail returns \<open>Inl\<close> of a \<open>gerr\<close>: \<open>Err\<close> is a returned
  \<^verbatim>\<open>error\<close>, \<open>Panic\<close> a call of \<^verbatim>\<open>panic\<close> (also through \<^verbatim>\<open>util.PanicIf\<close>). The string is
  the fixed part of the message.
\<close>

datatype gerr = Err string | Panic string

type_synonym 'a res = "gerr + 'a"

type_synonym u64 = "64 word"

named_theorems uint_simps
  \<comment> \<open>\<open>uint\<close> of the packed identifiers, as integer arithmetic\<close>
named_theorems cursor_simps
  \<comment> \<open>projections of cursors and field cursors after an operation\<close>

subsection \<open>Words and digits\<close>

lemma int_push_bit_or:
  fixes a b :: int
  assumes "0 \<le> b" "b < 2 ^ n"
  shows "push_bit n a OR b = a * 2 ^ n + b"
proof -
  have b: "take_bit n b = b" using assms by (simp add: take_bit_int_eq_self)
  have "push_bit n a AND b = 0"
  proof (rule bit_eqI)
    fix m
    have "bit b m \<Longrightarrow> m < n" using b by (metis bit_take_bit_iff)
    then show "bit (push_bit n a AND b) m \<longleftrightarrow> bit (0::int) m"
      by (auto simp: bit_simps)
  qed
  then have "push_bit n a + b = push_bit n a OR b" by (rule disjunctive_add_eq_or)
  then show ?thesis by (simp add: push_bit_eq_mult)
qed

lemma uint_push_bit_or:
  fixes a b :: u64
  assumes "uint b < 2 ^ n" "uint a * 2 ^ n < 2 ^ 64"
  shows "uint (push_bit n a OR b) = uint a * 2 ^ n + uint b"
proof -
  have "take_bit 64 (push_bit n (uint a)) = push_bit n (uint a)"
    using assms(2) by (simp add: take_bit_int_eq_self push_bit_eq_mult)
  then have "uint (push_bit n a OR b) = push_bit n (uint a) OR uint b"
    by (simp add: uint_or unsigned_push_bit_eq)
  then show ?thesis using assms(1) by (simp add: int_push_bit_or)
qed

lemma uint_word_of_int_id:
  "0 \<le> i \<Longrightarrow> i < 2 ^ 64 \<Longrightarrow> uint (word_of_int i :: u64) = i"
  by (simp add: uint_word_of_int take_bit_int_eq_self)

lemma uint_and_255 [uint_simps]: "uint (w AND 0xFF) = uint w mod 256" for w :: u64
proof -
  have "w AND 0xFF = take_bit 8 w" by (simp add: take_bit_eq_mask mask_eq_exp_minus_1)
  then show ?thesis by (simp add: uint_mod take_bit_eq_mod)
qed

lemma uint_and_1 [uint_simps]: "uint (w AND 1) = uint w mod 2" for w :: u64
  by (simp add: uint_mod and_one_eq)

lemma uint_drop_bit [uint_simps]: "uint (drop_bit n w) = uint w div 2 ^ n" for w :: u64
proof -
  have "take_bit 64 (uint w) = uint w" by (rule bintr_uint) simp
  then have "uint (drop_bit n w) = drop_bit n (uint w)" by (subst unsigned_drop_bit_eq) simp
  then show ?thesis by (simp add: drop_bit_eq_div)
qed

lemma digit_split:
  fixes a m B :: int
  assumes "0 \<le> m" "m < B"
  shows "(a * B + m) div B = a" "(a * B + m) mod B = m"
  using assms by simp_all

subsection \<open>Go maps as association lists\<close>

text \<open>
  A Go map whose entries the code iterates over is an association list with distinct keys;
  the list order is the iteration order, which Go leaves open, so the theorems hold for
  every order. \<open>alist_modify k f m\<close> is \<^verbatim>\<open>m[k] = f(m[k])\<close>, with \<open>None\<close> for a missing key.
\<close>

fun alist_modify :: "'k \<Rightarrow> ('v option \<Rightarrow> 'v) \<Rightarrow> ('k \<times> 'v) list \<Rightarrow> ('k \<times> 'v) list" where
  "alist_modify k f [] = [(k, f None)]"
| "alist_modify k f ((k', v) # m) =
     (if k' = k then (k', f (Some v)) # m else (k', v) # alist_modify k f m)"

definition alist_put :: "'k \<Rightarrow> 'v \<Rightarrow> ('k \<times> 'v) list \<Rightarrow> ('k \<times> 'v) list" where
  "alist_put k v = alist_modify k (\<lambda>_. v)"

lemma map_of_alist_modify [simp]:
  "map_of (alist_modify k f m) = (map_of m)(k \<mapsto> f (map_of m k))"
  by (induction m) (auto simp: fun_eq_iff)

lemma map_of_alist_put [simp]: "map_of (alist_put k v m) = (map_of m)(k \<mapsto> v)"
  by (simp add: alist_put_def)

lemma fst_alist_modify [simp]: "fst ` set (alist_modify k f m) = insert k (fst ` set m)"
  by (induction k f m rule: alist_modify.induct) (simp_all add: insert_commute)

lemma distinct_alist_modify [simp]:
  "distinct (map fst (alist_modify k f m)) = distinct (map fst m)"
  by (induction k f m rule: alist_modify.induct) simp_all

lemma distinct_alist_put [simp]: "distinct (map fst (alist_put k v m)) = distinct (map fst m)"
  by (simp add: alist_put_def)

end
