(* ===== verification/GoValue.thy ===== *)
theory GoValue
  imports Prelude "HOL-Library.Char_ord"
begin

text \<open>
  The dynamic values the indexer takes as \<^verbatim>\<open>interface{}\<close> (expression values and query
  assignments), the helpers of \<^verbatim>\<open>util/\<close> on them, and the parts of \<^verbatim>\<open>fmt\<close> and \<^verbatim>\<open>strconv\<close>
  that the parsers use: decimal printing and \<^verbatim>\<open>ParseInt\<close>, with their round trip.
\<close>

subsection \<open>Dynamic values\<close>

datatype ikind = KInt | KInt8 | KInt16 | KInt32 | KInt64
  | KUint | KUint8 | KUint16 | KUint32 | KUint64

datatype fkind = KFloat32 | KFloat64

text \<open>
  The code observes a floating-point number in three ways only: its \<^verbatim>\<open>%v\<close> text, and its
  conversions to \<^verbatim>\<open>int64\<close> and to \<^verbatim>\<open>uint64\<close>. A float is represented by these three results.
\<close>

datatype gfloat = GFloat (float_text: string) (float_int64: int) (float_uint64: int)

datatype 'a gslice = NilSlice | Slice "'a list"

fun elems :: "'a gslice \<Rightarrow> 'a list" where
  "elems NilSlice = []"
| "elems (Slice xs) = xs"

text \<open>
  \<open>VArr2I\<close>/\<open>VArr2F\<close> are \<^verbatim>\<open>[2]int64\<close> and \<^verbatim>\<open>[2]float64\<close>; \<open>VPtr\<close> a pointer, map or channel
  (nil or not); \<open>VOther\<close> any other type.
\<close>

datatype gval = VNil | VStr string | VJson string | VInt ikind int | VFlt fkind gfloat
  | VStrS "string gslice" | VJsonS "string gslice" | VIntS ikind "int gslice" | VFltS fkind "gfloat gslice"
  | VAnyS "gval gslice" | VArr2I int int | VArr2F gfloat gfloat | VPtr bool | VOther

subsection \<open>util\<close>

fun NilInterface :: "gval \<Rightarrow> bool res" where
  "NilInterface VNil = Inr True"
| "NilInterface (VPtr isnil) = Inr isnil"
| "NilInterface (VArr2I _ _) = Inl (Panic ''reflect: call of reflect.Value.IsNil on array Value'')"
| "NilInterface (VArr2F _ _) = Inl (Panic ''reflect: call of reflect.Value.IsNil on array Value'')"
| "NilInterface (VStrS s) = Inr (s = NilSlice)"
| "NilInterface (VJsonS s) = Inr (s = NilSlice)"
| "NilInterface (VIntS _ s) = Inr (s = NilSlice)"
| "NilInterface (VFltS _ s) = Inr (s = NilSlice)"
| "NilInterface (VAnyS s) = Inr (case s of NilSlice \<Rightarrow> True | Slice _ \<Rightarrow> False)"
| "NilInterface _ = Inr False"

definition MaxInt :: "int \<Rightarrow> int \<Rightarrow> int" where
  "MaxInt a b = (if a > b then a else b)"

definition MinInt :: "int \<Rightarrow> int \<Rightarrow> int" where
  "MinInt a b = (if a < b then a else b)"

text \<open>\<open>DistinctString\<close> collects the keys of a map, so its result is in some order.\<close>

definition DistinctString :: "string list \<Rightarrow> string list" where
  "DistinctString vs = remdups vs"

definition DistinctInteger :: "int list \<Rightarrow> int list" where
  "DistinctInteger vs = remdups vs"

subsection \<open>Decimal numbers\<close>

definition digit_char :: "nat \<Rightarrow> char" where
  "digit_char d = char_of (48 + d)"

fun nat_dec :: "nat \<Rightarrow> string" where
  "nat_dec n = (if n < 10 then [digit_char n] else nat_dec (n div 10) @ [digit_char (n mod 10)])"

declare nat_dec.simps [simp del]

text \<open>\<^verbatim>\<open>fmt.Sprintf("%v", n)\<close> of an integer.\<close>

definition int_dec :: "int \<Rightarrow> string" where
  "int_dec i = (if i < 0 then CHR ''-'' # nat_dec (nat (- i)) else nat_dec (nat i))"

definition is_digit :: "char \<Rightarrow> bool" where
  "is_digit c \<longleftrightarrow> 48 \<le> (of_char c :: nat) \<and> (of_char c :: nat) \<le> 57"

definition digits_val :: "string \<Rightarrow> nat" where
  "digits_val s = foldl (\<lambda>v c. v * 10 + (of_char c - 48)) 0 s"

definition parse_digits :: "string \<Rightarrow> nat option" where
  "parse_digits s = (if s \<noteq> [] \<and> list_all is_digit s then Some (digits_val s) else None)"

text \<open>\<^verbatim>\<open>strconv.ParseInt(s, 10, 64)\<close>; a syntax or a range error is \<open>None\<close>.\<close>

definition ParseInt :: "string \<Rightarrow> int option" where
  "ParseInt s =
     (case s of
        [] \<Rightarrow> None
      | c # cs \<Rightarrow>
          (let neg = (c = CHR ''-'');
               body = (if c = CHR ''+'' \<or> c = CHR ''-'' then cs else s)
           in case parse_digits body of
                None \<Rightarrow> None
              | Some un \<Rightarrow>
                  (if \<not> neg \<and> un \<ge> 2 ^ 63 then None
                   else if neg \<and> un > 2 ^ 63 then None
                   else Some (if neg then - int un else int un))))"

text \<open>Conversion to \<^verbatim>\<open>int64\<close>: wrap-around into \<open>[-2^63, 2^63)\<close>.\<close>

definition int64_of :: "int \<Rightarrow> int" where
  "int64_of x = (x + 2 ^ 63) mod 2 ^ 64 - 2 ^ 63"

lemma int64_of_id: "- (2 ^ 63) \<le> x \<Longrightarrow> x < 2 ^ 63 \<Longrightarrow> int64_of x = x"
  by (simp add: int64_of_def)

lemma int64_of_range: "- (2 ^ 63) \<le> int64_of x" "int64_of x < 2 ^ 63"
  by (simp_all add: int64_of_def)

lemma of_char_digit: "d < 10 \<Longrightarrow> of_char (digit_char d) = 48 + d"
  by (simp add: digit_char_def)

lemma digits_val_snoc: "digits_val (s @ [c]) = digits_val s * 10 + (of_char c - 48)"
  by (simp add: digits_val_def)

lemma parse_nat_dec: "parse_digits (nat_dec n) = Some n"
proof (induction n rule: nat_dec.induct)
  case (1 n)
  show ?case
  proof (cases "n < 10")
    case True
    then show ?thesis
      by (subst nat_dec.simps) (simp add: parse_digits_def is_digit_def of_char_digit digits_val_def)
  next
    case False
    then have "parse_digits (nat_dec (n div 10)) = Some (n div 10)" using 1 by simp
    then show ?thesis using False
      by (subst nat_dec.simps)
         (auto simp: parse_digits_def is_digit_def of_char_digit digits_val_snoc split: if_splits)
  qed
qed

lemma nat_dec_first: "\<exists>c cs. nat_dec n = c # cs \<and> is_digit c"
  using parse_nat_dec [of n] by (cases "nat_dec n") (auto simp: parse_digits_def split: if_splits)

lemma ParseInt_int_dec:
  assumes "- (2 ^ 63) \<le> i" "i < 2 ^ 63"
  shows "ParseInt (int_dec i) = Some i"
proof (cases "i < 0")
  case True
  then show ?thesis using assms by (simp add: int_dec_def ParseInt_def Let_def parse_nat_dec)
next
  case False
  obtain c cs where c: "nat_dec (nat i) = c # cs" "is_digit c" using nat_dec_first by blast
  then have "c \<noteq> CHR ''+''" "c \<noteq> CHR ''-''" by (auto simp: is_digit_def)
  then show ?thesis using False assms c parse_nat_dec [of "nat i"]
    by (simp add: int_dec_def ParseInt_def Let_def)
qed

lemma int_dec_inj: "int_dec i = int_dec j \<longleftrightarrow> i = j"
proof
  assume eq: "int_dec i = int_dec j"
  have hd: "nat_dec n \<noteq> CHR ''-'' # s" for n s
    using nat_dec_first [of n] by (auto simp: is_digit_def)
  have inj: "nat_dec m = nat_dec n \<Longrightarrow> m = n" for m n by (metis option.inject parse_nat_dec)
  consider "i < 0" "j < 0" | "\<not> i < 0" "\<not> j < 0" | "i < 0 \<longleftrightarrow> \<not> j < 0" by blast
  then show "i = j"
  proof cases
    case 1
    then have "nat (- i) = nat (- j)" using eq inj by (simp add: int_dec_def)
    then show ?thesis using 1 by simp
  next
    case 2
    then have "nat i = nat j" using eq inj by (simp add: int_dec_def)
    then show ?thesis using 2 by simp
  next
    case 3
    then show ?thesis using eq hd hd [symmetric] by (simp add: int_dec_def split: if_splits)
  qed
qed simp

end
