(* ===== verification/IdTypes.thy ===== *)
theory IdTypes
  imports Prelude
begin

text \<open>
  Model of \<^verbatim>\<open>id_types.go\<close>: the 60-bit conjunction identifier and the 64-bit entry
  identifier of the posting lists. A \<^verbatim>\<open>DocID\<close> is an \<^verbatim>\<open>int64\<close> and is an \<open>int\<close> here; the
  identifiers are 64-bit words with the shifts and masks of the source. The lemmas show
  that packing loses nothing, that the numeric order of identifiers is the order the
  retrieval loops rely on (by size first, exclude before include within a conjunction,
  everything below \<open>NULLENTRY\<close>).
\<close>

subsection \<open>Identifiers\<close>

type_synonym DocID = int
type_synonym ConjID = u64
type_synonym EntryID = u64
type_synonym Entries = "EntryID list"

definition MaxDocID :: int where "MaxDocID = 0x7FFFFFFFFFF"

definition NULLENTRY :: EntryID where "NULLENTRY = 0xFFFFFFFFFFFFFFFF"

definition ValidDocID :: "DocID \<Rightarrow> bool" where
  "ValidDocID i \<longleftrightarrow> i \<le> MaxDocID \<and> i \<ge> - MaxDocID"

definition ValidIdxOrSize :: "int \<Rightarrow> bool" where
  "ValidIdxOrSize v \<longleftrightarrow> v \<ge> 0 \<and> v < 256"

definition NewConjID :: "DocID \<Rightarrow> int \<Rightarrow> int \<Rightarrow> ConjID res" where
  "NewConjID docID index sz =
     (if \<not> ValidDocID docID \<or> \<not> ValidIdxOrSize index \<or> \<not> ValidIdxOrSize sz
      then Inl (Panic ''id overflow'')
      else let negSign = (if docID < 0 then 1 else 0);
               docID' = (if docID < 0 then - docID else docID)
           in Inr (push_bit 52 (word_of_int sz) OR push_bit 44 (word_of_int index)
                   OR push_bit 43 negSign OR word_of_int docID'))"

definition ConjID_Size :: "ConjID \<Rightarrow> int" where
  "ConjID_Size cid = uint (drop_bit 52 cid AND 0xFF)"

definition ConjID_Index :: "ConjID \<Rightarrow> int" where
  "ConjID_Index cid = uint (drop_bit 44 cid AND 0xFF)"

definition ConjID_DocID :: "ConjID \<Rightarrow> DocID" where
  "ConjID_DocID cid =
     (let negSign = drop_bit 43 cid AND 0x1;
          docID = sint (cid AND word_of_int MaxDocID)
      in if negSign > 0 then - docID else docID)"

definition NewEntryID :: "ConjID \<Rightarrow> bool \<Rightarrow> EntryID" where
  "NewEntryID cid incl = (if \<not> incl then push_bit 4 cid else push_bit 4 cid OR 0x01)"

definition IsExclude :: "EntryID \<Rightarrow> bool" where
  "IsExclude entry \<longleftrightarrow> entry AND 0x01 = 0"

definition IsInclude :: "EntryID \<Rightarrow> bool" where
  "IsInclude entry \<longleftrightarrow> entry AND 0x01 > 0"

definition GetConjID :: "EntryID \<Rightarrow> ConjID" where
  "GetConjID entry = drop_bit 4 entry"

definition IsNULLEntry :: "EntryID \<Rightarrow> bool" where
  "IsNULLEntry entry \<longleftrightarrow> entry = NULLENTRY"

subsection \<open>Identifiers as integers\<close>

definition conj_pack :: "int \<Rightarrow> int \<Rightarrow> int \<Rightarrow> int" where
  "conj_pack d i s = s * 2 ^ 52 + i * 2 ^ 44 + (if d < 0 then 1 else 0) * 2 ^ 43 + \<bar>d\<bar>"

lemma NewConjID_valid:
  assumes "NewConjID d i s = Inr c"
  shows "\<bar>d\<bar> < 2 ^ 43" "0 \<le> i" "i < 256" "0 \<le> s" "s < 256"
  using assms
  by (auto simp: NewConjID_def ValidDocID_def ValidIdxOrSize_def MaxDocID_def split: if_splits)

lemma NewConjID_total:
  assumes "ValidDocID d" "0 \<le> i" "i < 256" "0 \<le> s" "s < 256"
  shows "\<exists>c. NewConjID d i s = Inr c"
  using assms by (auto simp: NewConjID_def ValidIdxOrSize_def Let_def)

lemma NewConjID_uint:
  assumes "NewConjID d i s = Inr c"
  shows "uint c = conj_pack d i s"
proof -
  note v = NewConjID_valid [OF assms]
  let ?n = "if d < 0 then 1 else 0 :: u64"
  let ?d = "word_of_int \<bar>d\<bar> :: u64"
  have c: "c = push_bit 52 (word_of_int s) OR (push_bit 44 (word_of_int i) OR (push_bit 43 ?n OR ?d))"
    using assms by (auto simp: NewConjID_def Let_def or.assoc abs_if split: if_splits)
  have d: "uint ?d = \<bar>d\<bar>" using v by (intro uint_word_of_int_id) auto
  have i: "uint (word_of_int i :: u64) = i" and s: "uint (word_of_int s :: u64) = s"
    using v by (auto intro!: uint_word_of_int_id)
  have 1: "uint (push_bit 43 ?n OR ?d) = uint ?n * 2 ^ 43 + \<bar>d\<bar>"
    using v d by (subst uint_push_bit_or) auto
  have 2: "uint (push_bit 44 (word_of_int i) OR (push_bit 43 ?n OR ?d)) = i * 2 ^ 44 + (uint ?n * 2 ^ 43 + \<bar>d\<bar>)"
    using v 1 i by (subst uint_push_bit_or) auto
  show ?thesis unfolding c conj_pack_def
    using v 2 s by (subst uint_push_bit_or) auto
qed

lemma unpack_arith:
  fixes s i n m X :: int
  assumes m: "0 \<le> m" "m < 2 ^ 43" and n: "0 \<le> n" "n < 2" and i: "0 \<le> i" "i < 256"
    and s: "0 \<le> s" "s < 256"
    and X: "X = s * 2 ^ 52 + i * 2 ^ 44 + n * 2 ^ 43 + m"
  shows "X div 2 ^ 52 mod 256 = s" "X div 2 ^ 44 mod 256 = i" "X div 2 ^ 43 mod 2 = n" "X mod 2 ^ 43 = m"
proof -
  have X': "X = ((s * 256 + i) * 2 + n) * 2 ^ 43 + m" using X by simp
  have d43: "X div 2 ^ 43 = (s * 256 + i) * 2 + n" and m43: "X mod 2 ^ 43 = m"
    unfolding X' by (rule digit_split [OF m])+
  have "X div 2 ^ 44 = X div 2 ^ 43 div 2" by (simp flip: zdiv_zmult2_eq)
  then have d44: "X div 2 ^ 44 = s * 256 + i" unfolding d43 by (simp only: digit_split [OF n])
  have "X div 2 ^ 52 = X div 2 ^ 44 div 256" by (simp flip: zdiv_zmult2_eq)
  then have d52: "X div 2 ^ 52 = s" unfolding d44 by (simp only: digit_split [OF i])
  show "X div 2 ^ 52 mod 256 = s" unfolding d52 using s by simp
  show "X div 2 ^ 44 mod 256 = i" unfolding d44 by (rule digit_split [OF i])
  show "X div 2 ^ 43 mod 2 = n" unfolding d43 by (rule digit_split [OF n])
  show "X mod 2 ^ 43 = m" by (rule m43)
qed

lemma ConjID_Size_uint [uint_simps]: "ConjID_Size c = uint c div 2 ^ 52 mod 256"
  by (simp add: ConjID_Size_def uint_simps)

lemma ConjID_Index_uint [uint_simps]: "ConjID_Index c = uint c div 2 ^ 44 mod 256"
  by (simp add: ConjID_Index_def uint_simps)

lemma sint_and_MaxDocID: "sint (c AND word_of_int MaxDocID) = uint c mod 2 ^ 43" for c :: u64
proof -
  have "c AND word_of_int MaxDocID = take_bit 43 c"
    by (simp add: MaxDocID_def take_bit_eq_mask mask_eq_exp_minus_1)
  then have u: "uint (c AND word_of_int MaxDocID) = uint c mod 2 ^ 43"
    by (simp add: uint_mod take_bit_eq_mod)
  have "uint (c AND word_of_int MaxDocID) < 2 ^ 63"
    unfolding u by (rule less_trans [OF pos_mod_bound]) auto
  then show ?thesis using u by (simp add: sint_uint signed_take_bit_int_eq_self)
qed

lemma ConjID_DocID_uint [uint_simps]:
  "ConjID_DocID c = (if uint c div 2 ^ 43 mod 2 = 1 then - (uint c mod 2 ^ 43) else uint c mod 2 ^ 43)"
proof -
  have "drop_bit 43 c AND 1 > 0 \<longleftrightarrow> uint c div 2 ^ 43 mod 2 = 1"
    by (simp add: word_less_def uint_simps) linarith
  then show ?thesis by (simp add: ConjID_DocID_def Let_def sint_and_MaxDocID)
qed

subsection \<open>Packing loses nothing\<close>

lemma NewConjID_fields:
  assumes "NewConjID d i s = Inr c"
  shows "ConjID_Size c = s" "ConjID_Index c = i" "ConjID_DocID c = d"
proof -
  define n where "n = (if d < 0 then 1 else 0 :: int)"
  have n: "0 \<le> n" "n < 2" by (simp_all add: n_def)
  have "uint c = s * 2 ^ 52 + i * 2 ^ 44 + n * 2 ^ 43 + \<bar>d\<bar>"
    using NewConjID_uint [OF assms] unfolding conj_pack_def n_def .
  note unpack = unpack_arith [OF abs_ge_zero NewConjID_valid(1) [OF assms] n
      NewConjID_valid(2-5) [OF assms] this]
  show "ConjID_Size c = s" unfolding ConjID_Size_uint by (rule unpack)
  show "ConjID_Index c = i" unfolding ConjID_Index_uint by (rule unpack)
  show "ConjID_DocID c = d" unfolding ConjID_DocID_uint unpack(3,4) by (simp add: n_def)
qed

lemma NewConjID_less_2p60: "NewConjID d i s = Inr c \<Longrightarrow> uint c < 2 ^ 60"
  using NewConjID_valid [of d i s c] NewConjID_uint [of d i s c]
  by (auto simp: conj_pack_def split: if_splits)

subsection \<open>Entry identifiers\<close>

text \<open>The identifiers \<open>NewEntryID\<close> makes: three empty bits below a 60-bit conjunction.\<close>

definition valid_eid :: "EntryID \<Rightarrow> bool" where
  "valid_eid e \<longleftrightarrow> uint e mod 16 \<le> 1"

lemma uint_NewEntryID [uint_simps]:
  assumes "uint c < 2 ^ 60"
  shows "uint (NewEntryID c b) = uint c * 16 + of_bool b"
  using assms uint_push_bit_or [of "1::u64" 4 c] uint_push_bit_or [of "0::u64" 4 c]
  by (auto simp: NewEntryID_def)

lemma uint_GetConjID [uint_simps]: "uint (GetConjID e) = uint e div 16"
  by (simp add: GetConjID_def uint_simps)

lemma uint_GetConjID_less [simp]: "uint (GetConjID e) < 1152921504606846976"
proof -
  have "uint e < 2 ^ 64" using uint_lt2p [of e] by simp
  then show ?thesis by (simp add: uint_GetConjID)
qed

lemma uint_NewEntryID_GetConjID:
  "uint (NewEntryID (GetConjID e) b) = uint (GetConjID e) * 16 + of_bool b"
  by (simp add: uint_NewEntryID)

lemma IsInclude_uint [uint_simps]: "IsInclude e \<longleftrightarrow> uint e mod 2 = 1"
  by (simp add: IsInclude_def word_less_def uint_simps) linarith

lemma IsExclude_uint [uint_simps]: "IsExclude e \<longleftrightarrow> uint e mod 2 = 0"
  by (simp add: IsExclude_def word_uint_eq_iff uint_simps)

lemma IsExclude_iff: "IsExclude e \<longleftrightarrow> \<not> IsInclude e"
  by (simp add: uint_simps)

lemma valid_NewEntryID: "uint c < 2 ^ 60 \<Longrightarrow> valid_eid (NewEntryID c b)"
  by (simp add: valid_eid_def uint_NewEntryID)

lemma GetConjID_NewEntryID: "uint c < 2 ^ 60 \<Longrightarrow> GetConjID (NewEntryID c b) = c"
  by (simp add: word_uint_eq_iff uint_simps)

lemma IsInclude_NewEntryID: "uint c < 2 ^ 60 \<Longrightarrow> IsInclude (NewEntryID c b) \<longleftrightarrow> b"
proof -
  have "(x * 16 + 1) mod 2 = 1" for x :: int by presburger
  then show "uint c < 2 ^ 60 \<Longrightarrow> IsInclude (NewEntryID c b) \<longleftrightarrow> b"
    by (cases b) (simp_all add: uint_simps)
qed

lemma valid_eid_not_NULL: "valid_eid e \<Longrightarrow> e \<noteq> NULLENTRY"
  by (auto simp: valid_eid_def NULLENTRY_def)

lemma NULLENTRY_max [simp]: "e \<le> NULLENTRY"
proof -
  have "NULLENTRY = - 1" by (simp add: NULLENTRY_def)
  then show ?thesis by (metis word_n1_ge)
qed

lemma not_NULLENTRY_less [simp]: "\<not> NULLENTRY < e"
  by (simp add: not_less)

lemma NewEntryID_cases:
  assumes "valid_eid e"
  shows "e = NewEntryID (GetConjID e) (IsInclude e)"
proof -
  have "uint e = uint e div 16 * 16 + uint e mod 16" by simp
  moreover have "uint e mod 16 = of_bool (uint e mod 2 = 1)"
    using assms mod_mod_cancel [of 2 16 "uint e"] by (auto simp: valid_eid_def)
  ultimately show ?thesis
    unfolding word_uint_eq_iff uint_NewEntryID_GetConjID uint_GetConjID IsInclude_uint by linarith
qed

subsection \<open>Order\<close>

lemma GetConjID_mono: "e \<le> e' \<Longrightarrow> GetConjID e \<le> GetConjID e'"
  by (simp add: word_le_def uint_GetConjID zdiv_mono1)

lemma less_NewEntryID_excl:
  assumes "uint c < 2 ^ 60"
  shows "e < NewEntryID c False \<longleftrightarrow> GetConjID e < c"
  using assms by (simp add: word_less_def uint_simps) linarith

lemma uint_next_entry:
  assumes "uint c < 2 ^ 60"
  shows "uint (NewEntryID c True + 1) = uint c * 16 + 2"
proof -
  have "uint (NewEntryID c True) + 1 < 2 ^ 64" using assms by (simp add: uint_NewEntryID)
  then show ?thesis using assms by (simp add: uint_plus_simple_iff uint_NewEntryID uint_word_ariths)
qed

lemma less_next_entry:
  assumes "uint c < 2 ^ 60" "valid_eid e"
  shows "e < NewEntryID c True + 1 \<longleftrightarrow> GetConjID e \<le> c"
  using assms div_mult_mod_eq [of "uint e" 16]
    pos_mod_sign [of 16 "uint e"]
  unfolding word_less_def word_le_def valid_eid_def uint_GetConjID uint_next_entry [OF assms(1)]
  by linarith

lemma excl_less_incl:
  assumes "GetConjID e = GetConjID e'" "valid_eid e" "valid_eid e'" "IsExclude e" "IsInclude e'"
  shows "e < e'"
proof -
  have "NewEntryID (GetConjID e) False = e" "NewEntryID (GetConjID e) True = e'"
    using assms by (metis IsExclude_iff NewEntryID_cases)+
  then have "uint e = uint (GetConjID e) * 16" "uint e' = uint (GetConjID e) * 16 + 1"
    using uint_NewEntryID_GetConjID [of e False] uint_NewEntryID_GetConjID [of e True] by simp_all
  then show ?thesis by (simp add: word_less_def)
qed

lemma ConjID_Size_mono:
  assumes "uint c < 2 ^ 60" "uint c' < 2 ^ 60" "c \<le> c'"
  shows "ConjID_Size c \<le> ConjID_Size c'"
proof -
  have "uint c div 2 ^ 52 < 256" "uint c' div 2 ^ 52 < 256" using assms by simp_all
  moreover have "0 \<le> uint c div 2 ^ 52" "0 \<le> uint c' div 2 ^ 52"
    by (simp_all add: pos_imp_zdiv_nonneg_iff)
  moreover have "uint c div 2 ^ 52 \<le> uint c' div 2 ^ 52"
    using assms(3) by (intro zdiv_mono1) (auto simp: word_le_def)
  ultimately show ?thesis unfolding ConjID_Size_uint by (simp only: mod_pos_pos_trivial)
qed

subsection \<open>Properties\<close>

text \<open>
  C20: \<^verbatim>\<open>NewConjID\<close> panics exactly when the document id, the index or the size is out of range;
  otherwise \<^verbatim>\<open>DocID\<close>, \<^verbatim>\<open>Index\<close> and \<^verbatim>\<open>Size\<close> read back what was packed, negative ids included, and the
  identifier leaves the four reserved bits free.
\<close>

theorem NewConjID_round_trip:
  "case NewConjID d i s of
     Inl _ \<Rightarrow> \<not> (ValidDocID d \<and> ValidIdxOrSize i \<and> ValidIdxOrSize s)
   | Inr c \<Rightarrow> ValidDocID d \<and> ValidIdxOrSize i \<and> ValidIdxOrSize s \<and>
       ConjID_DocID c = d \<and> ConjID_Index c = i \<and> ConjID_Size c = s \<and> c < 2 ^ 60"
proof (cases "NewConjID d i s")
  case (Inl e)
  then show ?thesis by (auto simp: NewConjID_def Let_def split: if_splits)
next
  case (Inr c)
  then have "uint c < uint (2 ^ 60 :: u64)" using NewConjID_less_2p60 by simp
  moreover have "ValidDocID d \<and> ValidIdxOrSize i \<and> ValidIdxOrSize s"
    using Inr by (auto simp: NewConjID_def split: if_splits)
  ultimately show ?thesis using NewConjID_fields [OF Inr] Inr by (simp add: word_less_def)
qed

text \<open>
  C21: entry identifiers of 60-bit conjunction ids read back the conjunction and the sign, and
  the integer order of entries is the order the scan relies on: first by conjunction, and
  within a conjunction the excluding entry before the including one.
\<close>

theorem NewEntryID_order:
  assumes "uint c < 2 ^ 60" "uint c' < 2 ^ 60"
  shows "GetConjID (NewEntryID c b) = c \<and> IsInclude (NewEntryID c b) = b \<and>
    IsExclude (NewEntryID c b) = (\<not> b) \<and> \<not> IsNULLEntry (NewEntryID c b) \<and>
    (NewEntryID c b < NewEntryID c' b' \<longleftrightarrow> c < c' \<or> (c = c' \<and> \<not> b \<and> b'))"
proof (intro conjI)
  show "GetConjID (NewEntryID c b) = c" "IsInclude (NewEntryID c b) = b" "IsExclude (NewEntryID c b) = (\<not> b)"
    using assms by (simp_all add: GetConjID_NewEntryID IsInclude_NewEntryID IsExclude_iff)
  show "NewEntryID c b < NewEntryID c' b' \<longleftrightarrow> c < c' \<or> (c = c' \<and> \<not> b \<and> b')"
    using assms by (cases b; cases b') (auto simp: word_less_def uint_NewEntryID word_uint_eq_iff)
  show "\<not> IsNULLEntry (NewEntryID c b)"
    using assms valid_eid_not_NULL valid_NewEntryID by (simp add: IsNULLEntry_def)
qed

theorem NewEntryID_order_witness:
  "NewEntryID 5 False < NewEntryID 5 True \<and> NewEntryID 5 True < NewEntryID 6 False
   \<and> GetConjID (NewEntryID 5 True) = 5"
  using NewEntryID_order [of 5 5 False True] NewEntryID_order [of 5 6 True False] by simp

end
