(* ===== verification/Document.thy ===== *)
theory Document
  imports GoValue IdTypes
begin

text \<open>
  Model of \<^verbatim>\<open>boolean_expr.go\<close> and \<^verbatim>\<open>document.go\<close>: documents in disjunctive normal form. A
  document is a list of conjunctions, a conjunction maps fields to lists of expressions, an
  expression includes or excludes values. The map of a conjunction is an association list.
\<close>

type_synonym BEField = string
type_synonym ValueOpt = int
type_synonym Values = gval

definition ValueOptEQ :: ValueOpt where "ValueOptEQ = 0"
definition ValueOptGT :: ValueOpt where "ValueOptGT = 1"
definition ValueOptLT :: ValueOpt where "ValueOptLT = 2"
definition ValueOptBetween :: ValueOpt where "ValueOptBetween = 3"

record BoolValues =
  Incl :: bool
  Value :: Values
  Operator :: ValueOpt

text \<open>A \<^verbatim>\<open>BooleanExpr\<close> embeds a \<^verbatim>\<open>BoolValues\<close> and names its field.\<close>

record BooleanExpr = BoolValues +
  expr_Field :: BEField

text \<open>\<^verbatim>\<open>Assignments\<close> is a map from fields to values.\<close>

type_synonym Assignments = "(BEField \<times> Values) list"

fun Assignments_Size :: "Assignments \<Rightarrow> int res" where
  "Assignments_Size [] = Inr 0"
| "Assignments_Size ((f, v) # ass) =
     (case NilInterface v of
        Inl e \<Rightarrow> Inl e
      | Inr isnil \<Rightarrow>
          (case Assignments_Size ass of
             Inl e \<Rightarrow> Inl e
           | Inr n \<Rightarrow> Inr (if isnil then n else n + 1)))"

definition NewBoolValue :: "ValueOpt \<Rightarrow> Values \<Rightarrow> bool \<Rightarrow> BoolValues" where
  "NewBoolValue op v incl = \<lparr>Incl = incl, Value = v, Operator = op\<rparr>"

definition NewGTBoolValue :: "int \<Rightarrow> BoolValues" where
  "NewGTBoolValue v = NewBoolValue ValueOptGT (VInt KInt64 v) True"

definition NewLTBoolValue :: "int \<Rightarrow> BoolValues" where
  "NewLTBoolValue v = NewBoolValue ValueOptLT (VInt KInt64 v) True"

definition NewBoolExpr2 :: "BEField \<Rightarrow> BoolValues \<Rightarrow> BooleanExpr" where
  "NewBoolExpr2 f bv =
     \<lparr>Incl = Incl bv, Value = Value bv, Operator = Operator bv, expr_Field = f\<rparr>"

definition NewBoolExpr :: "BEField \<Rightarrow> bool \<Rightarrow> Values \<Rightarrow> BooleanExpr" where
  "NewBoolExpr f inc v = \<lparr>Incl = inc, Value = v, Operator = ValueOptEQ, expr_Field = f\<rparr>"

definition NewIntValues :: "int \<Rightarrow> int list \<Rightarrow> Values" where
  "NewIntValues v os = VIntS KInt (Slice (v # os))"

definition NewInt32Values :: "int \<Rightarrow> int list \<Rightarrow> Values" where
  "NewInt32Values v os = VIntS KInt32 (Slice (v # os))"

definition NewInt64Values :: "int \<Rightarrow> int list \<Rightarrow> Values" where
  "NewInt64Values v os = VIntS KInt64 (Slice (v # os))"

definition NewStrValues :: "string \<Rightarrow> string list \<Rightarrow> Values" where
  "NewStrValues v ss = VStrS (Slice (v # ss))"

text \<open>The embedded \<^verbatim>\<open>BoolValues\<close> of an expression.\<close>

definition expr_values :: "BooleanExpr \<Rightarrow> BoolValues" where
  "expr_values e = \<lparr>Incl = Incl e, Value = Value e, Operator = Operator e\<rparr>"

subsection \<open>Conjunctions\<close>

record Conjunction =
  Expressions :: "(BEField \<times> BoolValues list) list"

definition NewConjunction :: Conjunction where
  "NewConjunction = \<lparr>Expressions = []\<rparr>"

definition addExpression :: "Conjunction \<Rightarrow> BEField \<Rightarrow> BoolValues \<Rightarrow> Conjunction" where
  "addExpression cj f bv =
     cj\<lparr>Expressions := alist_modify f (\<lambda>o'. (case o' of None \<Rightarrow> [] | Some l \<Rightarrow> l) @ [bv]) (Expressions cj)\<rparr>"

definition Conj_In :: "Conjunction \<Rightarrow> BEField \<Rightarrow> Values \<Rightarrow> Conjunction" where
  "Conj_In cj f v = addExpression cj f (NewBoolValue ValueOptEQ v True)"

definition Conj_NotIn :: "Conjunction \<Rightarrow> BEField \<Rightarrow> Values \<Rightarrow> Conjunction" where
  "Conj_NotIn cj f v = addExpression cj f (NewBoolValue ValueOptEQ v False)"

definition Conj_Include :: "Conjunction \<Rightarrow> BEField \<Rightarrow> Values \<Rightarrow> Conjunction" where
  "Conj_Include cj f v = addExpression cj f (NewBoolValue ValueOptEQ v True)"

definition Conj_Exclude :: "Conjunction \<Rightarrow> BEField \<Rightarrow> Values \<Rightarrow> Conjunction" where
  "Conj_Exclude cj f v = addExpression cj f (NewBoolValue ValueOptEQ v False)"

definition AddBoolExprs :: "Conjunction \<Rightarrow> BooleanExpr list \<Rightarrow> Conjunction" where
  "AddBoolExprs cj exprs = foldl (\<lambda>c e. addExpression c (expr_Field e) (expr_values e)) cj exprs"

definition GreaterThan :: "Conjunction \<Rightarrow> BEField \<Rightarrow> int \<Rightarrow> Conjunction" where
  "GreaterThan cj f v = AddBoolExprs cj [NewBoolExpr2 f (NewGTBoolValue v)]"

definition LessThan :: "Conjunction \<Rightarrow> BEField \<Rightarrow> int \<Rightarrow> Conjunction" where
  "LessThan cj f v = AddBoolExprs cj [NewBoolExpr2 f (NewLTBoolValue v)]"

definition Between :: "Conjunction \<Rightarrow> BEField \<Rightarrow> int \<Rightarrow> int \<Rightarrow> Conjunction" where
  "Between cj f l h =
     AddBoolExprs cj [NewBoolExpr2 f (NewBoolValue ValueOptBetween (VIntS KInt64 (Slice [l, h])) True)]"

definition AddExpression3 :: "Conjunction \<Rightarrow> BEField \<Rightarrow> bool \<Rightarrow> Values \<Rightarrow> Conjunction" where
  "AddExpression3 cj f incl v = addExpression cj f (NewBoolValue ValueOptEQ v incl)"

text \<open>The number of fields with an including expression (the inner loop breaks at the first).\<close>

fun CalcConjSize_loop :: "(BEField \<times> BoolValues list) list \<Rightarrow> int" where
  "CalcConjSize_loop [] = 0"
| "CalcConjSize_loop ((f, bvs) # es) = (if list_ex Incl bvs then 1 else 0) + CalcConjSize_loop es"

definition CalcConjSize :: "Conjunction \<Rightarrow> int" where
  "CalcConjSize cj = CalcConjSize_loop (Expressions cj)"

definition ExpressionCount :: "Conjunction \<Rightarrow> int" where
  "ExpressionCount cj = int (length (Expressions cj))"

subsection \<open>Documents\<close>

record Document =
  ID :: DocID
  Version :: nat
  doc_Cons :: "Conjunction list"

definition NewDocument :: "DocID \<Rightarrow> Document" where
  "NewDocument i = \<lparr>ID = i, Version = 0, doc_Cons = []\<rparr>"

definition AddConjunction :: "Document \<Rightarrow> Conjunction list \<Rightarrow> Document" where
  "AddConjunction doc cons = doc\<lparr>doc_Cons := doc_Cons doc @ cons\<rparr>"

definition AddConjunctions :: "Document \<Rightarrow> Conjunction \<Rightarrow> Conjunction list \<Rightarrow> Document" where
  "AddConjunctions doc cj others = doc\<lparr>doc_Cons := (doc_Cons doc @ [cj]) @ others\<rparr>"

fun DocIDList_Contain :: "DocID list \<Rightarrow> DocID \<Rightarrow> bool" where
  "DocIDList_Contain [] i = False"
| "DocIDList_Contain (v # s) i = (if v = i then True else DocIDList_Contain s i)"

fun DocIDList_Sub :: "DocID list \<Rightarrow> DocID list \<Rightarrow> DocID list" where
  "DocIDList_Sub [] other = []"
| "DocIDList_Sub (v # s) other =
     (if DocIDList_Contain other v then DocIDList_Sub s other else v # DocIDList_Sub s other)"

subsection \<open>Laws\<close>

definition conj_wf :: "Conjunction \<Rightarrow> bool" where
  "conj_wf cj \<longleftrightarrow> distinct (map fst (Expressions cj))"

definition incl_fields :: "Conjunction \<Rightarrow> BEField set" where
  "incl_fields cj = {f. \<exists>bvs. (f, bvs) \<in> set (Expressions cj) \<and> (\<exists>bv\<in>set bvs. Incl bv)}"

lemma conj_wf_New [simp]: "conj_wf NewConjunction"
  by (simp add: conj_wf_def NewConjunction_def)

lemma conj_wf_add [simp]: "conj_wf (addExpression cj f bv) = conj_wf cj"
  by (simp add: conj_wf_def addExpression_def)

lemma finite_incl_fields [simp]: "finite (incl_fields cj)"
proof -
  have "incl_fields cj \<subseteq> fst ` set (Expressions cj)" by (force simp: incl_fields_def)
  then show ?thesis by (rule finite_subset) simp
qed

lemma CalcConjSize_loop_card:
  assumes "distinct (map fst es)"
  shows "CalcConjSize_loop es = int (card {f. \<exists>bvs. (f, bvs) \<in> set es \<and> (\<exists>bv\<in>set bvs. Incl bv)})"
  using assms
proof (induction es)
  case (Cons p es)
  obtain f bvs where p: "p = (f, bvs)" by fastforce
  let ?S = "\<lambda>es. {f. \<exists>bvs. (f, bvs) \<in> set es \<and> (\<exists>bv\<in>set bvs. Incl bv)}"
  have "?S (p # es) = (if list_ex Incl bvs then insert f (?S es) else ?S es)"
    by (auto simp: p list_ex_iff)
  moreover have "f \<notin> ?S es" using Cons.prems p by force
  moreover have "finite (?S es)" by (rule finite_subset [of _ "fst ` set es"]) force+
  ultimately show ?case using Cons by (simp add: p)
qed simp

lemma CalcConjSize_card: "conj_wf cj \<Longrightarrow> CalcConjSize cj = int (card (incl_fields cj))"
  by (simp add: CalcConjSize_def incl_fields_def conj_wf_def CalcConjSize_loop_card)

lemma CalcConjSize_nonneg: "0 \<le> CalcConjSize cj"
proof -
  have "0 \<le> CalcConjSize_loop es" for es by (induction es) auto
  then show ?thesis by (simp add: CalcConjSize_def)
qed

lemma set_DocIDList_Sub: "set (DocIDList_Sub s other) = set s - set other"
proof -
  have "DocIDList_Contain xs i \<longleftrightarrow> i \<in> set xs" for xs i by (induction xs) auto
  then show ?thesis by (induction s) auto
qed

lemma incl_fields_add:
  assumes "conj_wf cj"
  shows "incl_fields (addExpression cj f bv) = (if Incl bv then insert f (incl_fields cj) else incl_fields cj)"
proof -
  let ?g = "\<lambda>o'. (case o' of None \<Rightarrow> [] | Some l \<Rightarrow> l) @ [bv]"
  have wf: "conj_wf (addExpression cj f bv)" using assms by simp
  have in_map: "g \<in> incl_fields c \<longleftrightarrow> (\<exists>bvs. map_of (Expressions c) g = Some bvs \<and> (\<exists>b\<in>set bvs. Incl b))"
    if "conj_wf c" for g c
    using that by (auto simp: incl_fields_def conj_wf_def)
  have "map_of (Expressions (addExpression cj f bv)) g =
      (if g = f then Some (?g (map_of (Expressions cj) f)) else map_of (Expressions cj) g)" for g
    by (simp add: addExpression_def)
  then show ?thesis using in_map [OF wf] in_map [OF assms] by (auto split: option.splits if_splits) blast
qed

lemma AddBoolExprs_incl:
  "conj_wf cj \<Longrightarrow>
   conj_wf (AddBoolExprs cj exprs) \<and>
   incl_fields (AddBoolExprs cj exprs) = incl_fields cj \<union> {expr_Field e |e. e \<in> set exprs \<and> Incl e}"
proof (induction exprs arbitrary: cj)
  case (Cons e exprs)
  let ?c = "addExpression cj (expr_Field e) (expr_values e)"
  have "AddBoolExprs cj (e # exprs) = AddBoolExprs ?c exprs" by (simp add: AddBoolExprs_def)
  moreover have "incl_fields ?c = (if Incl e then insert (expr_Field e) (incl_fields cj) else incl_fields cj)"
    using incl_fields_add [OF Cons.prems] by (simp add: expr_values_def)
  ultimately show ?case using Cons.IH [of ?c] Cons.prems by auto
qed (simp add: AddBoolExprs_def)

subsection \<open>Properties\<close>

text \<open>
  C24: The size of a conjunction that was built from expressions is the number of different
  fields that have an including expression; several expressions on a field count once and
  excluding expressions do not count.
\<close>

theorem CalcConjSize_counts_fields:
  "CalcConjSize (AddBoolExprs NewConjunction exprs) = int (card {expr_Field e |e. e \<in> set exprs \<and> Incl e})"
proof -
  have "incl_fields NewConjunction = {}" by (simp add: incl_fields_def NewConjunction_def)
  then show ?thesis using AddBoolExprs_incl [OF conj_wf_New, of exprs] CalcConjSize_card by simp
qed

end
