(* ===== verification/Parser.thy ===== *)
theory Parser
  imports GoValue
begin

text \<open>
  Model of \<^verbatim>\<open>parser/tokenizer.go\<close>, \<^verbatim>\<open>parser/types.go\<close> and \<^verbatim>\<open>parser/number_parser.go\<close>: how an
  expression value or a query assignment becomes the string tokens of the default holder,
  or the integers of the range holder. \<^verbatim>\<open>strconv.ParseFloat\<close> is the argument \<open>parseFloat\<close> of
  the definitions that use it.
\<close>

subsection \<open>Strings\<close>

fun ValueToString :: "gval \<Rightarrow> string res" where
  "ValueToString (VStr s) = Inr s"
| "ValueToString (VJson s) = Inr s"
| "ValueToString (VInt _ i) = Inr (int_dec i)"
| "ValueToString (VFlt _ f) = Inr (float_text f)"
| "ValueToString _ = Inl (Err ''unsupported value type'')"

fun map_res :: "('a \<Rightarrow> 'b res) \<Rightarrow> 'a list \<Rightarrow> 'b list res" where
  "map_res f [] = Inr []"
| "map_res f (x # xs) =
     (case f x of Inl e \<Rightarrow> Inl e
      | Inr y \<Rightarrow> (case map_res f xs of Inl e \<Rightarrow> Inl e | Inr ys \<Rightarrow> Inr (y # ys)))"

fun ValuesToStrings :: "gval \<Rightarrow> string list res" where
  "ValuesToStrings VNil = Inr []"
| "ValuesToStrings (VStr s) = (case ValueToString (VStr s) of Inl e \<Rightarrow> Inl e | Inr t \<Rightarrow> Inr [t])"
| "ValuesToStrings (VJson s) = (case ValueToString (VJson s) of Inl e \<Rightarrow> Inl e | Inr t \<Rightarrow> Inr [t])"
| "ValuesToStrings (VInt k i) = (case ValueToString (VInt k i) of Inl e \<Rightarrow> Inl e | Inr t \<Rightarrow> Inr [t])"
| "ValuesToStrings (VFlt k f) = (case ValueToString (VFlt k f) of Inl e \<Rightarrow> Inl e | Inr t \<Rightarrow> Inr [t])"
| "ValuesToStrings (VStrS s) = Inr (elems s)"
| "ValuesToStrings (VJsonS s) = Inr (elems s)"
| "ValuesToStrings (VIntS _ s) = Inr (map int_dec (elems s))"
| "ValuesToStrings (VFltS _ s) = Inr (map float_text (elems s))"
| "ValuesToStrings (VAnyS s) = map_res ValueToString (elems s)"
| "ValuesToStrings _ = Inl (Err ''unsupported value type'')"

text \<open>The \<^verbatim>\<open>ValueTokenizer\<close> interface.\<close>

record ValueTokenizer =
  TokenizeValue :: "gval \<Rightarrow> string list res"
  TokenizeAssign :: "gval \<Rightarrow> string list res"

definition NewDefaultTokenizer :: ValueTokenizer where
  "NewDefaultTokenizer = \<lparr>TokenizeValue = ValuesToStrings, TokenizeAssign = ValuesToStrings\<rparr>"

definition funcTokenizer :: "(gval \<Rightarrow> string list res) \<Rightarrow> ValueTokenizer" where
  "funcTokenizer f = \<lparr>TokenizeValue = f, TokenizeAssign = f\<rparr>"

subsection \<open>Integers\<close>

text \<open>
  Signed integers are widened to \<^verbatim>\<open>int64\<close> and unsigned ones converted; both are \<open>int64_of\<close>,
  which is the identity on the values of a signed type.
\<close>

definition parse_num_string :: "(string \<Rightarrow> gfloat option) \<Rightarrow> string \<Rightarrow> bool \<Rightarrow> int res" where
  "parse_num_string parseFloat s floatToInt =
     (case ParseInt s of
        Some n \<Rightarrow> Inr n
      | None \<Rightarrow>
          (case (if floatToInt then parseFloat s else None) of
             Some f \<Rightarrow> Inr (int64_of (float_int64 f))
           | None \<Rightarrow> Inl (Err ''invalid number'')))"

fun ParseIntegerNumber :: "(string \<Rightarrow> gfloat option) \<Rightarrow> gval \<Rightarrow> bool \<Rightarrow> int res" where
  "ParseIntegerNumber pf (VInt _ n) _ = Inr (int64_of n)"
| "ParseIntegerNumber pf (VStr s) floatToInt = parse_num_string pf s floatToInt"
| "ParseIntegerNumber pf (VJson s) floatToInt = parse_num_string pf s floatToInt"
| "ParseIntegerNumber pf (VFlt _ f) floatToInt =
     (if floatToInt then Inr (int64_of (float_int64 f)) else Inl (Err ''not supported number type''))"
| "ParseIntegerNumber pf _ _ = Inl (Err ''not supported number type'')"

text \<open>
  \<open>ParseIntegers\<close>: a single number that does not parse falls out of the switch and is
  reported as an unsupported type; a slice element reports its own error.
\<close>

definition single_or_type_error :: "int res \<Rightarrow> int list res" where
  "single_or_type_error r = (case r of Inr n \<Rightarrow> Inr [n] | Inl _ \<Rightarrow> Inl (Err ''value type not support''))"

definition number_switch :: "(string \<Rightarrow> gfloat option) \<Rightarrow> gval \<Rightarrow> bool \<Rightarrow> int list res" where
  "number_switch pf v f2i =
     (case v of
        VStr _ \<Rightarrow> single_or_type_error (ParseIntegerNumber pf v f2i)
      | VJson _ \<Rightarrow> single_or_type_error (ParseIntegerNumber pf v f2i)
      | VInt _ _ \<Rightarrow> single_or_type_error (ParseIntegerNumber pf v f2i)
      | VFlt _ _ \<Rightarrow> single_or_type_error (ParseIntegerNumber pf v f2i)
      | VIntS k s \<Rightarrow> map_res (\<lambda>i. ParseIntegerNumber pf (VInt k i) f2i) (elems s)
      | VFltS k s \<Rightarrow> map_res (\<lambda>f. ParseIntegerNumber pf (VFlt k f) f2i) (elems s)
      | VJsonS s \<Rightarrow> map_res (\<lambda>t. ParseIntegerNumber pf (VJson t) f2i) (elems s)
      | VStrS s \<Rightarrow> map_res (\<lambda>t. ParseIntegerNumber pf (VStr t) f2i) (elems s)
      | VAnyS s \<Rightarrow> map_res (\<lambda>iv. ParseIntegerNumber pf iv f2i) (elems s)
      | _ \<Rightarrow> Inl (Err ''value type not support''))"

definition ParseIntegers :: "(string \<Rightarrow> gfloat option) \<Rightarrow> gval \<Rightarrow> bool \<Rightarrow> int list res" where
  "ParseIntegers pf v floatToInt =
     (case NilInterface v of
        Inl e \<Rightarrow> Inl e
      | Inr True \<Rightarrow> Inr []
      | Inr False \<Rightarrow> number_switch pf v floatToInt)"

subsection \<open>NumberParser\<close>

text \<open>Both constructors of the source set \<open>floatAsInt\<close>, whatever \<^verbatim>\<open>NewNumberParser2\<close> is given.\<close>

record NumberParser =
  floatAsInt :: bool

definition NewNumberParser :: NumberParser where
  "NewNumberParser = \<lparr>floatAsInt = True\<rparr>"

definition NewNumberParser2 :: "bool \<Rightarrow> NumberParser" where
  "NewNumberParser2 f2i = \<lparr>floatAsInt = True\<rparr>"

definition NumberParser_ParseValue ::
  "(string \<Rightarrow> gfloat option) \<Rightarrow> NumberParser \<Rightarrow> gval \<Rightarrow> u64 list res"
where
  "NumberParser_ParseValue pf p v =
     (case v of
        VNil \<Rightarrow> Inl (Panic ''nil pointer dereference: reflect.TypeOf(nil).String()'')
      | _ \<Rightarrow> (case number_switch pf v (floatAsInt p) of
                Inl e \<Rightarrow> Inl e | Inr ns \<Rightarrow> Inr (map word_of_int ns)))"

definition NumberParser_ParseAssign ::
  "(string \<Rightarrow> gfloat option) \<Rightarrow> NumberParser \<Rightarrow> gval \<Rightarrow> u64 list res"
where
  "NumberParser_ParseAssign pf p v =
     (case NilInterface v of
        Inl e \<Rightarrow> Inl e
      | Inr True \<Rightarrow> Inr []
      | Inr False \<Rightarrow> NumberParser_ParseValue pf p v)"

definition ids_to_strings :: "u64 list res \<Rightarrow> string list res" where
  "ids_to_strings r = (case r of Inl e \<Rightarrow> Inl e | Inr ids \<Rightarrow> Inr (map (\<lambda>i. int_dec (uint i)) ids))"

definition NumberParser_tokenizer ::
  "(string \<Rightarrow> gfloat option) \<Rightarrow> NumberParser \<Rightarrow> ValueTokenizer"
where
  "NumberParser_tokenizer pf p =
     \<lparr>TokenizeValue = (\<lambda>v. ids_to_strings (NumberParser_ParseValue pf p v)),
      TokenizeAssign = (\<lambda>v. ids_to_strings (NumberParser_ParseAssign pf p v))\<rparr>"

subsection \<open>Laws\<close>

lemma map_res_Inr: "map_res f xs = Inr ys \<longleftrightarrow> list_all2 (\<lambda>x y. f x = Inr y) xs ys"
proof (induction xs arbitrary: ys)
  case (Cons x xs)
  show ?case
    by (cases ys) (auto simp flip: Cons.IH split: sum.splits)
qed auto

lemma map_res_total: "(\<And>x. x \<in> set xs \<Longrightarrow> \<exists>y. f x = Inr y) \<Longrightarrow> \<exists>ys. map_res f xs = Inr ys"
  by (induction xs) (fastforce split: sum.splits)+

subsection \<open>Parsed integers fit into 64 bits\<close>

definition is_int64 :: "int \<Rightarrow> bool" where
  "is_int64 x \<longleftrightarrow> - (2 ^ 63) \<le> x \<and> x < 2 ^ 63"

lemma is_int64_of [simp]: "is_int64 (int64_of x)"
  using int64_of_range [of x] by (simp add: is_int64_def)

lemma int64_of_is [simp]: "is_int64 x \<Longrightarrow> int64_of x = x"
  by (simp add: int64_of_id is_int64_def)

lemma ParseInt_is_int64: "ParseInt s = Some n \<Longrightarrow> is_int64 n"
  by (auto simp: ParseInt_def is_int64_def Let_def split: list.splits option.splits if_splits)

lemma parse_num_string_is_int64: "parse_num_string pf s f2i = Inr n \<Longrightarrow> is_int64 n"
  by (auto simp: parse_num_string_def ParseInt_is_int64 split: if_splits option.splits)

lemma ParseIntegerNumber_is_int64: "ParseIntegerNumber pf v f2i = Inr n \<Longrightarrow> is_int64 n"
  by (cases v) (auto simp: parse_num_string_is_int64 split: if_splits)

lemma map_res_set: "map_res f xs = Inr ys \<Longrightarrow> y \<in> set ys \<Longrightarrow> \<exists>x\<in>set xs. f x = Inr y"
  by (induction xs arbitrary: ys) (auto split: sum.splits)

lemma ParseIntegers_is_int64:
  assumes "ParseIntegers pf v f2i = Inr ns" "n \<in> set ns"
  shows "is_int64 n"
proof (cases "ns = []")
  case False
  then have "number_switch pf v f2i = Inr ns"
    using assms(1) by (auto simp: ParseIntegers_def split: sum.splits bool.splits)
  then show ?thesis using assms(2)
    by (cases v)
       (auto simp: number_switch_def single_or_type_error_def parse_num_string_is_int64
         ParseIntegerNumber_is_int64 split: sum.splits if_splits dest!: map_res_set)
qed (use assms in simp)

subsection \<open>Properties\<close>

lemma ParseInt_exact: "ParseInt (int_dec i) = (if is_int64 i then Some i else None)"
proof (cases "is_int64 i")
  case True
  then show ?thesis by (simp add: ParseInt_int_dec is_int64_def)
next
  case False
  obtain c cs where n: "nat_dec (nat i) = c # cs" "is_digit c" using nat_dec_first by blast
  then have c: "c \<noteq> CHR ''-''" "c \<noteq> CHR ''+''" by (auto simp: is_digit_def)
  show ?thesis
  proof (cases "i < 0")
    case True
    then show ?thesis using False parse_nat_dec [of "nat (- i)"]
      by (auto simp: ParseInt_def int_dec_def is_int64_def)
  next
    case pos: False
    then have "ParseInt (int_dec i) = None"
      using False parse_nat_dec [of "nat i"] n(1) c by (auto simp: ParseInt_def int_dec_def is_int64_def)
    then show ?thesis using False by simp
  qed
qed




end
