(* ===== verification/SkipCursor.thy ===== *)
theory SkipCursor
  imports IdTypes
begin

text \<open>
  The interface between the cursors of \<^verbatim>\<open>index_scanner.go\<close> and the retrieval loops of
  \<^verbatim>\<open>be_indexer_kgroups.go\<close> and \<^verbatim>\<open>be_indexer_compact.go\<close>. A cursor is known by the set of
  entries it has not passed yet (\<open>rem\<close>), the smallest of them (\<open>cur\<close>) and \<open>skip\<close>, which
  drops every entry below a bound. The locale proves once what one round of the retrieval
  loops does to the conjunctions that can still match; \<open>IndexScanner\<close> interprets it for
  the posting-list cursor and for the field cursor.
\<close>

subsection \<open>What a family of posting sets matches\<close>

definition has_conj :: "ConjID \<Rightarrow> EntryID set \<Rightarrow> bool" where
  "has_conj c S \<longleftrightarrow> (\<exists>e\<in>S. GetConjID e = c)"

definition has_excl :: "ConjID \<Rightarrow> EntryID set \<Rightarrow> bool" where
  "has_excl c S \<longleftrightarrow> (\<exists>e\<in>S. GetConjID e = c \<and> IsExclude e)"

text \<open>
  \<open>conj_matched need Ss c\<close>: the conjunction \<open>c\<close> occurs in at least \<open>need c\<close> of the posting
  sets and none of them excludes it. This is what the paper's algorithm computes.
\<close>

definition conj_matched :: "(ConjID \<Rightarrow> nat) \<Rightarrow> EntryID set list \<Rightarrow> ConjID \<Rightarrow> bool" where
  "conj_matched need Ss c \<longleftrightarrow>
     need c \<le> length (filter (has_conj c) Ss) \<and> (\<forall>S\<in>set Ss. \<not> has_excl c S)"

definition need_mono :: "(ConjID \<Rightarrow> nat) \<Rightarrow> bool" where
  "need_mono need \<longleftrightarrow>
     (\<forall>c. 1 \<le> need c) \<and>
     (\<forall>c c'. uint c < 2 ^ 60 \<longrightarrow> uint c' < 2 ^ 60 \<longrightarrow> c \<le> c' \<longrightarrow> need c \<le> need c')"

lemma conj_matched_mset:
  assumes "mset Ss = mset Ts"
  shows "conj_matched need Ss = conj_matched need Ts"
proof
  fix c
  have "length (filter (has_conj c) Ss) = length (filter (has_conj c) Ts)"
    using assms by (metis mset_filter size_mset)
  moreover have "set Ss = set Ts" using assms by (rule mset_eq_setD)
  ultimately show "conj_matched need Ss c = conj_matched need Ts c" by (simp add: conj_matched_def)
qed

lemma length_filter_list_all2:
  assumes "list_all2 (\<lambda>x y. P x \<longrightarrow> Q y) xs ys"
  shows "length (filter P xs) \<le> length (filter Q ys)"
  using assms by (induction rule: list_all2_induct) auto

lemma conj_matched_mono:
  assumes "list_all2 (\<lambda>S T. (has_conj c S \<longrightarrow> has_conj c T) \<and> (has_excl c T \<longrightarrow> has_excl c S)) Ss Ts"
    and "conj_matched need Ss c"
  shows "conj_matched need Ts c"
proof -
  have "length (filter (has_conj c) Ss) \<le> length (filter (has_conj c) Ts)"
    using assms(1) by (intro length_filter_list_all2) (auto elim!: list_all2_mono)
  moreover have "\<forall>T\<in>set Ts. \<not> has_excl c T"
    using assms by (fastforce simp: list_all2_conv_all_nth in_set_conv_nth conj_matched_def)
  ultimately show ?thesis using assms(2) by (simp add: conj_matched_def)
qed

lemma conj_matched_cong:
  assumes "list_all2 (\<lambda>S T. (has_conj c S \<longleftrightarrow> has_conj c T) \<and> (has_excl c S \<longleftrightarrow> has_excl c T)) Ss Ts"
  shows "conj_matched need Ss c \<longleftrightarrow> conj_matched need Ts c"
proof
  show "conj_matched need Ss c \<Longrightarrow> conj_matched need Ts c"
    by (erule conj_matched_mono [rotated]) (use assms in \<open>auto elim!: list_all2_mono\<close>)
  have "list_all2 (\<lambda>T S. (has_conj c T \<longleftrightarrow> has_conj c S) \<and> (has_excl c S \<longleftrightarrow> has_excl c T)) Ts Ss"
    using assms by (auto simp: list_all2_conv_all_nth)
  then show "conj_matched need Ts c \<Longrightarrow> conj_matched need Ss c"
    by (elim conj_matched_mono [rotated]) (auto elim!: list_all2_mono)
qed

lemma conj_matched_has_conj:
  "conj_matched need Ss c \<Longrightarrow> 1 \<le> need c \<Longrightarrow> \<exists>S\<in>set Ss. has_conj c S"
  by (rule ccontr) (auto simp: conj_matched_def)

lemma has_conj_uint: "has_conj c S \<Longrightarrow> uint c < 2 ^ 60"
  by (auto simp: has_conj_def)

subsection \<open>Advancing the first cursors, skipping in the others\<close>

definition advance :: "(EntryID \<Rightarrow> 'c \<Rightarrow> 'c) \<Rightarrow> nat \<Rightarrow> EntryID \<Rightarrow> 'c list \<Rightarrow> 'c list" where
  "advance skip n eid xs = map (skip eid) (take n xs) @ drop n xs"

definition skip_tail ::
  "('c \<Rightarrow> EntryID) \<Rightarrow> (EntryID \<Rightarrow> 'c \<Rightarrow> 'c) \<Rightarrow> nat \<Rightarrow> EntryID \<Rightarrow> 'c list \<Rightarrow> 'c list" where
  "skip_tail cur skip n eid xs =
     take n xs @ map (\<lambda>x. if cur x < eid then skip eid x else x) (drop n xs)"

lemma length_advance [simp]: "length (advance skip n eid xs) = length xs"
  by (simp add: advance_def)

lemma length_skip_tail [simp]: "length (skip_tail cur skip n eid xs) = length xs"
  by (simp add: skip_tail_def)

subsection \<open>The cursor interface\<close>

locale skip_cursor =
  fixes cur :: "'c \<Rightarrow> EntryID"
    and skip :: "EntryID \<Rightarrow> 'c \<Rightarrow> 'c"
    and rem :: "'c \<Rightarrow> EntryID set"
    and ok :: "'c \<Rightarrow> bool"
    and sz :: "'c \<Rightarrow> nat"
  assumes ok_skip: "ok x \<Longrightarrow> ok (skip eid x)"
    and rem_skip: "ok x \<Longrightarrow> rem (skip eid x) = {e \<in> rem x. eid \<le> e}"
    and cur_mem: "ok x \<Longrightarrow> cur x \<noteq> NULLENTRY \<Longrightarrow> cur x \<in> rem x"
    and cur_le: "ok x \<Longrightarrow> e \<in> rem x \<Longrightarrow> cur x \<le> e"
    and rem_valid: "ok x \<Longrightarrow> e \<in> rem x \<Longrightarrow> valid_eid e"
    and sz_skip: "ok x \<Longrightarrow> sz (skip eid x) \<le> sz x"
    and sz_skip_less: "ok x \<Longrightarrow> cur x < eid \<Longrightarrow> sz (skip eid x) < sz x"
begin

lemma cur_NULL_iff: "ok x \<Longrightarrow> cur x = NULLENTRY \<longleftrightarrow> rem x = {}"
  using cur_mem cur_le rem_valid valid_eid_not_NULL NULLENTRY_max
  by (metis all_not_in_conv antisym empty_iff)

lemma cur_valid: "ok x \<Longrightarrow> cur x \<noteq> NULLENTRY \<Longrightarrow> valid_eid (cur x)"
  using cur_mem rem_valid by blast

lemma has_conj_skip_le:
  "ok x \<Longrightarrow> has_conj d (rem (skip eid x)) \<Longrightarrow> has_conj d (rem x)"
  "ok x \<Longrightarrow> has_excl d (rem (skip eid x)) \<Longrightarrow> has_excl d (rem x)"
  by (auto simp: has_conj_def has_excl_def rem_skip)

lemma has_conj_skip_eq:
  assumes "ok x" and "\<And>e. valid_eid e \<Longrightarrow> GetConjID e = d \<Longrightarrow> eid \<le> e"
  shows "has_conj d (rem (skip eid x)) \<longleftrightarrow> has_conj d (rem x)"
    and "has_excl d (rem (skip eid x)) \<longleftrightarrow> has_excl d (rem x)"
  using assms rem_valid [OF assms(1)] by (auto simp: has_conj_def has_excl_def rem_skip)

lemma ok_advance: "\<forall>x\<in>set xs. ok x \<Longrightarrow> \<forall>x\<in>set (advance skip n eid xs). ok x"
  by (auto simp: advance_def ok_skip dest: in_set_takeD in_set_dropD)

lemma ok_skip_tail: "\<forall>x\<in>set xs. ok x \<Longrightarrow> \<forall>x\<in>set (skip_tail cur skip n eid xs). ok x"
  by (auto simp: skip_tail_def ok_skip dest: in_set_takeD in_set_dropD)

lemma map_rem_split: "map rem xs = map rem (take n xs) @ map rem (drop n xs)"
  by (metis append_take_drop_id map_append)

lemma matched_advance:
  assumes ok: "\<forall>x\<in>set xs. ok x" and d: "\<And>e. valid_eid e \<Longrightarrow> GetConjID e = d \<Longrightarrow> eid \<le> e"
  shows "conj_matched need (map rem (advance skip n eid xs)) d \<longleftrightarrow> conj_matched need (map rem xs) d"
proof -
  have "list_all2 (\<lambda>x y. (has_conj d (rem x) \<longleftrightarrow> has_conj d (rem y)) \<and> (has_excl d (rem x) \<longleftrightarrow> has_excl d (rem y)))
      (advance skip n eid xs) (take n xs @ drop n xs)"
    unfolding advance_def using ok d
    by (intro list_all2_appendI)
       (auto simp: list_all2_conv_all_nth has_conj_skip_eq dest!: in_set_takeD nth_mem)
  then show ?thesis by (intro conj_matched_cong) (simp add: list_all2_map1 list_all2_map2)
qed

lemma matched_skip_tail:
  assumes ok: "\<forall>x\<in>set xs. ok x" and d: "\<And>e. valid_eid e \<Longrightarrow> GetConjID e = d \<Longrightarrow> eid \<le> e"
  shows "conj_matched need (map rem (skip_tail cur skip n eid xs)) d \<longleftrightarrow> conj_matched need (map rem xs) d"
proof -
  have "list_all2 (\<lambda>x y. (has_conj d (rem x) \<longleftrightarrow> has_conj d (rem y)) \<and> (has_excl d (rem x) \<longleftrightarrow> has_excl d (rem y)))
      (skip_tail cur skip n eid xs) (take n xs @ drop n xs)"
    unfolding skip_tail_def using ok d
    by (intro list_all2_appendI)
       (auto simp: list_all2_conv_all_nth has_conj_skip_eq dest!: in_set_dropD nth_mem)
  then show ?thesis by (intro conj_matched_cong) (simp add: list_all2_map1 list_all2_map2)
qed

lemma matched_advance_le:
  assumes ok: "\<forall>x\<in>set xs. ok x" and excl: "\<forall>x\<in>set xs. \<not> has_excl d (rem x)"
    and "conj_matched need (map rem (advance skip n eid xs)) d"
  shows "conj_matched need (map rem xs) d"
proof -
  have "list_all2 (\<lambda>x y. (has_conj d (rem x) \<longrightarrow> has_conj d (rem y)) \<and> (has_excl d (rem y) \<longrightarrow> has_excl d (rem x)))
      (advance skip n eid xs) (take n xs @ drop n xs)"
    unfolding advance_def using ok excl
    by (intro list_all2_appendI)
       (auto simp: list_all2_conv_all_nth has_conj_skip_le dest!: in_set_takeD nth_mem)
  then show ?thesis using assms(3)
    by (intro conj_matched_mono [of d _ "map rem xs"]) (simp_all add: list_all2_map1 list_all2_map2)
qed


text \<open>
  One round: the cursors are sorted by their current entry, \<open>n\<close> of them are needed, \<open>c0\<close>
  and \<open>ce\<close> are the conjunctions of the first and of the \<open>n\<close>-th cursor.
\<close>

lemma cur_sorted_le:
  "sorted (map cur xs) \<Longrightarrow> i \<le> j \<Longrightarrow> j < length xs \<Longrightarrow> cur (xs ! i) \<le> cur (xs ! j)"
  using sorted_nth_mono [of "map cur xs" i j] by (simp add: nth_map order.strict_trans1)

lemma first_not_NULL:
  assumes "sorted (map cur xs)" "1 \<le> n" "n \<le> length xs" "cur (xs ! (n - 1)) \<noteq> NULLENTRY"
  shows "cur (xs ! 0) \<noteq> NULLENTRY"
proof
  assume "cur (xs ! 0) = NULLENTRY"
  moreover have "cur (xs ! 0) \<le> cur (xs ! (n - 1))" using assms by (intro cur_sorted_le) auto
  ultimately show False using assms(4) NULLENTRY_max by (metis antisym)
qed

lemma conj_of_later:
  assumes "\<forall>x\<in>set xs. ok x" "sorted (map cur xs)" "i \<le> j" "j < length xs"
    and "has_conj d (rem (xs ! j))"
  shows "GetConjID (cur (xs ! i)) \<le> d"
proof -
  from assms(5) obtain e where e: "e \<in> rem (xs ! j)" "GetConjID e = d"
    by (auto simp: has_conj_def)
  have "cur (xs ! i) \<le> cur (xs ! j)" using assms(2-4) by (rule cur_sorted_le)
  also have "\<dots> \<le> e" using assms(1,4) e by (intro cur_le) auto
  finally show ?thesis using e(2) GetConjID_mono by blast
qed

lemma few_below:
  assumes "\<forall>x\<in>set xs. ok x" "sorted (map cur xs)" "1 \<le> n" "n \<le> length xs"
    and d: "d < GetConjID (cur (xs ! (n - 1)))"
  shows "length (filter (has_conj d) (map rem xs)) < n"
proof -
  have "\<not> has_conj d (rem x)" if x: "x \<in> set (drop (n - 1) xs)" for x
  proof -
    from x obtain k where k: "k < length (drop (n - 1) xs)" "x = drop (n - 1) xs ! k"
      by (metis in_set_conv_nth)
    then have "x = xs ! (n - 1 + k)" by (simp add: nth_drop)
    moreover have "n - 1 + k < length xs" using k(1) assms(3,4) by auto
    ultimately show ?thesis
      using conj_of_later [OF assms(1,2), of "n - 1" "n - 1 + k" d] d by auto
  qed
  then have "filter (has_conj d) (map rem (drop (n - 1) xs)) = []"
    by (auto simp: filter_empty_conv)
  then have "length (filter (has_conj d) (map rem xs)) = length (filter (has_conj d) (map rem (take (n - 1) xs)))"
    by (subst map_rem_split [of xs "n - 1"]) simp
  also have "\<dots> \<le> n - 1" by (rule order_trans [OF length_filter_le]) simp
  finally show ?thesis using assms(3) by simp
qed

lemma count_below:
  assumes ok: "\<forall>x\<in>set xs. ok x" "sorted (map cur xs)" "n \<le> length xs"
    and need: "need_mono need" "n = need (GetConjID (cur (xs ! 0)))"
    and d: "d < GetConjID (cur (xs ! (n - 1)))"
  shows "length (filter (has_conj d) (map rem xs)) < need d"
proof (cases "\<exists>x\<in>set xs. has_conj d (rem x)")
  case True
  then obtain j where j: "j < length xs" "has_conj d (rem (xs ! j))"
    by (auto simp: in_set_conv_nth)
  have n: "1 \<le> n" using need by (simp add: need_mono_def)
  from j have "GetConjID (cur (xs ! 0)) \<le> d" using conj_of_later [OF ok(1,2), of 0 j d] by simp
  then have "n \<le> need d" using need has_conj_uint [OF j(2)] by (simp add: need_mono_def)
  with few_below [OF ok(1,2) n ok(3) d] show ?thesis by simp
next
  case False
  then have "filter (has_conj d) (map rem xs) = []" by (auto simp: filter_empty_conv)
  moreover have "1 \<le> need d" using need(1) by (simp add: need_mono_def)
  ultimately show ?thesis by simp
qed

lemma count_advance_le:
  "\<forall>x\<in>set xs. ok x \<Longrightarrow> length (filter (has_conj d) (map rem (advance skip n eid xs)))
     \<le> length (filter (has_conj d) (map rem xs))"
  unfolding map_rem_split [of xs n] advance_def
  by (simp del: append_take_drop_id, intro length_filter_list_all2)
     (auto simp: list_all2_conv_all_nth has_conj_skip_le dest!: in_set_takeD nth_mem)

lemma round_skip:
  assumes ok: "\<forall>x\<in>set xs. ok x" "sorted (map cur xs)" "n \<le> length xs"
    and need: "need_mono need" "n = need (GetConjID (cur (xs ! 0)))"
    and eid: "eid = NewEntryID (GetConjID (cur (xs ! (n - 1)))) False"
  shows "conj_matched need (map rem (advance skip n eid xs)) = conj_matched need (map rem xs)"
proof
  fix d
  let ?ce = "GetConjID (cur (xs ! (n - 1)))"
  show "conj_matched need (map rem (advance skip n eid xs)) d = conj_matched need (map rem xs) d"
  proof (cases "d < ?ce")
    case False
    then have "eid \<le> e" if "GetConjID e = d" for e
      using that less_NewEntryID_excl [of ?ce e] by (auto simp: eid not_less)
    then show ?thesis using matched_advance [OF ok(1)] by blast
  next
    case True
    then have "length (filter (has_conj d) (map rem xs)) < need d" by (rule count_below [OF ok need])
    then show ?thesis using count_advance_le [OF ok(1), of d n eid]
      by (simp add: conj_matched_def)
  qed
qed


lemma first_excl_free:
  assumes ok: "\<forall>x\<in>set xs. ok x" "sorted (map cur xs)" "xs \<noteq> []"
    and cur0: "cur (xs ! 0) \<noteq> NULLENTRY" "IsInclude (cur (xs ! 0))"
  shows "\<forall>x\<in>set xs. \<not> has_excl (GetConjID (cur (xs ! 0))) (rem x)"
proof
  fix x assume x: "x \<in> set xs"
  then obtain j where j: "j < length xs" "x = xs ! j" by (metis in_set_conv_nth)
  show "\<not> has_excl (GetConjID (cur (xs ! 0))) (rem x)"
  proof
    assume "has_excl (GetConjID (cur (xs ! 0))) (rem x)"
    then obtain e where e: "e \<in> rem x" "GetConjID e = GetConjID (cur (xs ! 0))" "IsExclude e"
      by (auto simp: has_excl_def)
    have "ok (xs ! 0)" using ok by simp
    then have "e < cur (xs ! 0)"
      using e x ok(1) cur0 by (auto intro: excl_less_incl rem_valid cur_valid)
    moreover have "cur (xs ! 0) \<le> cur x"
      using ok(2) j by (simp add: cur_sorted_le)
    moreover have "cur x \<le> e" using e(1) x ok(1) cur_le by auto
    ultimately show False by simp
  qed
qed

lemma first_n_have:
  assumes ok: "\<forall>x\<in>set xs. ok x" "sorted (map cur xs)" "1 \<le> n" "n \<le> length xs"
    and ce: "cur (xs ! (n - 1)) \<noteq> NULLENTRY" "GetConjID (cur (xs ! (n - 1))) = GetConjID (cur (xs ! 0))"
  shows "n \<le> length (filter (has_conj (GetConjID (cur (xs ! 0)))) (map rem xs))"
proof -
  let ?c = "GetConjID (cur (xs ! 0))"
  have "has_conj ?c (rem (xs ! i))" if i: "i < n" for i
  proof -
    have le: "cur (xs ! 0) \<le> cur (xs ! i)" "cur (xs ! i) \<le> cur (xs ! (n - 1))"
      using ok i by (auto intro!: cur_sorted_le)
    then have "GetConjID (cur (xs ! i)) = ?c" using ce(2) GetConjID_mono by (metis antisym)
    moreover have "cur (xs ! i) \<in> rem (xs ! i)"
      using le(2) ce(1) ok(1,4) i by (intro cur_mem) (auto simp: antisym)
    ultimately show ?thesis by (auto simp: has_conj_def)
  qed
  then have "\<forall>S\<in>set (map rem (take n xs)). has_conj ?c S"
    using ok(4) by (auto simp: in_set_conv_nth)
  then have "filter (has_conj ?c) (map rem (take n xs)) = map rem (take n xs)"
    by (simp add: filter_id_conv)
  then show ?thesis using ok(4) by (subst map_rem_split [of xs n]) simp
qed

lemma round_incl:
  assumes ok: "\<forall>x\<in>set xs. ok x" "sorted (map cur xs)" "n \<le> length xs"
    and need: "need_mono need" "n = need (GetConjID (cur (xs ! 0)))"
    and ce: "cur (xs ! (n - 1)) \<noteq> NULLENTRY" "GetConjID (cur (xs ! (n - 1))) = GetConjID (cur (xs ! 0))"
    and incl: "IsInclude (cur (xs ! 0))"
    and eid: "eid = NewEntryID (GetConjID (cur (xs ! 0))) True + 1"
  shows "conj_matched need (map rem xs) d \<longleftrightarrow>
    d = GetConjID (cur (xs ! 0)) \<or> conj_matched need (map rem (advance skip n eid xs)) d"
proof -
  let ?c = "GetConjID (cur (xs ! 0))"
  have n: "1 \<le> n" using need by (simp add: need_mono_def)
  have "cur (xs ! 0) \<noteq> NULLENTRY" using ok(2) n ok(3) ce(1) by (rule first_not_NULL)
  moreover have "xs \<noteq> []" using n ok(3) by auto
  ultimately have c: "conj_matched need (map rem xs) ?c"
    using first_n_have [OF ok(1,2) n ok(3) ce] first_excl_free [OF ok(1,2) _ _ incl] need(2)
    by (auto simp: conj_matched_def)
  consider "d = ?c" | "?c < d" | "d < ?c" by (metis linorder_neqE)
  then show ?thesis
  proof cases
    case 1
    with c show ?thesis by simp
  next
    case 2
    then have "eid \<le> e" if "valid_eid e" "GetConjID e = d" for e
      using that less_next_entry [of ?c e] by (auto simp: eid not_less)
    then show ?thesis using matched_advance [OF ok(1)] 2 by auto
  next
    case 3
    then have "length (filter (has_conj d) (map rem xs)) < need d"
      by (intro count_below [OF ok need]) (simp only: ce(2))
    then show ?thesis using count_advance_le [OF ok(1), of d n eid] 3
      by (auto simp: conj_matched_def)
  qed
qed

lemma count_skip_tail_le:
  "\<forall>x\<in>set xs. ok x \<Longrightarrow> length (filter (has_conj d) (map rem (skip_tail cur skip n eid xs)))
     \<le> length (filter (has_conj d) (map rem xs))"
  unfolding map_rem_split [of xs n] skip_tail_def
  by (simp del: append_take_drop_id, intro length_filter_list_all2)
     (auto simp: list_all2_conv_all_nth has_conj_skip_le dest!: in_set_dropD nth_mem)

lemma rem_after_both:
  assumes "\<forall>x\<in>set xs. ok x" "n \<le> length xs" "x \<in> set (advance skip n eid (skip_tail cur skip n eid xs))" "e \<in> rem x"
  shows "eid \<le> e"
proof -
  let ?ys = "skip_tail cur skip n eid xs"
  have ys: "\<forall>y\<in>set ?ys. ok y" using assms(1) by (rule ok_skip_tail)
  from assms(3) consider y where "y \<in> set (take n ?ys)" "x = skip eid y" | "x \<in> set (drop n ?ys)"
    by (auto simp: advance_def)
  then show ?thesis
  proof cases
    case 1
    then show ?thesis using ys assms(4) rem_skip by (auto dest: in_set_takeD)
  next
    case 2
    then obtain y where y: "y \<in> set xs" "x = (if cur y < eid then skip eid y else y)"
      using assms(2) by (auto simp: skip_tail_def dest: in_set_dropD)
    then show ?thesis using assms(1,4) rem_skip cur_le [of y e] by (auto split: if_splits)
  qed
qed

lemma round_excl:
  assumes ok: "\<forall>x\<in>set xs. ok x" "sorted (map cur xs)" "n \<le> length xs"
    and need: "need_mono need" "n = need (GetConjID (cur (xs ! 0)))"
    and ce: "cur (xs ! (n - 1)) \<noteq> NULLENTRY" "GetConjID (cur (xs ! (n - 1))) = GetConjID (cur (xs ! 0))"
    and excl: "\<not> IsInclude (cur (xs ! 0))"
    and eid: "eid = NewEntryID (GetConjID (cur (xs ! 0))) True + 1"
  shows "conj_matched need (map rem (advance skip n eid (skip_tail cur skip n eid xs)))
    = conj_matched need (map rem xs)"
proof
  fix d
  let ?c = "GetConjID (cur (xs ! 0))"
  let ?ys = "skip_tail cur skip n eid xs"
  have n: "1 \<le> n" using need by (simp add: need_mono_def)
  have cur0: "cur (xs ! 0) \<noteq> NULLENTRY" using ok(2) n ok(3) ce(1) by (rule first_not_NULL)
  have ys: "\<forall>y\<in>set ?ys. ok y" using ok(1) by (rule ok_skip_tail)
  consider "d = ?c" | "?c < d" | "d < ?c" by (metis linorder_neqE)
  then show "conj_matched need (map rem (advance skip n eid ?ys)) d = conj_matched need (map rem xs) d"
  proof cases
    case 1
    have x0: "xs ! 0 \<in> set xs" using n ok(3) by (intro nth_mem) auto
    then have "has_excl ?c (rem (xs ! 0))"
      using cur_mem [of "xs ! 0"] cur0 ok(1) excl by (auto simp: has_excl_def IsExclude_iff)
    with x0 have "\<not> conj_matched need (map rem xs) d" using 1 by (auto simp: conj_matched_def)
    moreover have "\<not> has_conj ?c (rem x)" if x: "x \<in> set (advance skip n eid ?ys)" for x
    proof
      assume "has_conj ?c (rem x)"
      then obtain e where e: "e \<in> rem x" "GetConjID e = ?c" by (auto simp: has_conj_def)
      have "eid \<le> e" using rem_after_both [OF ok(1,3) x e(1)] .
      moreover have "valid_eid e" using rem_valid [OF _ e(1)] x ok_advance [OF ys] by blast
      ultimately show False using e(2) less_next_entry [of ?c e] by (auto simp: eid not_less)
    qed
    then have "\<not> conj_matched need (map rem (advance skip n eid ?ys)) d"
      using conj_matched_has_conj [of need "map rem (advance skip n eid ?ys)" d] need(1) 1
      by (auto simp: need_mono_def)
    ultimately show ?thesis by simp
  next
    case 2
    then have "eid \<le> e" if "valid_eid e" "GetConjID e = d" for e
      using that less_next_entry [of ?c e] by (auto simp: eid not_less)
    then show ?thesis using matched_advance [OF ys] matched_skip_tail [OF ok(1)] by auto
  next
    case 3
    then have "length (filter (has_conj d) (map rem xs)) < need d"
      by (intro count_below [OF ok need]) (simp only: ce(2))
    then show ?thesis
      using count_advance_le [OF ys, of d n eid] count_skip_tail_le [OF ok(1), of d n eid]
      by (auto simp: conj_matched_def)
  qed
qed

lemma none_at_end:
  assumes ok: "\<forall>x\<in>set xs. ok x" "sorted (map cur xs)" "1 \<le> n" "n \<le> length xs"
    and e: "cur (xs ! (n - 1)) = NULLENTRY" and need: "\<And>c. n \<le> need c"
  shows "\<not> conj_matched need (map rem xs) d"
proof -
  have "rem x = {}" if "x \<in> set (drop (n - 1) xs)" for x
  proof -
    from that obtain k where k: "k < length (drop (n - 1) xs)" "x = drop (n - 1) xs ! k"
      by (metis in_set_conv_nth)
    then have x: "x = xs ! (n - 1 + k)" "n - 1 + k < length xs" using ok(3,4) by auto
    then have "cur (xs ! (n - 1)) \<le> cur x" using ok(2) by (simp add: cur_sorted_le)
    then have "cur x = NULLENTRY" using e NULLENTRY_max by (metis antisym)
    then show ?thesis using cur_NULL_iff ok(1) x by auto
  qed
  then have "filter (has_conj d) (map rem (drop (n - 1) xs)) = []"
    by (auto simp: filter_empty_conv has_conj_def)
  then have "length (filter (has_conj d) (map rem xs)) = length (filter (has_conj d) (map rem (take (n - 1) xs)))"
    by (subst map_rem_split [of xs "n - 1"]) simp
  also have "\<dots> \<le> n - 1" by (rule order_trans [OF length_filter_le]) simp
  finally have "length (filter (has_conj d) (map rem xs)) < need d" using ok(3) need [of d] by linarith
  then show ?thesis by (simp add: conj_matched_def)
qed

lemma none_too_few:
  assumes ok: "\<forall>x\<in>set xs. ok x" "sorted (map cur xs)"
    and need: "need_mono need" "length xs < need (GetConjID (cur (xs ! 0)))"
  shows "\<not> conj_matched need (map rem xs) d"
proof
  assume m: "conj_matched need (map rem xs) d"
  have "1 \<le> need d" using need(1) by (simp add: need_mono_def)
  then obtain j where j: "j < length xs" "has_conj d (rem (xs ! j))"
    using conj_matched_has_conj [OF m] by (auto simp: in_set_conv_nth)
  then have "GetConjID (cur (xs ! 0)) \<le> d" using conj_of_later [OF ok, of 0 j d] by simp
  then have "length xs < need d" using need has_conj_uint [OF j(2)]
    by (simp add: need_mono_def) (meson le_less_trans not_le uint_GetConjID_less)
  moreover have "length (filter (has_conj d) (map rem xs)) \<le> length xs"
    by (metis length_filter_le length_map)
  ultimately show False using m unfolding conj_matched_def by linarith
qed

subsubsection \<open>Progress\<close>

lemma sz_advance_less:
  assumes "\<forall>x\<in>set xs. ok x" "1 \<le> n" "xs \<noteq> []" "cur (xs ! 0) < eid"
  shows "sum_list (map sz (advance skip n eid xs)) < sum_list (map sz xs)"
proof -
  obtain x ys where xs: "xs = x # ys" using assms(3) by (cases xs) auto
  obtain m where n: "n = Suc m" using assms(2) by (cases n) auto
  have le: "sum_list (map sz (map (skip eid) zs)) \<le> sum_list (map sz zs)" if "\<forall>z\<in>set zs. ok z" for zs
    using that by (induction zs) (auto intro: add_mono sz_skip)
  have "sum_list (map sz (map (skip eid) (take m ys))) \<le> sum_list (map sz (take m ys))"
    using assms(1) xs by (intro le) (auto dest: in_set_takeD)
  moreover have "sz (skip eid x) < sz x" using assms(1,4) xs by (intro sz_skip_less) auto
  moreover have "sum_list (map sz ys) = sum_list (map sz (take m ys)) + sum_list (map sz (drop m ys))"
    by (metis append_take_drop_id map_append sum_list_append)
  ultimately show ?thesis by (simp add: advance_def xs n comp_def)
qed

lemma sz_skip_tail:
  assumes "\<forall>x\<in>set xs. ok x"
  shows "sum_list (map sz (skip_tail cur skip n eid xs)) \<le> sum_list (map sz xs)"
proof -
  have le: "sum_list (map sz (map (\<lambda>x. if cur x < eid then skip eid x else x) zs)) \<le> sum_list (map sz zs)"
    if "\<forall>z\<in>set zs. ok z" for zs
    using that by (induction zs) (auto intro: add_mono sz_skip)
  have "sum_list (map sz xs) = sum_list (map sz (take n xs)) + sum_list (map sz (drop n xs))"
    by (metis append_take_drop_id map_append sum_list_append)
  moreover have "\<forall>z\<in>set (drop n xs). ok z" using assms by (auto dest: in_set_dropD)
  ultimately show ?thesis using le [of "drop n xs"] by (simp add: skip_tail_def)
qed

end

end
