(* ===== verification/IndexScanner.thy ===== *)
theory IndexScanner
  imports SkipCursor
begin

text \<open>
  Model of \<^verbatim>\<open>index_scanner.go\<close>: the cursor over one posting list with its galloping and
  binary search, the field cursor over the posting lists of one assigned field, and the
  insertion sort of the field cursors. The lemmas show that \<open>SkipTo\<close> lands where the
  linear scan lands, that a field cursor shows the minimum of its group, and that the
  sort orders without losing a cursor; both cursors are interpreted as \<open>skip_cursor\<close>.
\<close>

subsection \<open>Posting-list cursors\<close>

datatype qvalue = QStr string | QInt int

datatype QKey = NewQKey (qkey_field: string) (qkey_value: qvalue)

record EntriesCursor =
  ec_key :: QKey
  ec_cursor :: nat
  ec_entries :: Entries
  ec_idSize :: nat
  ec_curEID :: EntryID

definition NewEntriesCursor :: "QKey \<Rightarrow> Entries \<Rightarrow> EntriesCursor" where
  "NewEntriesCursor k es =
     \<lparr>ec_key = k, ec_cursor = 0, ec_entries = es, ec_idSize = length es,
      ec_curEID = (if length es > 0 then es ! 0 else NULLENTRY)\<rparr>"

text \<open>The last statements of both skips: read the entry under the cursor.\<close>

definition EC_settle :: "EntriesCursor \<Rightarrow> nat \<Rightarrow> EntriesCursor" where
  "EC_settle ec i =
     ec\<lparr>ec_cursor := i,
        ec_curEID := (if i \<ge> ec_idSize ec then NULLENTRY else ec_entries ec ! i)\<rparr>"

function linear_scan :: "Entries \<Rightarrow> nat \<Rightarrow> EntryID \<Rightarrow> nat \<Rightarrow> nat" where
  "linear_scan es n eid i = (if i < n \<and> es ! i < eid then linear_scan es n eid (i + 1) else i)"
  by pat_completeness auto
termination by (relation "measure (\<lambda>(es, n, eid, i). n - i)") auto

definition linearSkipTo :: "EntryID \<Rightarrow> EntriesCursor \<Rightarrow> EntriesCursor" where
  "linearSkipTo eid ec =
     EC_settle ec (linear_scan (ec_entries ec) (ec_idSize ec) eid (ec_cursor ec))"

text \<open>
  \<open>SkipTo\<close>, first loop: \<open>bound\<close> starts at 1 and is doubled, so it is \<open>2 ^ b\<close>; the result
  is the cursor and the right end of the range to search.
\<close>

function skip_gallop :: "Entries \<Rightarrow> nat \<Rightarrow> EntryID \<Rightarrow> nat \<Rightarrow> nat \<Rightarrow> nat \<Rightarrow> nat \<times> nat" where
  "skip_gallop es n eid oc i b =
     (let right = oc + 2 ^ b
      in if right < n \<and> es ! right < eid then skip_gallop es n eid oc right (b + 1)
         else (i, right))"
  by pat_completeness auto
termination
proof (relation "measure (\<lambda>(es, n, eid, oc, i, b). n - (oc + 2 ^ b))", goal_cases)
  case (2 es n eid oc i b)
  have "(2::nat) ^ b < 2 ^ (b + 1)" by simp
  with 2 show ?case by (simp only: in_measure prod.case) linarith
qed simp

text \<open>\<open>SkipTo\<close>, second loop: binary search in \<open>[i, right)\<close>.\<close>

function skip_bsearch :: "Entries \<Rightarrow> EntryID \<Rightarrow> nat \<Rightarrow> nat \<Rightarrow> nat" where
  "skip_bsearch es eid i right =
     (if i < right \<and> es ! i < eid
      then let mid = (i + right) div 2
           in if es ! mid \<ge> eid then skip_bsearch es eid i mid
              else skip_bsearch es eid (mid + 1) right
      else i)"
  by pat_completeness auto
termination by (relation "measure (\<lambda>(es, eid, i, right). right - i)") auto

declare linear_scan.simps [simp del] skip_gallop.simps [simp del] skip_bsearch.simps [simp del]

text \<open>\<open>SkipTo\<close> also returns the new \<open>curEID\<close>, which the model reads off the new cursor.\<close>

definition EC_SkipTo :: "EntryID \<Rightarrow> EntriesCursor \<Rightarrow> EntriesCursor" where
  "EC_SkipTo eid ec =
     (if ec_curEID ec \<ge> eid then ec
      else let oc = ec_cursor ec;
               (i, right) = skip_gallop (ec_entries ec) (ec_idSize ec) eid oc oc 0;
               right' = (if right > ec_idSize ec then ec_idSize ec else right)
           in EC_settle ec (skip_bsearch (ec_entries ec) eid i right'))"

subsection \<open>Field cursors\<close>

text \<open>
  \<open>current\<close> is a pointer in the source: first to a copy of the smallest cursor, after a
  \<open>SkipTo\<close> to the member of the group that holds the minimum. No operation changes a
  member of the group without setting \<open>current\<close> afterwards, so the model keeps the cursor
  it points to. For an empty group the pointer stays nil and the first use of the field
  cursor panics; the model reports that panic when the field cursor is made.
\<close>

record FieldCursor =
  fc_current :: EntriesCursor
  fc_cursorGroup :: "EntriesCursor list"

fun pick_current :: "EntriesCursor option \<Rightarrow> EntriesCursor list \<Rightarrow> EntriesCursor option" where
  "pick_current c [] = c"
| "pick_current None (x # xs) = pick_current (Some x) xs"
| "pick_current (Some c) (x # xs) =
     pick_current (Some (if ec_curEID x < ec_curEID c then x else c)) xs"

definition NewFieldCursor :: "EntriesCursor list \<Rightarrow> FieldCursor res" where
  "NewFieldCursor cs =
     (case pick_current None cs of
        None \<Rightarrow> Inl (Panic ''nil pointer dereference: empty field cursor'')
      | Some c \<Rightarrow> Inr \<lparr>fc_current = c, fc_cursorGroup = cs\<rparr>)"

definition FC_GetCurEntryID :: "FieldCursor \<Rightarrow> EntryID" where
  "FC_GetCurEntryID fc = ec_curEID (fc_current fc)"

definition FC_ReachEnd :: "FieldCursor \<Rightarrow> bool" where
  "FC_ReachEnd fc \<longleftrightarrow> IsNULLEntry (ec_curEID (fc_current fc))"

fun skip_group ::
  "EntryID \<Rightarrow> EntryID \<Rightarrow> EntriesCursor \<Rightarrow> EntriesCursor list \<Rightarrow> EntryID \<times> EntriesCursor \<times> EntriesCursor list"
where
  "skip_group eid newMin cur [] = (newMin, cur, [])"
| "skip_group eid newMin cur (x # xs) =
     (let x' = EC_SkipTo eid x;
          (newMin', cur') = (if ec_curEID x' \<le> newMin then (ec_curEID x', x') else (newMin, cur));
          (m, c, xs') = skip_group eid newMin' cur' xs
      in (m, c, x' # xs'))"

definition FC_SkipTo :: "EntryID \<Rightarrow> FieldCursor \<Rightarrow> EntryID \<times> FieldCursor" where
  "FC_SkipTo eid fc =
     (let (m, c, g) = skip_group eid NULLENTRY (fc_current fc) (fc_cursorGroup fc)
      in (m, \<lparr>fc_current = c, fc_cursorGroup = g\<rparr>))"

subsection \<open>Sorting the field cursors\<close>

definition swap :: "'a list \<Rightarrow> nat \<Rightarrow> nat \<Rightarrow> 'a list" where
  "swap s i j = s[i := s ! j, j := s ! i]"

fun sift_down :: "FieldCursor list \<Rightarrow> nat \<Rightarrow> FieldCursor list" where
  "sift_down s 0 = s"
| "sift_down s (Suc j) =
     (if FC_GetCurEntryID (s ! Suc j) < FC_GetCurEntryID (s ! j)
      then sift_down (swap s (Suc j) j) j else s)"

definition FieldCursors_Sort :: "FieldCursor list \<Rightarrow> FieldCursor list" where
  "FieldCursors_Sort s = (if length s \<le> 1 then s else foldl sift_down s [1..<length s])"


subsection \<open>SkipTo lands on the first entry that is not below the bound\<close>

definition ec_ok :: "EntriesCursor \<Rightarrow> bool" where
  "ec_ok ec \<longleftrightarrow>
     sorted (ec_entries ec) \<and> (\<forall>e\<in>set (ec_entries ec). valid_eid e) \<and>
     ec_idSize ec = length (ec_entries ec) \<and> ec_cursor ec \<le> ec_idSize ec \<and>
     ec_curEID ec = (if ec_cursor ec \<ge> ec_idSize ec then NULLENTRY else ec_entries ec ! ec_cursor ec)"

definition ec_rem :: "EntriesCursor \<Rightarrow> EntryID set" where
  "ec_rem ec = set (drop (ec_cursor ec) (ec_entries ec))"

definition ec_sz :: "EntriesCursor \<Rightarrow> nat" where
  "ec_sz ec = length (ec_entries ec) - ec_cursor ec"

definition first_ge :: "Entries \<Rightarrow> EntryID \<Rightarrow> nat \<Rightarrow> nat \<Rightarrow> bool" where
  "first_ge es eid lo i \<longleftrightarrow>
     lo \<le> i \<and> i \<le> length es \<and> (\<forall>k. lo \<le> k \<longrightarrow> k < i \<longrightarrow> es ! k < eid) \<and> (i < length es \<longrightarrow> eid \<le> es ! i)"

lemma first_ge_unique: "first_ge es eid lo i \<Longrightarrow> first_ge es eid lo j \<Longrightarrow> i = j"
proof (rule ccontr)
  assume a: "first_ge es eid lo i" "first_ge es eid lo j" "i \<noteq> j"
  then consider "i < j" | "j < i" by linarith
  then show False using a by cases (auto simp: first_ge_def)
qed

lemma linear_scan_first_ge: "i \<le> length es \<Longrightarrow> first_ge es eid i (linear_scan es (length es) eid i)"
proof (induction es "length es" eid i rule: linear_scan.induct)
  case (1 es eid i)
  show ?case
  proof (cases "i < length es \<and> es ! i < eid")
    case True
    with 1 have "first_ge es eid (i + 1) (linear_scan es (length es) eid (i + 1))" by simp
    moreover have "k = i \<or> i + 1 \<le> k" if "i \<le> k" for k using that by linarith
    ultimately have "first_ge es eid i (linear_scan es (length es) eid (i + 1))"
      using True by (fastforce simp: first_ge_def)
    then show ?thesis using True by (subst linear_scan.simps) simp
  next
    case False
    then show ?thesis using 1(2) by (subst linear_scan.simps) (auto simp: first_ge_def)
  qed
qed

lemma skip_gallop_range:
  assumes "skip_gallop es n eid oc i b = (i', right)" "i < oc + 2 ^ b" "oc \<le> i" "i < n" "es ! i < eid"
  shows "oc \<le> i'" "i' < right" "i' < n" "es ! i' < eid" "right < n \<Longrightarrow> eid \<le> es ! right"
proof -
  have "oc \<le> i' \<and> i' < right \<and> i' < n \<and> es ! i' < eid \<and> (right < n \<longrightarrow> eid \<le> es ! right)"
    using assms
  proof (induction es n eid oc i b rule: skip_gallop.induct)
    case (1 es n eid oc i b)
    show ?case
    proof (cases "oc + 2 ^ b < n \<and> es ! (oc + 2 ^ b) < eid")
      case True
      then have "skip_gallop es n eid oc (oc + 2 ^ b) (b + 1) = (i', right)"
        using "1.prems"(1) by (subst (asm) skip_gallop.simps) (simp add: Let_def)
      then show ?thesis using "1.IH" [OF refl True] True by simp
    next
      case False
      then have "skip_gallop es n eid oc i b = (i, oc + 2 ^ b)"
        by (subst skip_gallop.simps) (auto simp: Let_def)
      then show ?thesis using "1.prems" False by (auto simp: not_less)
    qed
  qed
  then show "oc \<le> i'" "i' < right" "i' < n" "es ! i' < eid" "right < n \<Longrightarrow> eid \<le> es ! right"
    by blast+
qed

lemma sorted_below:
  "sorted es \<Longrightarrow> es ! i < eid \<Longrightarrow> i < length es \<Longrightarrow> k \<le> i \<Longrightarrow> es ! k < eid" for eid :: "'a::linorder"
  by (meson le_less_trans sorted_nth_mono)

lemma skip_bsearch_first_ge:
  assumes "sorted es" "i \<le> right" "right \<le> length es" "right < length es \<Longrightarrow> eid \<le> es ! right"
    and "lo \<le> i" "\<And>k. lo \<le> k \<Longrightarrow> k < i \<Longrightarrow> es ! k < eid"
  shows "first_ge es eid lo (skip_bsearch es eid i right)"
  using assms
proof (induction es eid i right rule: skip_bsearch.induct)
  case (1 es eid i right)
  let ?mid = "(i + right) div 2"
  show ?case
  proof (cases "i < right \<and> es ! i < eid")
    case True
    then have m: "i \<le> ?mid" "?mid < right" "?mid < length es" using "1.prems"(3) by auto
    show ?thesis
    proof (cases "es ! ?mid \<ge> eid")
      case ge: True
      have "first_ge es eid lo (skip_bsearch es eid i ?mid)"
        using "1.IH"(1) [OF True refl ge] "1.prems" m ge by simp
      then show ?thesis using True ge by (subst skip_bsearch.simps) (simp add: Let_def)
    next
      case lt: False
      have "es ! k < eid" if "k < ?mid + 1" for k
        using that lt m sorted_below [OF "1.prems"(1), of ?mid eid k] by simp
      then have "first_ge es eid lo (skip_bsearch es eid (?mid + 1) right)"
        using "1.IH"(2) [OF True refl lt] "1.prems" m by simp
      then show ?thesis using True lt by (subst skip_bsearch.simps) (simp add: Let_def)
    qed
  next
    case False
    then have "i < length es \<longrightarrow> eid \<le> es ! i"
      using "1.prems"(2-4) by (cases "i = right") (auto simp: not_less)
    then show ?thesis
      using False "1.prems" by (subst skip_bsearch.simps) (auto simp: first_ge_def)
  qed
qed

lemma EC_settle_same:
  "ec_ok ec \<Longrightarrow> EC_settle ec (ec_cursor ec) = ec"
  by (simp add: EC_settle_def ec_ok_def)

lemma EC_SkipTo_linear:
  assumes ok: "ec_ok ec"
  shows "EC_SkipTo eid ec = linearSkipTo eid ec"
proof (cases "ec_curEID ec \<ge> eid")
  case True
  have "linear_scan (ec_entries ec) (ec_idSize ec) eid (ec_cursor ec) = ec_cursor ec"
    using ok True by (subst linear_scan.simps) (auto simp: ec_ok_def)
  then show ?thesis using True ok by (simp add: EC_SkipTo_def linearSkipTo_def EC_settle_same)
next
  case False
  let ?es = "ec_entries ec" and ?i = "ec_cursor ec"
  have i: "?i < length ?es" "?es ! ?i < eid"
    using ok False by (auto simp: ec_ok_def not_le split: if_splits)
  obtain j right where g: "skip_gallop ?es (length ?es) eid ?i ?i 0 = (j, right)" by fastforce
  note r = skip_gallop_range [OF g _ _ i]
  let ?r = "if right > length ?es then length ?es else right"
  have "first_ge ?es eid ?i (skip_bsearch ?es eid j ?r)"
  proof (rule skip_bsearch_first_ge)
    show "sorted ?es" using ok by (simp add: ec_ok_def)
    show "j \<le> ?r" "?i \<le> j" using r by auto
    show "?r < length ?es \<Longrightarrow> eid \<le> ?es ! ?r" using r by (auto split: if_splits)
    show "?es ! k < eid" if "k < j" for k
      using sorted_below [of ?es j eid k] that r ok by (auto simp: ec_ok_def)
  qed simp
  moreover have "first_ge ?es eid ?i (linear_scan ?es (length ?es) eid ?i)"
    using i by (intro linear_scan_first_ge) simp
  ultimately have "skip_bsearch ?es eid j ?r = linear_scan ?es (length ?es) eid ?i"
    by (rule first_ge_unique)
  moreover have "ec_idSize ec = length ?es" using ok by (simp add: ec_ok_def)
  ultimately show ?thesis using False g
    by (simp add: EC_SkipTo_def linearSkipTo_def Let_def split del: if_split cong: if_cong)
qed

lemma NewEntriesCursor_ok:
  "sorted es \<Longrightarrow> \<forall>e\<in>set es. valid_eid e \<Longrightarrow> ec_ok (NewEntriesCursor k es)"
  by (auto simp: ec_ok_def NewEntriesCursor_def)

lemma NewEntriesCursor_rem [simp]: "ec_rem (NewEntriesCursor k es) = set es"
  by (simp add: ec_rem_def NewEntriesCursor_def)

lemma EC_SkipTo_cursor:
  assumes "ec_ok ec"
  obtains i where "first_ge (ec_entries ec) eid (ec_cursor ec) i" "EC_SkipTo eid ec = EC_settle ec i"
proof
  show "first_ge (ec_entries ec) eid (ec_cursor ec)
      (linear_scan (ec_entries ec) (length (ec_entries ec)) eid (ec_cursor ec))"
    using assms by (intro linear_scan_first_ge) (simp add: ec_ok_def)
  show "EC_SkipTo eid ec = EC_settle ec (linear_scan (ec_entries ec) (length (ec_entries ec)) eid (ec_cursor ec))"
    using assms by (simp add: EC_SkipTo_linear linearSkipTo_def ec_ok_def)
qed

lemma EC_settle_sel [simp]:
  "ec_entries (EC_settle ec i) = ec_entries ec" "ec_cursor (EC_settle ec i) = i"
  "ec_idSize (EC_settle ec i) = ec_idSize ec"
  by (simp_all add: EC_settle_def)

lemma in_set_drop_iff: "e \<in> set (drop i es) \<longleftrightarrow> (\<exists>k. i \<le> k \<and> k < length es \<and> e = es ! k)"
proof
  assume "e \<in> set (drop i es)"
  then obtain k where "k < length (drop i es)" "e = drop i es ! k" by (metis in_set_conv_nth)
  then show "\<exists>k. i \<le> k \<and> k < length es \<and> e = es ! k" by (intro exI [of _ "i + k"]) auto
next
  assume "\<exists>k. i \<le> k \<and> k < length es \<and> e = es ! k"
  then obtain k where k: "i \<le> k" "k < length es" "e = es ! k" by blast
  then have "drop i es ! (k - i) = e" "k - i < length (drop i es)" by auto
  then show "e \<in> set (drop i es)" by (metis nth_mem)
qed

lemma drop_first_ge:
  assumes "sorted es" "first_ge es eid lo i"
  shows "set (drop i es) = {e \<in> set (drop lo es). eid \<le> e}"
proof -
  have lo: "lo \<le> i" using assms(2) by (simp add: first_ge_def)
  have ge: "eid \<le> es ! k" if "i \<le> k" "k < length es" for k
  proof -
    have "eid \<le> es ! i" using that assms(2) by (simp add: first_ge_def)
    also have "\<dots> \<le> es ! k" using assms(1) that by (rule sorted_nth_mono)
    finally show ?thesis .
  qed
  have "i \<le> k" if "lo \<le> k" "eid \<le> es ! k" for k
    using that assms(2) by (meson first_ge_def leD le_less_linear)
  with lo ge show ?thesis
    by (intro set_eqI, unfold in_set_drop_iff mem_Collect_eq) (blast intro: order_trans)
qed

lemma EC_SkipTo_ok:
  assumes ok: "ec_ok ec"
  shows "ec_ok (EC_SkipTo eid ec)"
  by (rule EC_SkipTo_cursor [OF ok, of eid])
     (use ok in \<open>auto simp: ec_ok_def EC_settle_def first_ge_def\<close>)

lemma EC_SkipTo_rem:
  assumes ok: "ec_ok ec"
  shows "ec_rem (EC_SkipTo eid ec) = {e \<in> ec_rem ec. eid \<le> e}"
  by (rule EC_SkipTo_cursor [OF ok, of eid])
     (use ok in \<open>simp add: ec_rem_def drop_first_ge ec_ok_def\<close>)

lemma EC_SkipTo_sz: "ec_ok ec \<Longrightarrow> ec_sz (EC_SkipTo eid ec) \<le> ec_sz ec"
  by (erule EC_SkipTo_cursor [of ec eid]) (auto simp: ec_sz_def first_ge_def)

lemma EC_SkipTo_sz_less:
  assumes "ec_ok ec" "ec_curEID ec < eid"
  shows "ec_sz (EC_SkipTo eid ec) < ec_sz ec"
proof -
  obtain i where i: "first_ge (ec_entries ec) eid (ec_cursor ec) i" "EC_SkipTo eid ec = EC_settle ec i"
    using assms(1) by (rule EC_SkipTo_cursor)
  have c: "ec_cursor ec < length (ec_entries ec)" "ec_entries ec ! ec_cursor ec < eid"
    using assms by (auto simp: ec_ok_def split: if_splits)
  then have "i \<noteq> ec_cursor ec" using i(1) by (auto simp: first_ge_def)
  then show ?thesis using i c(1) by (auto simp: ec_sz_def first_ge_def)
qed

interpretation ec: skip_cursor ec_curEID EC_SkipTo ec_rem ec_ok ec_sz
proof
  fix x e eid
  assume ok: "ec_ok x"
  show "ec_ok (EC_SkipTo eid x)" using ok by (rule EC_SkipTo_ok)
  show "ec_rem (EC_SkipTo eid x) = {e \<in> ec_rem x. eid \<le> e}" using ok by (rule EC_SkipTo_rem)
  show "ec_sz (EC_SkipTo eid x) \<le> ec_sz x" using ok by (rule EC_SkipTo_sz)
  show "ec_curEID x \<in> ec_rem x" if "ec_curEID x \<noteq> NULLENTRY"
    using ok that by (auto simp: ec_ok_def ec_rem_def in_set_drop_iff split: if_splits)
  show "ec_curEID x < eid \<Longrightarrow> ec_sz (EC_SkipTo eid x) < ec_sz x" using ok by (rule EC_SkipTo_sz_less)
  assume e: "e \<in> ec_rem x"
  show "ec_curEID x \<le> e"
    using ok e by (auto simp: ec_ok_def ec_rem_def in_set_drop_iff sorted_nth_mono)
  show "valid_eid e" using ok e by (auto simp: ec_ok_def ec_rem_def dest: in_set_dropD)
qed

subsection \<open>A field cursor shows the minimum of its group\<close>

definition fc_ok :: "FieldCursor \<Rightarrow> bool" where
  "fc_ok fc \<longleftrightarrow>
     (\<forall>x\<in>set (fc_cursorGroup fc). ec_ok x) \<and> fc_current fc \<in> set (fc_cursorGroup fc) \<and>
     (\<forall>x\<in>set (fc_cursorGroup fc). FC_GetCurEntryID fc \<le> ec_curEID x)"

definition fc_rem :: "FieldCursor \<Rightarrow> EntryID set" where
  "fc_rem fc = (\<Union>x\<in>set (fc_cursorGroup fc). ec_rem x)"

definition fc_sz :: "FieldCursor \<Rightarrow> nat" where
  "fc_sz fc = sum_list (map ec_sz (fc_cursorGroup fc))"

definition FC_skip :: "EntryID \<Rightarrow> FieldCursor \<Rightarrow> FieldCursor" where
  "FC_skip eid fc = snd (FC_SkipTo eid fc)"

lemma skip_group_spec:
  assumes "skip_group eid m c xs = (m', c', xs')"
  shows "xs' = map (EC_SkipTo eid) xs" "m' \<le> m" "\<forall>x\<in>set xs'. m' \<le> ec_curEID x"
    "(m' = m \<and> c' = c) \<or> (c' \<in> set xs' \<and> m' = ec_curEID c')"
proof -
  have "xs' = map (EC_SkipTo eid) xs \<and> m' \<le> m \<and> (\<forall>x\<in>set xs'. m' \<le> ec_curEID x) \<and>
      ((m' = m \<and> c' = c) \<or> (c' \<in> set xs' \<and> m' = ec_curEID c'))"
    using assms
  proof (induction xs arbitrary: m c m' c' xs')
    case Nil
    then show ?case by simp
  next
    case (Cons x xs)
    let ?x = "EC_SkipTo eid x"
    let ?m = "if ec_curEID ?x \<le> m then ec_curEID ?x else m"
    let ?c = "if ec_curEID ?x \<le> m then ?x else c"
    obtain m1 c1 g where g: "skip_group eid ?m ?c xs = (m1, c1, g)" by (metis prod_cases3)
    then have "m' = m1" "c' = c1" "xs' = ?x # g" using Cons.prems by (auto split: if_splits)
    with Cons.IH [OF g] show ?case by (auto split: if_splits)
  qed
  then show "xs' = map (EC_SkipTo eid) xs" "m' \<le> m" "\<forall>x\<in>set xs'. m' \<le> ec_curEID x"
    "(m' = m \<and> c' = c) \<or> (c' \<in> set xs' \<and> m' = ec_curEID c')" by blast+
qed

lemma FC_SkipTo_spec:
  assumes "fc_cursorGroup fc \<noteq> []"
  shows "fc_cursorGroup (FC_skip eid fc) = map (EC_SkipTo eid) (fc_cursorGroup fc)"
    and "fc_current (FC_skip eid fc) \<in> set (fc_cursorGroup (FC_skip eid fc))"
    and "\<forall>x\<in>set (fc_cursorGroup (FC_skip eid fc)). FC_GetCurEntryID (FC_skip eid fc) \<le> ec_curEID x"
    and "fst (FC_SkipTo eid fc) = FC_GetCurEntryID (FC_skip eid fc)"
proof -
  obtain x xs where xs: "fc_cursorGroup fc = x # xs" using assms by (cases "fc_cursorGroup fc") auto
  let ?x = "EC_SkipTo eid x"
  obtain m c g where g: "skip_group eid (ec_curEID ?x) ?x xs = (m, c, g)" by (metis prod_cases3)
  have sk: "FC_SkipTo eid fc = (m, \<lparr>fc_current = c, fc_cursorGroup = ?x # g\<rparr>)"
    by (simp add: FC_SkipTo_def xs g)
  note sp = skip_group_spec [OF g]
  have m: "m = ec_curEID c" "c \<in> set (?x # g)" using sp(4) by auto
  show "fc_cursorGroup (FC_skip eid fc) = map (EC_SkipTo eid) (fc_cursorGroup fc)"
    using sp(1) by (simp add: FC_skip_def sk xs)
  show "fc_current (FC_skip eid fc) \<in> set (fc_cursorGroup (FC_skip eid fc))"
    using m by (simp add: FC_skip_def sk)
  show "\<forall>x\<in>set (fc_cursorGroup (FC_skip eid fc)). FC_GetCurEntryID (FC_skip eid fc) \<le> ec_curEID x"
    using m sp(2,3) by (simp add: FC_skip_def sk FC_GetCurEntryID_def)
  show "fst (FC_SkipTo eid fc) = FC_GetCurEntryID (FC_skip eid fc)"
    using m by (simp add: FC_skip_def sk FC_GetCurEntryID_def)
qed

lemma sum_list_map_less:
  fixes f g :: "'a \<Rightarrow> nat"
  assumes "\<forall>x\<in>set xs. f x \<le> g x" "y \<in> set xs" "f y < g y"
  shows "sum_list (map f xs) < sum_list (map g xs)"
  using assms
proof (induction xs)
  case (Cons x xs)
  have "sum_list (map f xs) \<le> sum_list (map g xs)" using Cons.prems by (intro sum_list_mono) auto
  then show ?case using Cons by (cases "y = x") (auto intro: add_less_le_mono add_le_less_mono)
qed simp

interpretation fc: skip_cursor FC_GetCurEntryID FC_skip fc_rem fc_ok fc_sz
proof
  fix x e eid
  assume ok: "fc_ok x"
  then have ne: "fc_cursorGroup x \<noteq> []" by (auto simp: fc_ok_def)
  note sp = FC_SkipTo_spec [OF ne, of eid]
  show "fc_ok (FC_skip eid x)" using ok sp(2,3) by (auto simp: fc_ok_def sp(1) ec.ok_skip)
  show "fc_rem (FC_skip eid x) = {e \<in> fc_rem x. eid \<le> e}"
    using ok by (auto simp: fc_rem_def sp(1) fc_ok_def ec.rem_skip)
  show "fc_sz (FC_skip eid x) \<le> fc_sz x"
    using ok by (auto simp: fc_sz_def sp(1) fc_ok_def comp_def intro!: sum_list_mono ec.sz_skip)
  show "FC_GetCurEntryID x \<in> fc_rem x" if "FC_GetCurEntryID x \<noteq> NULLENTRY"
    using ok that ec.cur_mem by (auto simp: fc_ok_def fc_rem_def FC_GetCurEntryID_def)
  show "fc_sz (FC_skip eid x) < fc_sz x" if "FC_GetCurEntryID x < eid"
    unfolding fc_sz_def sp(1) map_map
    using ok that
    by (intro sum_list_map_less [of _ _ _ "fc_current x"])
       (auto simp: fc_ok_def FC_GetCurEntryID_def intro: ec.sz_skip ec.sz_skip_less)
  assume e: "e \<in> fc_rem x"
  show "FC_GetCurEntryID x \<le> e" using ok e ec.cur_le by (fastforce simp: fc_ok_def fc_rem_def)
  show "valid_eid e" using ok e ec.rem_valid by (auto simp: fc_ok_def fc_rem_def)
qed

lemma pick_current_spec:
  assumes "pick_current (Some c) xs = r"
  shows "\<exists>d. r = Some d \<and> d \<in> set (c # xs) \<and> (\<forall>x\<in>set (c # xs). ec_curEID d \<le> ec_curEID x)"
  using assms
proof (induction xs arbitrary: c)
  case (Cons x xs)
  let ?c = "if ec_curEID x < ec_curEID c then x else c"
  from Cons.prems obtain d where "r = Some d" "d \<in> set (?c # xs)" "\<forall>y\<in>set (?c # xs). ec_curEID d \<le> ec_curEID y"
    using Cons.IH [of ?c] by auto
  moreover have "ec_curEID ?c \<le> ec_curEID x" "ec_curEID ?c \<le> ec_curEID c" by auto
  ultimately show ?case by (auto split: if_splits)
qed auto

lemma NewFieldCursor_ok:
  assumes "cs \<noteq> []" "\<forall>x\<in>set cs. ec_ok x"
  shows "\<exists>fc. NewFieldCursor cs = Inr fc \<and> fc_ok fc \<and> fc_rem fc = (\<Union>x\<in>set cs. ec_rem x)
    \<and> fc_cursorGroup fc = cs"
proof -
  obtain x xs where cs: "cs = x # xs" using assms(1) by (cases cs) auto
  obtain d where "pick_current None cs = Some d" "d \<in> set cs" "\<forall>x\<in>set cs. ec_curEID d \<le> ec_curEID x"
    using pick_current_spec [OF refl, of x xs] cs by auto
  then show ?thesis using assms(2)
    by (auto simp: NewFieldCursor_def fc_ok_def fc_rem_def FC_GetCurEntryID_def)
qed

subsection \<open>The insertion sort sorts\<close>

lemma length_swap [simp]: "length (swap s i j) = length s"
  by (simp add: swap_def)

lemma mset_swap_down: "i < length s \<Longrightarrow> j < length s \<Longrightarrow> mset (swap s i j) = mset s"
  unfolding swap_def by (rule mset_swap)

lemma sift_down_spec:
  assumes "j < length s" "sorted (map FC_GetCurEntryID (take j s))"
  shows "mset (sift_down s j) = mset s" "drop (Suc j) (sift_down s j) = drop (Suc j) s"
    "sorted (map FC_GetCurEntryID (take (Suc j) (sift_down s j)))"
proof -
  let ?f = FC_GetCurEntryID
  have "mset (sift_down s j) = mset s \<and> drop (Suc j) (sift_down s j) = drop (Suc j) s \<and>
      sorted (map ?f (take (Suc j) (sift_down s j)))"
    using assms
  proof (induction j arbitrary: s)
    case 0
    then show ?case by (simp add: take_Suc_conv_app_nth)
  next
    case (Suc j)
    have srt: "sorted (map ?f (take j s @ [s ! j]))"
      using Suc.prems by (simp add: take_Suc_conv_app_nth)
    show ?case
    proof (cases "?f (s ! Suc j) < ?f (s ! j)")
      case True
      let ?t = "swap s (Suc j) j"
      let ?r = "sift_down ?t j"
      have t: "take j ?t = take j s" "?t ! j = s ! Suc j" "?t ! Suc j = s ! j"
        "drop (Suc (Suc j)) ?t = drop (Suc (Suc j)) s" "length ?t = length s"
        using Suc.prems(1) by (simp_all add: swap_def)
      have IH: "mset ?r = mset ?t" "drop (Suc j) ?r = drop (Suc j) ?t" "sorted (map ?f (take (Suc j) ?r))"
        using Suc.IH [of ?t] Suc.prems(1) srt t by (simp_all add: sorted_append)
      have "mset (take (Suc j) ?r) = mset (take (Suc j) ?t)"
        using IH(1,2) by (metis add_right_cancel append_take_drop_id mset_append)
      then have "set (take (Suc j) ?r) = set (take (Suc j) ?t)" by (rule mset_eq_setD)
      then have st: "set (take (Suc j) ?r) = insert (s ! Suc j) (set (take j s))"
        using t Suc.prems(1) by (simp add: take_Suc_conv_app_nth)
      have len: "length ?r = length s" using IH(1) t(5) by (metis size_mset)
      have "?r ! Suc j = s ! j"
        using IH(2) t(3) len Suc.prems(1) by (metis Cons_nth_drop_Suc t(5) list.inject)
      then have "take (Suc (Suc j)) ?r = take (Suc j) ?r @ [s ! j]"
        using len Suc.prems(1) by (simp add: take_Suc_conv_app_nth)
      then have "sorted (map ?f (take (Suc (Suc j)) ?r))"
        using IH(3) srt True st by (auto simp: sorted_append)
      moreover have "drop (Suc (Suc j)) ?r = drop (Suc (Suc j)) s"
        using IH(2) t(4) by (metis drop_drop add.commute plus_1_eq_Suc)
      moreover have "mset ?r = mset s" using IH(1) Suc.prems(1) by (simp add: mset_swap_down)
      ultimately show ?thesis using True by simp
    next
      case False
      have "take (Suc (Suc j)) s = take j s @ [s ! j] @ [s ! Suc j]"
        using Suc.prems(1) by (simp add: take_Suc_conv_app_nth)
      then have "sorted (map ?f (take (Suc (Suc j)) s))" using srt False by (auto simp: sorted_append)
      then show ?thesis using False by simp
    qed
  qed
  then show "mset (sift_down s j) = mset s" "drop (Suc j) (sift_down s j) = drop (Suc j) s"
    "sorted (map ?f (take (Suc j) (sift_down s j)))" by blast+
qed

lemma foldl_sift_down:
  assumes "Suc m \<le> length s"
  shows "mset (foldl sift_down s [1..<Suc m]) = mset s \<and>
    sorted (map FC_GetCurEntryID (take (Suc m) (foldl sift_down s [1..<Suc m])))"
  using assms
proof (induction m)
  case 0
  then show ?case by (cases s) simp_all
next
  case (Suc m)
  let ?t = "foldl sift_down s [1..<Suc m]"
  have IH: "mset ?t = mset s" "sorted (map FC_GetCurEntryID (take (Suc m) ?t))" using Suc by simp_all
  then have "length ?t = length s" by (metis size_mset)
  then have "mset (sift_down ?t (Suc m)) = mset ?t"
    "sorted (map FC_GetCurEntryID (take (Suc (Suc m)) (sift_down ?t (Suc m))))"
    using sift_down_spec [of "Suc m" ?t] IH(2) Suc.prems by auto
  then show ?case using IH(1) by simp
qed

lemma FieldCursors_Sort_mset: "mset (FieldCursors_Sort s) = mset s"
  and FieldCursors_Sort_sorted: "sorted (map FC_GetCurEntryID (FieldCursors_Sort s))"
proof -
  have "mset (FieldCursors_Sort s) = mset s \<and> sorted (map FC_GetCurEntryID (FieldCursors_Sort s))"
  proof (cases "length s \<le> 1")
    case True
    then show ?thesis by (cases s) (auto simp: FieldCursors_Sort_def)
  next
    case False
    then obtain m where m: "length s = Suc m" by (cases "length s") auto
    have "length (foldl sift_down s [1..<Suc m]) = Suc m"
      using foldl_sift_down [of m s] m by (metis order_refl size_mset)
    then show ?thesis using foldl_sift_down [of m s] m False by (simp add: FieldCursors_Sort_def)
  qed
  then show "mset (FieldCursors_Sort s) = mset s" "sorted (map FC_GetCurEntryID (FieldCursors_Sort s))"
    by blast+
qed

lemma set_FieldCursors_Sort [simp]: "set (FieldCursors_Sort s) = set s"
  using FieldCursors_Sort_mset by (rule mset_eq_setD)

lemma length_FieldCursors_Sort [simp]: "length (FieldCursors_Sort s) = length s"
  using FieldCursors_Sort_mset by (metis size_mset)

subsection \<open>Properties\<close>

text \<open>
  C19: on a well-formed cursor the galloping and binary search of \<^verbatim>\<open>SkipTo\<close> end in the same
  cursor as the linear scan \<^verbatim>\<open>linearSkipTo\<close>, and that cursor has dropped exactly the entries
  below the bound.
\<close>

theorem SkipTo_equals_linear:
  assumes "ec_ok ec"
  shows "EC_SkipTo eid ec = linearSkipTo eid ec \<and> ec_ok (EC_SkipTo eid ec) \<and>
    ec_rem (EC_SkipTo eid ec) = {e \<in> ec_rem ec. eid \<le> e}"
  using assms EC_SkipTo_linear EC_SkipTo_rem EC_SkipTo_ok by simp

theorem SkipTo_equals_linear_witness:
  "let ec = NewEntriesCursor (NewQKey ''age'' (QInt 1)) [16, 33, 48, 80, 97]
   in ec_ok ec \<and> EC_SkipTo 48 ec = linearSkipTo 48 ec \<and> ec_rem (EC_SkipTo 48 ec) = {48, 80, 97}"
proof -
  let ?ec = "NewEntriesCursor (NewQKey ''age'' (QInt 1)) [16, 33, 48, 80, 97]"
  have "ec_ok ?ec" by (rule NewEntriesCursor_ok) (simp_all add: valid_eid_def)
  with SkipTo_equals_linear [of ?ec 48] show ?thesis by (auto simp: Let_def)
qed

text \<open>
  C22: \<^verbatim>\<open>FieldCursors.Sort\<close> orders the cursors by their current entry and neither loses nor
  duplicates one.
\<close>

theorem Sort_correct:
  "sorted (map FC_GetCurEntryID (FieldCursors_Sort s)) \<and> mset (FieldCursors_Sort s) = mset s"
  by (simp add: FieldCursors_Sort_mset FieldCursors_Sort_sorted)

end
