(* ===== verification/HolderTypes.thy ===== *)
theory HolderTypes
  imports Document Parser IndexScanner
begin

text \<open>
  The types of \<^verbatim>\<open>entries_holder.go\<close> and \<^verbatim>\<open>be_indexer.go\<close> that every posting holder shares,
  and the interface \<^verbatim>\<open>EntriesHolder\<close> as the locale \<open>entries_holder\<close>. The index builder and
  the index know a holder only by these laws; \<open>DefaultHolder\<close>, \<open>RangeHolder\<close>, \<open>AcHolder\<close> and the
  dispatch of \<open>Holders\<close> interpret it.
\<close>

subsection \<open>Data\<close>

record FieldOption =
  Container :: string

text \<open>\<^verbatim>\<open>ID\<close> is \<^verbatim>\<open>uint64(len(m))\<close> of a map, an exact conversion, hence \<open>nat\<close>.\<close>

record FieldDesc = FieldOption +
  fd_ID :: nat
  fd_Field :: BEField

datatype Term = NewTerm (term_FieldID: nat) (term_Value: string)

record Range =
  rg_left :: int
  rg_right :: int

text \<open>The implementations of \<^verbatim>\<open>IndexingData\<close>: tokens, an operator with a range or integers (of either range holder), or keywords.\<close>

datatype IndexingData =
    StrTokenData "string list"
  | RangeTxData ValueOpt "Range option" "int list"
  | AcHolderTxData "string list"
  | OptimizedRangeTxData ValueOpt "Range option" "int list"

text \<open>
  A \<^verbatim>\<open>FieldIndexingData\<close> keeps a pointer to a holder. The model names the holder by the
  container \<open>k\<close> that owns it: its default holder or the holder of a field.
\<close>

datatype holder_ref = RefDefault nat | RefField nat BEField

record FieldIndexingData =
  tx_field :: FieldDesc
  tx_holder :: holder_ref
  tx_EID :: EntryID
  tx_Data :: "IndexingData option"

type_synonym bytes = "8 word list"

text \<open>
  Library code the holders call: \<^verbatim>\<open>strconv.ParseFloat\<close>, the protobuf codec of a string
  list, and the JSON codecs of the exported fields of \<^verbatim>\<open>RangeTxData\<close> and
  \<^verbatim>\<open>OptimizedRangeTxData\<close>: the operator, whether a range is there (the fields of a \<^verbatim>\<open>Range\<close> are
  not exported), and the integers.
\<close>

record codec =
  parseFloat :: "string \<Rightarrow> gfloat option"
  protoMarshal :: "string list \<Rightarrow> bytes res"
  protoUnmarshal :: "bytes \<Rightarrow> string list res"
  jsonMarshal :: "ValueOpt \<times> bool \<times> int list \<Rightarrow> bytes res"
  jsonUnmarshal :: "bytes \<Rightarrow> (ValueOpt \<times> bool \<times> int list) res"
  optJsonMarshal :: "ValueOpt \<times> bool \<times> int list \<Rightarrow> bytes res"
  optJsonUnmarshal :: "bytes \<Rightarrow> (ValueOpt \<times> bool \<times> int list) res"

text \<open>
  A sequence of commits; the transactions a holder takes, for its \<open>takes\<close>; the transactions
  a query hits, for the holder's \<open>slot\<close> and \<open>hits\<close>.
\<close>

fun commit_all :: "('h \<Rightarrow> FieldIndexingData \<Rightarrow> 'h res) \<Rightarrow> 'h \<Rightarrow> FieldIndexingData list \<Rightarrow> 'h res" where
  "commit_all commit h [] = Inr h"
| "commit_all commit h (tx # txs) =
     (case commit h tx of Inl e \<Rightarrow> Inl e | Inr h' \<Rightarrow> commit_all commit h' txs)"

definition tx_ok :: "(IndexingData \<Rightarrow> bool) \<Rightarrow> FieldIndexingData \<Rightarrow> bool" where
  "tx_ok takes tx \<longleftrightarrow> valid_eid (tx_EID tx) \<and> (\<exists>d. tx_Data tx = Some d \<and> takes d)"

definition tx_hits ::
  "(FieldDesc \<Rightarrow> nat) \<Rightarrow> (FieldDesc \<Rightarrow> IndexingData \<Rightarrow> Values \<Rightarrow> bool) \<Rightarrow>
   FieldDesc \<Rightarrow> FieldIndexingData \<Rightarrow> Values \<Rightarrow> bool"
where
  "tx_hits slot hits fd tx v \<longleftrightarrow>
     slot fd = slot (tx_field tx) \<and> (\<exists>d. tx_Data tx = Some d \<and> hits fd d v)"

subsection \<open>The interface\<close>

text \<open>
  \<open>posted h fd v\<close> is the set of entries the holder would return for the query \<open>v\<close> on the
  field \<open>fd\<close>; \<open>hits h fd d v\<close> says that an expression with the data \<open>d\<close> is hit by \<open>v\<close>;
  \<open>answers h fd v\<close> that the query parses; \<open>takes h d\<close> that \<open>d\<close> has the holder's data type;
  \<open>slot h fd\<close> is the part of the holder where the field's entries go; \<open>blank h\<close> is the holder
  with the same configuration and no entries. \<open>building h\<close> is the invariant until
  \<^verbatim>\<open>CompileEntries\<close>, \<open>ready h\<close> the invariant after it.
\<close>

locale entries_holder =
  fixes get :: "'h \<Rightarrow> FieldDesc \<Rightarrow> Values \<Rightarrow> EntriesCursor list res"
    and build :: "'h \<Rightarrow> FieldDesc \<Rightarrow> BoolValues \<Rightarrow> IndexingData res"
    and commit :: "'h \<Rightarrow> FieldIndexingData \<Rightarrow> 'h res"
    and compile :: "'h \<Rightarrow> 'h res"
    and building :: "'h \<Rightarrow> bool"
    and ready :: "'h \<Rightarrow> bool"
    and blank :: "'h \<Rightarrow> 'h"
    and slot :: "'h \<Rightarrow> FieldDesc \<Rightarrow> nat"
    and takes :: "'h \<Rightarrow> IndexingData \<Rightarrow> bool"
    and answers :: "'h \<Rightarrow> FieldDesc \<Rightarrow> Values \<Rightarrow> bool"
    and hits :: "'h \<Rightarrow> FieldDesc \<Rightarrow> IndexingData \<Rightarrow> Values \<Rightarrow> bool"
    and posted :: "'h \<Rightarrow> FieldDesc \<Rightarrow> Values \<Rightarrow> EntryID set"
  assumes build_takes: "build h fd bv = Inr d \<Longrightarrow> takes h d"
    and commit_ok: "building h \<Longrightarrow> tx_Data tx = Some d \<Longrightarrow> takes h d \<Longrightarrow> valid_eid (tx_EID tx) \<Longrightarrow>
      \<exists>h'. commit h tx = Inr h' \<and> building h' \<and> blank h' = blank h \<and>
        (\<forall>fd v. posted h' fd v = posted h fd v \<union>
           (if slot h fd = slot h (tx_field tx) \<and> hits h fd d v then {tx_EID tx} else {}))"
    and compile_ok: "building h \<Longrightarrow>
      \<exists>h'. compile h = Inr h' \<and> ready h' \<and> blank h' = blank h \<and> posted h' = posted h"
    and get_answers: "ready h \<Longrightarrow> answers h fd v \<Longrightarrow> \<exists>cs. get h fd v = Inr cs"
    and get_sound: "ready h \<Longrightarrow> get h fd v = Inr cs \<Longrightarrow>
      (\<forall>c\<in>set cs. ec_ok c \<and> ec_rem c \<noteq> {}) \<and> (\<Union>c\<in>set cs. ec_rem c) = posted h fd v"
    and posted_blank: "posted (blank h) fd v = {}"
    and building_blank: "building h \<Longrightarrow> building (blank h)"
    and build_blank: "build (blank h) = build h"
    and slot_blank: "slot (blank h) = slot h"
    and takes_blank: "takes (blank h) = takes h"
    and answers_blank: "answers (blank h) = answers h"
    and hits_blank: "hits (blank h) = hits h"
begin

lemma get_ok:
  assumes "ready h" "answers h fd v"
  shows "\<exists>cs. get h fd v = Inr cs \<and> (\<forall>c\<in>set cs. ec_ok c \<and> ec_rem c \<noteq> {}) \<and>
    (\<Union>c\<in>set cs. ec_rem c) = posted h fd v"
  using get_answers [OF assms] get_sound [OF assms(1)] by blast

text \<open>A holder's static part only depends on its blank form.\<close>

lemma same_blank:
  assumes "blank h = blank g"
  shows "build h = build g" "slot h = slot g" "takes h = takes g" "answers h = answers g"
    "hits h = hits g"
  using assms build_blank slot_blank takes_blank answers_blank hits_blank by metis+

lemma commit_tx:
  assumes "building h" "tx_ok (takes h) tx"
  shows "\<exists>h'. commit h tx = Inr h' \<and> building h' \<and> blank h' = blank h \<and>
    (\<forall>fd v. posted h' fd v = posted h fd v \<union> {e. e = tx_EID tx \<and> tx_hits (slot h) (hits h) fd tx v})"
proof -
  obtain d where d: "tx_Data tx = Some d" "takes h d" "valid_eid (tx_EID tx)"
    using assms(2) by (auto simp: tx_ok_def)
  obtain h' where "commit h tx = Inr h'" "building h'" "blank h' = blank h"
    and p: "\<And>fd v. posted h' fd v = posted h fd v \<union>
      (if slot h fd = slot h (tx_field tx) \<and> hits h fd d v then {tx_EID tx} else {})"
    using commit_ok [OF assms(1) d] by blast
  moreover have "posted h' fd v = posted h fd v \<union> {e. e = tx_EID tx \<and> tx_hits (slot h) (hits h) fd tx v}" for fd v
    using d(1) by (auto simp: p tx_hits_def)
  ultimately show ?thesis by blast
qed

lemma commit_all_ok:
  assumes "building h" "\<forall>tx\<in>set txs. tx_ok (takes h) tx"
  shows "\<exists>h'. commit_all commit h txs = Inr h' \<and> building h' \<and> blank h' = blank h \<and>
    (\<forall>fd v. posted h' fd v = posted h fd v \<union> {tx_EID tx |tx. tx \<in> set txs \<and> tx_hits (slot h) (hits h) fd tx v})"
  using assms
proof (induction txs arbitrary: h)
  case (Cons tx txs)
  obtain g where g: "commit h tx = Inr g" "building g" "blank g = blank h"
    "\<And>fd v. posted g fd v = posted h fd v \<union> {e. e = tx_EID tx \<and> tx_hits (slot h) (hits h) fd tx v}"
    using commit_tx [of h tx] Cons.prems by auto
  note st = same_blank [OF g(3)]
  have "\<forall>tx\<in>set txs. tx_ok (takes g) tx" using Cons.prems(2) by (simp add: tx_ok_def st)
  then obtain h' where h': "commit_all commit g txs = Inr h'" "building h'" "blank h' = blank g"
    "\<And>fd v. posted h' fd v = posted g fd v \<union> {tx_EID tx |tx. tx \<in> set txs \<and> tx_hits (slot g) (hits g) fd tx v}"
    using Cons.IH [OF g(2)] by blast
  have hit: "tx_hits (slot g) (hits g) = tx_hits (slot h) (hits h)" by (simp add: fun_eq_iff tx_hits_def st)
  have "posted h' fd v = posted h fd v \<union> {tx_EID t |t. t \<in> set (tx # txs) \<and> tx_hits (slot h) (hits h) fd t v}" for fd v
    by (auto simp: h'(4) g(4) hit)
  then show ?case using g h' by auto
qed simp

text \<open>
  The life of a holder: any sequence of commits and then \<open>compile\<close> give a holder whose
  queries return exactly the committed entries that the query hits.
\<close>

lemma lifecycle:
  assumes "building h" "\<forall>tx\<in>set txs. tx_ok (takes h) tx" "answers h fd v"
  shows "\<exists>h1 h2 cs. commit_all commit h txs = Inr h1 \<and> compile h1 = Inr h2 \<and> get h2 fd v = Inr cs \<and>
    (\<forall>c\<in>set cs. ec_ok c) \<and>
    (\<Union>c\<in>set cs. ec_rem c) = posted h fd v \<union> {tx_EID tx |tx. tx \<in> set txs \<and> tx_hits (slot h) (hits h) fd tx v}"
proof -
  obtain h1 where h1: "commit_all commit h txs = Inr h1" "building h1" "blank h1 = blank h"
    "posted h1 fd v = posted h fd v \<union> {tx_EID tx |tx. tx \<in> set txs \<and> tx_hits (slot h) (hits h) fd tx v}"
    using commit_all_ok [OF assms(1,2)] by blast
  obtain h2 where h2: "compile h1 = Inr h2" "ready h2" "blank h2 = blank h1" "posted h2 = posted h1"
    using compile_ok [OF h1(2)] by blast
  have "answers h2 fd v" using same_blank(4) [of h2 h] h1(3) h2(3) assms(3) by simp
  then obtain cs where "get h2 fd v = Inr cs" "\<forall>c\<in>set cs. ec_ok c \<and> ec_rem c \<noteq> {}"
    "(\<Union>c\<in>set cs. ec_rem c) = posted h2 fd v"
    using get_ok [OF h2(2)] by blast
  then show ?thesis using h1 h2 by auto
qed

end

text \<open>A holder that reports every query it cannot parse.\<close>

locale strict_holder = entries_holder +
  assumes get_err: "\<not> answers h fd v \<Longrightarrow> \<exists>e. get h fd v = Inl e"
begin

lemma get_ok_iff: "ready h \<Longrightarrow> (\<exists>cs. get h fd v = Inr cs) \<longleftrightarrow> answers h fd v"
  using get_ok get_err by (metis sum.distinct(1))

end

end
