(* ===== verification/PostingMap.thy ===== *)
theory PostingMap
  imports IndexScanner
begin

text \<open>
  The map from keys to posting lists that the default holder (keyed by terms) and the range
  holder (keyed by integers) share: appending an entry under several keys, and the loop of
  \<^verbatim>\<open>CompileEntries\<close> that sorts the lists and counts them.
\<close>

subsection \<open>Operations\<close>

fun append_entries :: "EntryID \<Rightarrow> 'k list \<Rightarrow> ('k \<times> Entries) list \<Rightarrow> ('k \<times> Entries) list" where
  "append_entries eid [] m = m"
| "append_entries eid (key # keys) m =
     append_entries eid keys
       (alist_modify key (\<lambda>old. (case old of None \<Rightarrow> [] | Some es \<Rightarrow> es) @ [eid]) m)"

text \<open>
  \<^verbatim>\<open>sort.Sort\<close> of a slice of integers is \<open>sort\<close>: the sorted permutation is unique. The results
  are the map, the longest length and the sum of the lengths.
\<close>

fun sort_entries :: "('k \<times> Entries) list \<Rightarrow> int \<Rightarrow> int \<Rightarrow> ('k \<times> Entries) list \<times> int \<times> int" where
  "sort_entries [] mx tot = ([], mx, tot)"
| "sort_entries ((t, es) # m) mx tot =
     (let es' = sort es;
          mx' = (if mx < int (length es') then int (length es') else mx);
          (m', r) = sort_entries m mx' (tot + int (length es'))
      in ((t, es') # m', r))"

subsection \<open>Laws\<close>

definition key_entries :: "('k \<times> Entries) list \<Rightarrow> 'k \<Rightarrow> EntryID set" where
  "key_entries m t = (case map_of m t of None \<Rightarrow> {} | Some es \<Rightarrow> set es)"

definition posts_ok :: "('k \<times> Entries) list \<Rightarrow> bool" where
  "posts_ok m \<longleftrightarrow> (\<forall>(t, es)\<in>set m. \<forall>e\<in>set es. valid_eid e) \<and> distinct (map fst m)"

definition posts_sorted :: "('k \<times> Entries) list \<Rightarrow> bool" where
  "posts_sorted m \<longleftrightarrow> posts_ok m \<and> (\<forall>(t, es)\<in>set m. sorted es)"

lemma key_entries_Nil [simp]: "key_entries [] t = {}"
  by (simp add: key_entries_def)

lemma posts_ok_Nil [simp]: "posts_ok []"
  by (simp add: posts_ok_def)

lemma append_entries_key:
  "key_entries (append_entries eid keys m) t = key_entries m t \<union> (if t \<in> set keys then {eid} else {})"
proof (induction eid keys m rule: append_entries.induct)
  case (2 eid key keys m)
  have "key_entries (alist_modify key (\<lambda>old. (case old of None \<Rightarrow> [] | Some es \<Rightarrow> es) @ [eid]) m) t
      = key_entries m t \<union> (if t = key then {eid} else {})"
    by (auto simp: key_entries_def split: option.splits)
  then show ?case unfolding append_entries.simps 2 by auto
qed simp

lemma alist_modify_in:
  assumes "(k', v) \<in> set (alist_modify k f m)"
  shows "(k', v) \<in> set m \<or> (k' = k \<and> (v = f None \<or> (\<exists>u. (k, u) \<in> set m \<and> v = f (Some u))))"
  using assms by (induction k f m rule: alist_modify.induct) (auto split: if_splits)

lemma append_entries_ok:
  assumes "posts_ok m" "valid_eid eid"
  shows "posts_ok (append_entries eid keys m)"
  using assms
proof (induction eid keys m rule: append_entries.induct)
  case (2 eid key keys m)
  let ?m = "alist_modify key (\<lambda>old. (case old of None \<Rightarrow> [] | Some es \<Rightarrow> es) @ [eid]) m"
  have old: "valid_eid e" if "(t, es) \<in> set m" "e \<in> set es" for t es e
    using that 2(2) unfolding posts_ok_def by fast
  have "valid_eid e" if "(t, es) \<in> set ?m" "e \<in> set es" for t es e
    using alist_modify_in [OF that(1)] that(2) 2(3) by (auto dest: old)
  then have "posts_ok ?m" using 2(2) by (auto simp: posts_ok_def)
  then show ?case using 2 by simp
qed simp

lemma sort_entries_map: "fst (sort_entries m mx tot) = map (\<lambda>(t, es). (t, sort es)) m"
  by (induction m mx tot rule: sort_entries.induct) (auto simp: Let_def split: prod.splits)

lemma sort_entriesD: "sort_entries m mx tot = (m', r) \<Longrightarrow> m' = map (\<lambda>(t, es). (t, sort es)) m"
  using sort_entries_map [of m mx tot] by simp

lemma key_entries_sorted [simp]: "key_entries (map (\<lambda>(t, es). (t, sort es)) m) t = key_entries m t"
  by (cases "map_of m t") (simp_all add: key_entries_def map_of_map)

lemma posts_sorted_sort: "posts_ok m \<Longrightarrow> posts_sorted (map (\<lambda>(t, es). (t, sort es)) m)"
  by (fastforce simp: posts_sorted_def posts_ok_def comp_def case_prod_beta)

lemma posts_cursor:
  assumes "posts_sorted m" "map_of m t = Some es"
  shows "ec_ok (NewEntriesCursor k es)" "ec_rem (NewEntriesCursor k es) = key_entries m t"
proof -
  have "(t, es) \<in> set m" using assms(2) by (rule map_of_SomeD)
  then show "ec_ok (NewEntriesCursor k es)"
    using assms(1) by (intro NewEntriesCursor_ok) (auto simp: posts_sorted_def posts_ok_def)
  show "ec_rem (NewEntriesCursor k es) = key_entries m t" using assms(2) by (simp add: key_entries_def)
qed

end
