(* ===== verification/DefaultHolder.thy ===== *)
theory DefaultHolder
  imports HolderTypes PostingMap
begin

text \<open>
  Model of \<^verbatim>\<open>DefaultEntriesHolder\<close> (\<^verbatim>\<open>entries_holder.go\<close>): a hash map from terms (field id and
  token) to posting lists, shared by every field that uses the default container. The
  holder is interpreted as \<open>entries_holder\<close>: a query returns the committed entries whose
  tokens meet the tokens of the query.
\<close>

subsection \<open>Operations\<close>

record DefaultEntriesHolder =
  dh_debug :: bool
  dh_maxLen :: int
  dh_avgLen :: int
  dh_plEntries :: "(Term \<times> Entries) list"
  dh_fieldParser :: "(BEField \<times> ValueTokenizer) list"

definition NewDefaultEntriesHolder :: DefaultEntriesHolder where
  "NewDefaultEntriesHolder =
     \<lparr>dh_debug = False, dh_maxLen = 0, dh_avgLen = 0, dh_plEntries = [], dh_fieldParser = []\<rparr>"

definition DH_GetTokenizer :: "DefaultEntriesHolder \<Rightarrow> BEField \<Rightarrow> ValueTokenizer" where
  "DH_GetTokenizer h f =
     (case map_of (dh_fieldParser h) f of Some p \<Rightarrow> p | None \<Rightarrow> NewDefaultTokenizer)"

definition RegisterFieldTokenizer ::
  "DefaultEntriesHolder \<Rightarrow> BEField \<Rightarrow> ValueTokenizer option \<Rightarrow> DefaultEntriesHolder"
where
  "RegisterFieldTokenizer h f t =
     (case t of
        None \<Rightarrow> h\<lparr>dh_fieldParser := filter (\<lambda>p. fst p \<noteq> f) (dh_fieldParser h)\<rparr>
      | Some tk \<Rightarrow> h\<lparr>dh_fieldParser := alist_put f tk (dh_fieldParser h)\<rparr>)"

definition DH_EnableDebug :: "DefaultEntriesHolder \<Rightarrow> bool \<Rightarrow> DefaultEntriesHolder" where
  "DH_EnableDebug h debug = h\<lparr>dh_debug := debug\<rparr>"

definition makeEntriesSorted :: "DefaultEntriesHolder \<Rightarrow> DefaultEntriesHolder" where
  "makeEntriesSorted h =
     (case sort_entries (dh_plEntries h) (dh_maxLen h) 0 of
        (m, mx, tot) \<Rightarrow>
          h\<lparr>dh_plEntries := m, dh_maxLen := mx,
            dh_avgLen := (if length m > 0 then tot div int (length m) else dh_avgLen h)\<rparr>)"

definition DH_CompileEntries :: "DefaultEntriesHolder \<Rightarrow> DefaultEntriesHolder res" where
  "DH_CompileEntries h = Inr (makeEntriesSorted h)"

fun DH_cursors :: "DefaultEntriesHolder \<Rightarrow> FieldDesc \<Rightarrow> string list \<Rightarrow> EntriesCursor list" where
  "DH_cursors h fd [] = []"
| "DH_cursors h fd (value # values) =
     (case map_of (dh_plEntries h) (NewTerm (fd_ID fd) value) of
        Some entries \<Rightarrow>
          (if length entries > 0
           then NewEntriesCursor (NewQKey (fd_Field fd) (QStr value)) entries # DH_cursors h fd values
           else DH_cursors h fd values)
      | None \<Rightarrow> DH_cursors h fd values)"

definition DH_GetEntries ::
  "DefaultEntriesHolder \<Rightarrow> FieldDesc \<Rightarrow> Values \<Rightarrow> EntriesCursor list res"
where
  "DH_GetEntries h fd assigns =
     (case TokenizeAssign (DH_GetTokenizer h (fd_Field fd)) assigns of
        Inl e \<Rightarrow> Inl e
      | Inr values \<Rightarrow> Inr (DH_cursors h fd values))"

definition DH_BuildFieldIndexingData ::
  "DefaultEntriesHolder \<Rightarrow> FieldDesc \<Rightarrow> BoolValues \<Rightarrow> IndexingData res"
where
  "DH_BuildFieldIndexingData h fd bv =
     (if Operator bv \<noteq> ValueOptEQ then Inl (Panic ''default container support EQ operator only'')
      else (case TokenizeValue (DH_GetTokenizer h (fd_Field fd)) (Value bv) of
              Inl (Err m) \<Rightarrow> Inl (Err (''parse fail, err:'' @ m))
            | Inl (Panic m) \<Rightarrow> Inl (Panic m)
            | Inr values \<Rightarrow> Inr (StrTokenData values)))"

definition DH_CommitFieldIndexingData ::
  "DefaultEntriesHolder \<Rightarrow> FieldIndexingData \<Rightarrow> DefaultEntriesHolder res"
where
  "DH_CommitFieldIndexingData h tx =
     (case tx_Data tx of
        None \<Rightarrow> Inr h
      | Some (StrTokenData vs) \<Rightarrow>
          Inr (h\<lparr>dh_plEntries :=
                 append_entries (tx_EID tx) (map (NewTerm (fd_ID (tx_field tx))) (DistinctString vs))
                   (dh_plEntries h)\<rparr>)
      | Some _ \<Rightarrow> Inl (Panic ''bad TxData need *StringTxData, oops''))"

definition StrTokenData_Encode :: "codec \<Rightarrow> string list \<Rightarrow> bytes res" where
  "StrTokenData_Encode lib vs = protoMarshal lib vs"

definition DH_DecodeFieldIndexingData :: "codec \<Rightarrow> bytes \<Rightarrow> IndexingData res" where
  "DH_DecodeFieldIndexingData lib data =
     (if length data = 0 then Inr (StrTokenData [])
      else case protoUnmarshal lib data of Inl e \<Rightarrow> Inl e | Inr vs \<Rightarrow> Inr (StrTokenData vs))"

subsection \<open>What the holder holds\<close>

definition dh_inv :: "DefaultEntriesHolder \<Rightarrow> bool" where
  "dh_inv h \<longleftrightarrow> posts_ok (dh_plEntries h)"

definition dh_ready :: "DefaultEntriesHolder \<Rightarrow> bool" where
  "dh_ready h \<longleftrightarrow> posts_sorted (dh_plEntries h)"

definition dh_blank :: "DefaultEntriesHolder \<Rightarrow> DefaultEntriesHolder" where
  "dh_blank h = h\<lparr>dh_plEntries := [], dh_maxLen := 0, dh_avgLen := 0\<rparr>"

definition dh_slot :: "DefaultEntriesHolder \<Rightarrow> FieldDesc \<Rightarrow> nat" where
  "dh_slot h fd = fd_ID fd"

definition dh_takes :: "DefaultEntriesHolder \<Rightarrow> IndexingData \<Rightarrow> bool" where
  "dh_takes h d \<longleftrightarrow> (\<exists>vs. d = StrTokenData vs)"

definition dh_tokens :: "DefaultEntriesHolder \<Rightarrow> FieldDesc \<Rightarrow> Values \<Rightarrow> string set" where
  "dh_tokens h fd v =
     (case TokenizeAssign (DH_GetTokenizer h (fd_Field fd)) v of Inl _ \<Rightarrow> {} | Inr ts \<Rightarrow> set ts)"

definition dh_answers :: "DefaultEntriesHolder \<Rightarrow> FieldDesc \<Rightarrow> Values \<Rightarrow> bool" where
  "dh_answers h fd v \<longleftrightarrow> \<not> isl (TokenizeAssign (DH_GetTokenizer h (fd_Field fd)) v)"

definition dh_hits :: "DefaultEntriesHolder \<Rightarrow> FieldDesc \<Rightarrow> IndexingData \<Rightarrow> Values \<Rightarrow> bool" where
  "dh_hits h fd d v \<longleftrightarrow> (\<exists>vs. d = StrTokenData vs \<and> set vs \<inter> dh_tokens h fd v \<noteq> {})"

definition dh_posted :: "DefaultEntriesHolder \<Rightarrow> FieldDesc \<Rightarrow> Values \<Rightarrow> EntryID set" where
  "dh_posted h fd v = (\<Union>t\<in>dh_tokens h fd v. key_entries (dh_plEntries h) (NewTerm (fd_ID fd) t))"

subsection \<open>Committing\<close>

lemma DH_commit_ok:
  assumes "dh_inv h" "tx_Data tx = Some d" "dh_takes h d" "valid_eid (tx_EID tx)"
  shows "\<exists>h'. DH_CommitFieldIndexingData h tx = Inr h' \<and> dh_inv h' \<and> dh_blank h' = dh_blank h \<and>
    (\<forall>fd v. dh_posted h' fd v = dh_posted h fd v \<union>
       (if dh_slot h fd = dh_slot h (tx_field tx) \<and> dh_hits h fd d v then {tx_EID tx} else {}))"
proof -
  obtain vs where d: "d = StrTokenData vs" using assms(3) by (auto simp: dh_takes_def)
  let ?h = "h\<lparr>dh_plEntries := append_entries (tx_EID tx)
      (map (NewTerm (fd_ID (tx_field tx))) (DistinctString vs)) (dh_plEntries h)\<rparr>"
  have c: "DH_CommitFieldIndexingData h tx = Inr ?h"
    using assms(2) d by (simp add: DH_CommitFieldIndexingData_def)
  have i: "dh_inv ?h" using append_entries_ok assms(1,4) by (simp add: dh_inv_def)
  have p: "dh_posted ?h fd v = dh_posted h fd v \<union>
       (if dh_slot h fd = dh_slot h (tx_field tx) \<and> dh_hits h fd d v then {tx_EID tx} else {})" for fd v
    by (auto simp: dh_posted_def dh_slot_def dh_hits_def d dh_tokens_def append_entries_key
      DistinctString_def DH_GetTokenizer_def split: if_splits sum.splits)
  show ?thesis by (rule exI [of _ ?h]) (simp add: c i p, simp add: dh_blank_def)
qed

subsection \<open>Compiling\<close>

lemma makeEntriesSorted_sel [simp]:
  "dh_plEntries (makeEntriesSorted h) = map (\<lambda>(t, es). (t, sort es)) (dh_plEntries h)"
  "dh_fieldParser (makeEntriesSorted h) = dh_fieldParser h" "dh_debug (makeEntriesSorted h) = dh_debug h"
proof -
  obtain m mx tot where e: "sort_entries (dh_plEntries h) (dh_maxLen h) 0 = (m, mx, tot)"
    by (cases "sort_entries (dh_plEntries h) (dh_maxLen h) 0") auto
  then have "m = map (\<lambda>(t, es). (t, sort es)) (dh_plEntries h)"
    by (rule sort_entriesD)
  then show "dh_plEntries (makeEntriesSorted h) = map (\<lambda>(t, es). (t, sort es)) (dh_plEntries h)"
    "dh_fieldParser (makeEntriesSorted h) = dh_fieldParser h" "dh_debug (makeEntriesSorted h) = dh_debug h"
    by (simp_all add: makeEntriesSorted_def e)
qed

lemma dh_tokens_parser: "dh_fieldParser h = dh_fieldParser g \<Longrightarrow> dh_tokens h = dh_tokens g"
  by (simp add: fun_eq_iff dh_tokens_def DH_GetTokenizer_def)

lemma DH_compile_ok:
  assumes "dh_inv h"
  shows "\<exists>h'. DH_CompileEntries h = Inr h' \<and> dh_ready h' \<and> dh_blank h' = dh_blank h \<and>
    dh_posted h' = dh_posted h"
proof -
  let ?h = "makeEntriesSorted h"
  have "dh_ready ?h" using assms posts_sorted_sort by (simp add: dh_ready_def dh_inv_def)
  moreover have "dh_blank ?h = dh_blank h" by (simp add: dh_blank_def)
  moreover have "dh_posted ?h = dh_posted h"
    using dh_tokens_parser [of ?h h] by (simp add: fun_eq_iff dh_posted_def)
  ultimately show ?thesis by (simp add: DH_CompileEntries_def)
qed

subsection \<open>Querying\<close>

lemma DH_cursors_spec:
  assumes "dh_ready h"
  shows "(\<forall>c\<in>set (DH_cursors h fd vs). ec_ok c \<and> ec_rem c \<noteq> {}) \<and>
    (\<Union>c\<in>set (DH_cursors h fd vs). ec_rem c) =
      (\<Union>t\<in>set vs. key_entries (dh_plEntries h) (NewTerm (fd_ID fd) t))"
proof (induction vs)
  case (Cons v vs)
  show ?case
  proof (cases "map_of (dh_plEntries h) (NewTerm (fd_ID fd) v)")
    case (Some es)
    then have "ec_ok (NewEntriesCursor k es)" for k
      using assms posts_cursor(1) by (simp add: dh_ready_def)
    then show ?thesis using Cons Some by (auto simp: key_entries_def)
  qed (use Cons in \<open>simp add: key_entries_def\<close>)
qed simp

interpretation dh: strict_holder DH_GetEntries DH_BuildFieldIndexingData
  DH_CommitFieldIndexingData DH_CompileEntries dh_inv dh_ready dh_blank dh_slot dh_takes
  dh_answers dh_hits dh_posted
proof (unfold_locales, goal_cases)
  case (1 h fd bv d)
  then show ?case by (auto simp: DH_BuildFieldIndexingData_def dh_takes_def split: if_splits sum.splits gerr.splits)
next
  case (2 h tx d)
  then show ?case by (rule DH_commit_ok)
next
  case (3 h)
  then show ?case by (rule DH_compile_ok)
next
  case (4 h fd v)
  then show ?case by (auto simp: DH_GetEntries_def dh_answers_def split: sum.splits)
next
  case (5 h fd v cs)
  then obtain ts where "TokenizeAssign (DH_GetTokenizer h (fd_Field fd)) v = Inr ts" "cs = DH_cursors h fd ts"
    by (auto simp: DH_GetEntries_def split: sum.splits)
  then show ?case using DH_cursors_spec [OF 5(1), of fd ts] by (simp add: dh_posted_def dh_tokens_def)
next
  case (13 h fd v)
  then show ?case by (auto simp: DH_GetEntries_def dh_answers_def isl_def)
qed (auto simp: fun_eq_iff dh_posted_def dh_inv_def dh_blank_def DH_BuildFieldIndexingData_def dh_slot_def
  dh_takes_def dh_answers_def dh_hits_def dh_tokens_def key_entries_def DH_GetTokenizer_def)

subsection \<open>Properties\<close>

text \<open>
  C12: Committing any sequence of transactions to a default holder, compiling it and asking it
  never fails, and the cursors of the answer hold exactly the entries that were there plus
  those of the transactions of the field with a token of the query.
\<close>

theorem DefaultHolder_lifecycle:
  assumes "dh_inv h" "\<forall>tx\<in>set txs. tx_ok (dh_takes h) tx" "dh_answers h fd v"
  shows "\<exists>h1 h2 cs. commit_all DH_CommitFieldIndexingData h txs = Inr h1 \<and> DH_CompileEntries h1 = Inr h2 \<and>
    DH_GetEntries h2 fd v = Inr cs \<and> (\<forall>c\<in>set cs. ec_ok c) \<and>
    (\<Union>c\<in>set cs. ec_rem c) = dh_posted h fd v \<union>
      {tx_EID tx |tx. tx \<in> set txs \<and> fd_ID fd = fd_ID (tx_field tx) \<and>
         (\<exists>vs. tx_Data tx = Some (StrTokenData vs) \<and> set vs \<inter> dh_tokens h fd v \<noteq> {})}"
proof -
  have "tx_hits (dh_slot h) (dh_hits h) fd tx v \<longleftrightarrow> fd_ID fd = fd_ID (tx_field tx) \<and>
      (\<exists>vs. tx_Data tx = Some (StrTokenData vs) \<and> set vs \<inter> dh_tokens h fd v \<noteq> {})" for tx
    by (auto simp: tx_hits_def dh_slot_def dh_hits_def)
  then show ?thesis using dh.lifecycle [OF assms] by simp
qed

theorem DefaultHolder_lifecycle_witness:
  "\<exists>h1 h2 cs. commit_all DH_CommitFieldIndexingData NewDefaultEntriesHolder
       [\<lparr>tx_field = \<lparr>Container = ''default'', fd_ID = 0, fd_Field = ''age''\<rparr>, tx_holder = RefDefault 0, tx_EID = 17,
         tx_Data = Some (StrTokenData [''7''])\<rparr>] = Inr h1 \<and>
     DH_CompileEntries h1 = Inr h2 \<and>
     DH_GetEntries h2 \<lparr>Container = ''default'', fd_ID = 0, fd_Field = ''age''\<rparr> (VStr ''7'') = Inr cs \<and>
     (\<Union>c\<in>set cs. ec_rem c) = {17}"
proof -
  let ?fd = "\<lparr>Container = ''default'', fd_ID = 0, fd_Field = ''age''\<rparr> :: FieldDesc"
  let ?txs = "[\<lparr>tx_field = ?fd, tx_holder = RefDefault 0, tx_EID = 17, tx_Data = Some (StrTokenData [''7''])\<rparr>]"
  have "dh_inv NewDefaultEntriesHolder" "\<forall>tx\<in>set ?txs. tx_ok (dh_takes NewDefaultEntriesHolder) tx"
    "dh_answers NewDefaultEntriesHolder ?fd (VStr ''7'')" "dh_posted NewDefaultEntriesHolder ?fd (VStr ''7'') = {}"
    "dh_tokens NewDefaultEntriesHolder ?fd (VStr ''7'') = {''7''}"
    by (auto simp: NewDefaultEntriesHolder_def dh_inv_def tx_ok_def dh_takes_def valid_eid_def dh_answers_def
        DH_GetTokenizer_def NewDefaultTokenizer_def dh_posted_def dh_tokens_def)
  then show ?thesis using DefaultHolder_lifecycle [of NewDefaultEntriesHolder ?txs ?fd "VStr ''7''"] by auto
qed

end
