(* ===== verification/RangeIdx.thy ===== *)
theory RangeIdx
  imports HolderTypes
begin

text \<open>
  Model of \<^verbatim>\<open>Range\<close>, \<^verbatim>\<open>RangeEntries\<close> and \<^verbatim>\<open>RangeIdx\<close> of
  \<^verbatim>\<open>holder/rangeholder/term_ext_range_holder.go\<close>: a list of half-open intervals that tile
  \<open>[valueMin, valueMax)\<close>, each with its posting list. \<open>IndexingRange\<close> splits the intervals a
  range cuts and adds the entry to those inside it; \<open>Retrieve\<close> finds the interval of a value
  by binary search. The lemmas show that the tiling is kept and that the entries at a value
  are exactly those of the ranges that contain it.
\<close>

subsection \<open>Ranges\<close>

definition MinInt64 :: int where "MinInt64 = - (2 ^ 63)"
definition MaxInt64 :: int where "MaxInt64 = 2 ^ 63 - 1"

definition NewRange :: "int \<Rightarrow> int \<Rightarrow> Range" where
  "NewRange l r = \<lparr>rg_left = l, rg_right = (if l = r then int64_of (r + 1) else r)\<rparr>"

definition ContainValue :: "'a Range_scheme \<Rightarrow> int \<Rightarrow> bool" where
  "ContainValue rg v \<longleftrightarrow> v \<ge> rg_left rg \<and> v < rg_right rg"

definition ContainRange :: "'a Range_scheme \<Rightarrow> 'b Range_scheme \<Rightarrow> bool" where
  "ContainRange rg other \<longleftrightarrow>
     rg_left other \<ge> rg_left rg \<and> rg_right other \<le> rg_right rg \<and> rg_left other < rg_right rg"

text \<open>
  The loop of \<open>Explode\<close>. \<open>leftValue\<close> is always the previous boundary, so a boundary that
  repeats it is moved up by one.
\<close>

fun explode_loop :: "int \<Rightarrow> int \<Rightarrow> int list \<Rightarrow> Range list" where
  "explode_loop leftValue rgRight [] = []"
| "explode_loop leftValue rgRight (v # vs) =
     (if leftValue < rgRight
      then let v' = (if v = leftValue then int64_of (v + 1) else v)
           in \<lparr>rg_left = leftValue, rg_right = v'\<rparr> # explode_loop v' rgRight vs
      else [])"

definition Explode :: "'a Range_scheme \<Rightarrow> int \<Rightarrow> int \<Rightarrow> Range list res" where
  "Explode rg left right =
     (if \<not> ContainRange rg \<lparr>rg_left = left, rg_right = right\<rparr> then Inl (Panic ''bad sub range'')
      else Inr (explode_loop (rg_left rg) (rg_right rg)
             ((if left > rg_left rg then [left] else []) @ [right] @
              (if right < rg_right rg then [rg_right rg] else []))))"

subsection \<open>The interval list\<close>

record RangeEntries = Range +
  re_entries :: Entries

definition NewRangeEntries :: "int \<Rightarrow> int \<Rightarrow> RangeEntries" where
  "NewRangeEntries l r = \<lparr>rg_left = l, rg_right = r, re_entries = []\<rparr>"

definition AppendEntry :: "EntryID \<Rightarrow> RangeEntries \<Rightarrow> RangeEntries" where
  "AppendEntry eid re = re\<lparr>re_entries := re_entries re @ [eid]\<rparr>"

text \<open>A node with a new range; a clone shares its entries with the node it was made from.\<close>

definition set_range :: "RangeEntries \<Rightarrow> Range \<Rightarrow> RangeEntries" where
  "set_range re rg = re\<lparr>rg_left := rg_left rg, rg_right := rg_right rg\<rparr>"

record RangeIdx =
  ri_compiled :: bool
  ri_maxLen :: int
  ri_avgLen :: int
  ri_valueMin :: int
  ri_valueMax :: int
  ri_items :: "RangeEntries list"
  ri_rgEntries :: "RangeEntries list"

definition NewRangeIdx :: "int \<Rightarrow> int \<Rightarrow> RangeIdx res" where
  "NewRangeIdx mn mx =
     (if mn \<ge> mx then Inl (Panic ''bad range'')
      else Inr \<lparr>ri_compiled = False, ri_maxLen = 0, ri_avgLen = 0, ri_valueMin = mn, ri_valueMax = mx,
                ri_items = [NewRangeEntries mn mx], ri_rgEntries = []\<rparr>)"

fun compile_items :: "RangeEntries list \<Rightarrow> int \<Rightarrow> int \<Rightarrow> RangeEntries list \<times> int \<times> int" where
  "compile_items [] mx sumCnt = ([], mx, sumCnt)"
| "compile_items (pl # pls) mx sumCnt =
     (let cnt = int (length (re_entries pl));
          (pl', mx', sumCnt') =
            (if cnt > 0 then (pl\<lparr>re_entries := sort (re_entries pl)\<rparr>, if mx < cnt then cnt else mx, sumCnt + cnt)
             else (pl, mx, sumCnt));
          (pls', r) = compile_items pls mx' sumCnt'
      in (pl' # pls', r))"

definition RI_Compile :: "RangeIdx \<Rightarrow> RangeIdx" where
  "RI_Compile rix =
     (case compile_items (ri_items rix) (ri_maxLen rix) 0 of
        (rgEntries, mx, sumCnt) \<Rightarrow>
          rix\<lparr>ri_rgEntries := rgEntries, ri_maxLen := mx, ri_items := [], ri_compiled := True,
              ri_avgLen := (if length rgEntries > 0 then sumCnt div int (length rgEntries) else ri_avgLen rix)\<rparr>)"

text \<open>\<^verbatim>\<open>sort.Find\<close> of the standard library, with its comparison as an argument.\<close>

function find_loop :: "(nat \<Rightarrow> int) \<Rightarrow> nat \<Rightarrow> nat \<Rightarrow> nat" where
  "find_loop cmp i j =
     (if i < j
      then let h = (i + j) div 2 in if cmp h > 0 then find_loop cmp (h + 1) j else find_loop cmp i h
      else i)"
  by pat_completeness auto
termination by (relation "measure (\<lambda>(cmp, i, j). j - i)") auto

declare find_loop.simps [simp del]

definition sort_Find :: "nat \<Rightarrow> (nat \<Rightarrow> int) \<Rightarrow> nat \<times> bool" where
  "sort_Find n cmp = (let i = find_loop cmp 0 n in (i, i < n \<and> cmp i = 0))"

text \<open>\<open>Retrieve\<close> returns a pointer to the interval, here its index.\<close>

definition RI_cmp :: "RangeEntries list \<Rightarrow> int \<Rightarrow> nat \<Rightarrow> int" where
  "RI_cmp rgs value i =
     (let rg = rgs ! i
      in if ContainValue rg value then 0 else if value \<ge> rg_right rg then 1 else -1)"

definition RI_Retrieve :: "RangeIdx \<Rightarrow> int \<Rightarrow> nat option" where
  "RI_Retrieve rix value =
     (if value < ri_valueMin rix \<or> value \<ge> ri_valueMax rix then None
      else let (index, found) = sort_Find (length (ri_rgEntries rix)) (RI_cmp (ri_rgEntries rix) value)
           in if \<not> found then None else Some index)"

text \<open>
  The loop of \<open>IndexingRange\<close>. Each interval becomes one or more nodes; the flag marks the
  nodes of \<^verbatim>\<open>appendEIDPls\<close>. The list is changed in place after the cursor, so no node is seen
  twice.
\<close>

fun index_loop ::
  "int \<Rightarrow> int \<Rightarrow> Range \<Rightarrow> RangeEntries list \<Rightarrow> (RangeEntries \<times> bool) list res"
where
  "index_loop left right rg [] = Inr []"
| "index_loop left right rg (pl # pls) =
     (if rg_left pl \<ge> rg_right rg then Inr (map (\<lambda>p. (p, False)) (pl # pls))
      else if rg_left rg \<ge> rg_right pl
      then (case index_loop left right rg pls of Inl e \<Rightarrow> Inl e | Inr ns \<Rightarrow> Inr ((pl, False) # ns))
      else if ContainValue pl (rg_left rg)
      then (let (rgs, rg') =
                  (if rg_right rg > rg_right pl
                   then (Explode pl (rg_left rg) (rg_right pl), NewRange (rg_right pl) right)
                   else (Explode pl (rg_left rg) (rg_right rg), rg))
            in case rgs of
                 Inl e \<Rightarrow> Inl e
               | Inr items \<Rightarrow>
                   (let fullRg = NewRange left right;
                        nodes = (if items = [] then [(pl, False)]
                                 else map (\<lambda>item. (set_range pl item, ContainRange fullRg item)) items)
                    in case index_loop left right rg' pls of Inl e \<Rightarrow> Inl e | Inr ns \<Rightarrow> Inr (nodes @ ns)))
      else (case index_loop left right rg pls of Inl e \<Rightarrow> Inl e | Inr ns \<Rightarrow> Inr ((pl, False) # ns)))"

definition append_marked :: "EntryID \<Rightarrow> (RangeEntries \<times> bool) list \<Rightarrow> RangeEntries list" where
  "append_marked eid ns = map (\<lambda>(pl, m). if m then AppendEntry eid pl else pl) ns"

definition IndexingRange :: "RangeIdx \<Rightarrow> int \<Rightarrow> int \<Rightarrow> EntryID \<Rightarrow> RangeIdx res" where
  "IndexingRange rix left right0 eid =
     (let right = (if left = right0 then int64_of (right0 + 1) else right0)
      in case index_loop left right (NewRange left right) (ri_items rix) of
           Inl e \<Rightarrow> Inl e
         | Inr ns \<Rightarrow> Inr (rix\<lparr>ri_items := append_marked eid ns\<rparr>))"

subsection \<open>Tilings\<close>

fun tiles :: "int \<Rightarrow> RangeEntries list \<Rightarrow> int \<Rightarrow> bool" where
  "tiles a [] b \<longleftrightarrow> a = b"
| "tiles a (p # ps) b \<longleftrightarrow> rg_left p = a \<and> a < rg_right p \<and> tiles (rg_right p) ps b"

definition entries_at :: "RangeEntries list \<Rightarrow> int \<Rightarrow> EntryID set" where
  "entries_at ps v = (\<Union>p\<in>set ps. if ContainValue p v then set (re_entries p) else {})"

lemma entries_at_simps [simp]:
  "entries_at [] v = {}"
  "entries_at (p # ps) v = (if ContainValue p v then set (re_entries p) else {}) \<union> entries_at ps v"
  "entries_at (ps @ qs) v = entries_at ps v \<union> entries_at qs v"
  by (auto simp: entries_at_def)

lemma tiles_append: "tiles a (ps @ qs) b \<longleftrightarrow> (\<exists>m. tiles a ps m \<and> tiles m qs b)"
  by (induction ps arbitrary: a) auto

lemma tiles_le: "tiles a ps b \<Longrightarrow> a \<le> b"
  by (induction ps arbitrary: a) fastforce+

lemma tiles_bounds: "tiles a ps b \<Longrightarrow> p \<in> set ps \<Longrightarrow> a \<le> rg_left p \<and> rg_right p \<le> b"
  by (induction ps arbitrary: a) (auto dest: tiles_le, force)

lemma tiles_nonempty: "tiles a ps b \<Longrightarrow> p \<in> set ps \<Longrightarrow> rg_left p < rg_right p"
  by (induction ps arbitrary: a) auto

lemma entries_at_outside: "tiles a ps b \<Longrightarrow> v < a \<or> b \<le> v \<Longrightarrow> entries_at ps v = {}"
  using tiles_bounds by (fastforce simp: entries_at_def ContainValue_def)

subsection \<open>IndexingRange\<close>

text \<open>
  The pieces of an interval \<open>[a, p)\<close> cut at \<open>[l, r)\<close> with \<open>a \<le> l < p\<close>: the part before \<open>l\<close>, the
  part inside and the part after.
\<close>

lemma Explode_pieces:
  assumes "rg_left pl \<le> l" "l < r" "r \<le> rg_right pl"
  shows "Explode pl l r =
    Inr ((if rg_left pl < l then [\<lparr>rg_left = rg_left pl, rg_right = l\<rparr>] else []) @
      [\<lparr>rg_left = l, rg_right = r\<rparr>] @
      (if r < rg_right pl then [\<lparr>rg_left = r, rg_right = rg_right pl\<rparr>] else []))"
  using assms by (auto simp: Explode_def ContainRange_def)

lemma index_loop_done: "tiles a pls b \<Longrightarrow> rg_right rg \<le> a \<Longrightarrow>
    index_loop left right rg pls = Inr (map (\<lambda>p. (p, False)) pls)"
  by (cases pls) auto

lemma append_marked_simps [simp]:
  "append_marked eid [] = []"
  "append_marked eid (n # ns) = (if snd n then AppendEntry eid (fst n) else fst n) # append_marked eid ns"
  "append_marked eid (ms @ ns) = append_marked eid ms @ append_marked eid ns"
  "append_marked eid (map (\<lambda>p. (p, False)) ps) = ps"
  by (auto simp: append_marked_def comp_def split: prod.splits)

lemma range_sel [simp]:
  "rg_left (set_range p r) = rg_left r" "rg_right (set_range p r) = rg_right r"
  "re_entries (set_range p r) = re_entries p"
  "rg_left (AppendEntry e p) = rg_left p" "rg_right (AppendEntry e p) = rg_right p"
  "re_entries (AppendEntry e p) = re_entries p @ [e]"
  by (simp_all add: set_range_def AppendEntry_def)

text \<open>
  The cursor invariant: the rest of the list tiles \<open>[a, b)\<close>, the remaining range starts at
  \<open>l \<ge> a\<close>, and it is the given range or its part from the current interval on.
\<close>

lemma index_loop_spec:
  assumes "tiles a pls b" "a \<le> l" "l < right" "left = l \<or> (l = a \<and> left < a)"
  shows "\<exists>ns. index_loop left right \<lparr>rg_left = l, rg_right = right\<rparr> pls = Inr ns \<and>
    tiles a (append_marked eid ns) b \<and>
    (\<forall>v. entries_at (append_marked eid ns) v =
       entries_at pls v \<union> (if l \<le> v \<and> v < right \<and> v < b then {eid} else {})) \<and>
    (\<forall>p\<in>set (append_marked eid ns). set (re_entries p) \<subseteq> insert eid (\<Union>q\<in>set pls. set (re_entries q)))"
  using assms
proof (induction pls arbitrary: a l)
  case Nil
  then show ?case by auto
next
  case (Cons p ps)
  let ?rg = "\<lparr>rg_left = l, rg_right = right\<rparr>"
  let ?full = "NewRange left right"
  have lr: "left < right" using Cons.prems by auto
  have full: "?full = \<lparr>rg_left = left, rg_right = right\<rparr>" using lr by (simp add: NewRange_def)
  have p: "rg_left p = a" "a < rg_right p" "tiles (rg_right p) ps b" using Cons.prems(1) by auto
  have b: "rg_right p \<le> b" using p(3) by (rule tiles_le)
  have out: "entries_at ps v = {}" if "v < rg_right p" for v
    using entries_at_outside [OF p(3)] that by simp
  consider (after) "rg_right p \<le> l" | (cut) "l < rg_right p" "rg_right p < right"
    | (within) "l < rg_right p" "right \<le> rg_right p" by linarith
  then show ?case
  proof cases
    case after
    obtain ns where ns: "index_loop left right ?rg ps = Inr ns" "tiles (rg_right p) (append_marked eid ns) b"
      "\<And>v. entries_at (append_marked eid ns) v = entries_at ps v \<union> (if l \<le> v \<and> v < right \<and> v < b then {eid} else {})"
      "\<forall>q\<in>set (append_marked eid ns). set (re_entries q) \<subseteq> insert eid (\<Union>q\<in>set ps. set (re_entries q))"
      using Cons.IH [OF p(3) after Cons.prems(3)] Cons.prems(4) p(2) after by auto
    have "index_loop left right ?rg (p # ps) = Inr ((p, False) # ns)"
      using after p Cons.prems(3) ns(1) by simp
    then show ?thesis using ns p by (auto 0 3)
  next
    case cut
    let ?rg' = "\<lparr>rg_left = rg_right p, rg_right = right\<rparr>"
    have "NewRange (rg_right p) right = ?rg'" using cut by (simp add: NewRange_def)
    moreover obtain ns where ns: "index_loop left right ?rg' ps = Inr ns" "tiles (rg_right p) (append_marked eid ns) b"
      "\<And>v. entries_at (append_marked eid ns) v = entries_at ps v \<union> (if rg_right p \<le> v \<and> v < right \<and> v < b then {eid} else {})"
      "\<forall>q\<in>set (append_marked eid ns). set (re_entries q) \<subseteq> insert eid (\<Union>q\<in>set ps. set (re_entries q))"
      using Cons.IH [OF p(3), of "rg_right p"] Cons.prems(4) p(2) cut by auto
    moreover have ex: "Explode p l (rg_right p) = Inr ((if a < l then [\<lparr>rg_left = a, rg_right = l\<rparr>] else []) @
        [\<lparr>rg_left = l, rg_right = rg_right p\<rparr>])"
      using Explode_pieces [of p l "rg_right p"] Cons.prems(2) p cut by simp
    ultimately have lp: "index_loop left right ?rg (p # ps) = Inr (
        (if a < l then [(set_range p \<lparr>rg_left = a, rg_right = l\<rparr>, False)] else []) @
        [(set_range p \<lparr>rg_left = l, rg_right = rg_right p\<rparr>, True)] @ ns)"
      using cut p Cons.prems full by (auto simp: ContainValue_def ContainRange_def)
    show ?thesis unfolding lp using ns p cut Cons.prems(2) b
      by (auto simp: ContainValue_def out)
  next
    case within
    have "index_loop left right ?rg ps = Inr (map (\<lambda>p. (p, False)) ps)"
      using index_loop_done [OF p(3)] within by simp
    moreover have ex: "Explode p l right = Inr ((if a < l then [\<lparr>rg_left = a, rg_right = l\<rparr>] else []) @
        [\<lparr>rg_left = l, rg_right = right\<rparr>] @
        (if right < rg_right p then [\<lparr>rg_left = right, rg_right = rg_right p\<rparr>] else []))"
      using Explode_pieces [of p l right] Cons.prems p within by simp
    ultimately have lp: "index_loop left right ?rg (p # ps) = Inr (
        (if a < l then [(set_range p \<lparr>rg_left = a, rg_right = l\<rparr>, False)] else []) @
        [(set_range p \<lparr>rg_left = l, rg_right = right\<rparr>, True)] @
        (if right < rg_right p then [(set_range p \<lparr>rg_left = right, rg_right = rg_right p\<rparr>, False)] else []) @
        map (\<lambda>p. (p, False)) ps)"
      using within p Cons.prems full by (auto simp: ContainValue_def ContainRange_def)
    show ?thesis unfolding lp using p within Cons.prems(2,3) b
      by (auto simp: ContainValue_def out)
  qed
qed

text \<open>A range that starts below the tiling is dropped.\<close>

lemma index_loop_low: "tiles a pls b \<Longrightarrow> rg_left rg < a \<Longrightarrow>
    index_loop left right rg pls = Inr (map (\<lambda>p. (p, False)) pls)"
proof (induction pls arbitrary: a)
  case (Cons p ps)
  then have "index_loop left right rg ps = Inr (map (\<lambda>p. (p, False)) ps)" by fastforce
  then show ?case using Cons.prems by (simp add: ContainValue_def)
qed simp

definition ri_inv :: "RangeIdx \<Rightarrow> bool" where
  "ri_inv rix \<longleftrightarrow> MinInt64 \<le> ri_valueMin rix \<and> ri_valueMin rix < ri_valueMax rix \<and>
     (\<forall>p\<in>set (ri_items rix @ ri_rgEntries rix). \<forall>e\<in>set (re_entries p). valid_eid e)"

definition ri_building :: "RangeIdx \<Rightarrow> bool" where
  "ri_building rix \<longleftrightarrow> ri_inv rix \<and> ri_rgEntries rix = [] \<and>
     tiles (ri_valueMin rix) (ri_items rix) (ri_valueMax rix)"

definition ri_ready :: "RangeIdx \<Rightarrow> bool" where
  "ri_ready rix \<longleftrightarrow> ri_inv rix \<and> ri_items rix = [] \<and>
     tiles (ri_valueMin rix) (ri_rgEntries rix) (ri_valueMax rix) \<and>
     (\<forall>p\<in>set (ri_rgEntries rix). sorted (re_entries p))"

definition ri_posted :: "RangeIdx \<Rightarrow> int \<Rightarrow> EntryID set" where
  "ri_posted rix v = entries_at (ri_items rix @ ri_rgEntries rix) v"

text \<open>
  The ranges the code makes: \<open>NewRange\<close> of ordered bounds, which wraps to the smallest integer
  when both bounds are the largest one.
\<close>

definition range_ok :: "Range \<Rightarrow> bool" where
  "range_ok rg \<longleftrightarrow> is_int64 (rg_left rg) \<and> is_int64 (rg_right rg) \<and>
     (rg_left rg \<le> rg_right rg \<or> rg_right rg = MinInt64)"

definition range_hit :: "RangeIdx \<Rightarrow> Range \<Rightarrow> int \<Rightarrow> bool" where
  "range_hit rix rg v \<longleftrightarrow>
     ri_valueMin rix \<le> rg_left rg \<and> v < ri_valueMax rix \<and>
     ContainValue (NewRange (rg_left rg) (rg_right rg)) v"

lemma int64_of_Suc: "is_int64 x \<Longrightarrow> int64_of (x + 1) = (if x = MaxInt64 then MinInt64 else x + 1)"
  by (auto simp: int64_of_def is_int64_def MaxInt64_def MinInt64_def)

lemma NewRange_ok: "is_int64 l \<Longrightarrow> is_int64 r \<Longrightarrow> l \<le> r \<Longrightarrow> range_ok (NewRange l r)"
  using int64_of_Suc [of r] is_int64_of [of "r + 1"]
  by (auto simp: range_ok_def NewRange_def simp del: is_int64_of split: if_splits)

lemma IndexingRange_ok:
  assumes "ri_building rix" "range_ok rg" "valid_eid eid"
  shows "\<exists>items. IndexingRange rix (rg_left rg) (rg_right rg) eid = Inr (rix\<lparr>ri_items := items\<rparr>) \<and>
    ri_building (rix\<lparr>ri_items := items\<rparr>) \<and>
    (\<forall>v. ri_posted (rix\<lparr>ri_items := items\<rparr>) v =
       ri_posted rix v \<union> (if range_hit rix rg v then {eid} else {}))"
proof -
  let ?l = "rg_left rg" and ?a = "ri_valueMin rix" and ?b = "ri_valueMax rix" and ?pls = "ri_items rix"
  let ?r = "rg_right (NewRange ?l (rg_right rg))"
  have t: "tiles ?a ?pls ?b" and m: "MinInt64 \<le> ?a" and rg: "ri_rgEntries rix = []"
    and ve: "\<forall>p\<in>set ?pls. \<forall>e\<in>set (re_entries p). valid_eid e"
    using assms(1) by (auto simp: ri_building_def ri_inv_def)
  have r: "?r = (if ?l = rg_right rg then int64_of (rg_right rg + 1) else rg_right rg)"
    by (simp add: NewRange_def)
  have lr: "?l < ?r \<or> ?r = MinInt64" and ne: "?l \<noteq> ?r"
    using assms(2) int64_of_Suc [of "rg_right rg"]
    by (auto simp: range_ok_def r MaxInt64_def MinInt64_def is_int64_def split: if_splits)
  then have nr: "NewRange ?l ?r = \<lparr>rg_left = ?l, rg_right = ?r\<rparr>" by (simp add: NewRange_def)
  have ix: "IndexingRange rix ?l (rg_right rg) eid =
      (case index_loop ?l ?r \<lparr>rg_left = ?l, rg_right = ?r\<rparr> ?pls of
         Inl e \<Rightarrow> Inl e | Inr ns \<Rightarrow> Inr (rix\<lparr>ri_items := append_marked eid ns\<rparr>))"
    unfolding IndexingRange_def Let_def r [symmetric] nr ..
  have same: ?thesis if "index_loop ?l ?r \<lparr>rg_left = ?l, rg_right = ?r\<rparr> ?pls = Inr (map (\<lambda>p. (p, False)) ?pls)"
    "\<And>v. \<not> range_hit rix rg v"
    using assms(1) that by (simp add: ix exI [of _ ?pls])
  consider (low) "?l < ?a" | (wrap) "?r \<le> ?a" | (go) "?a \<le> ?l" "?l < ?r" using lr m by linarith
  then show ?thesis
  proof cases
    case low
    then show ?thesis using index_loop_low [OF t] by (intro same) (auto simp: range_hit_def)
  next
    case wrap
    then show ?thesis using index_loop_done [OF t] by (intro same) (auto simp: range_hit_def ContainValue_def NewRange_def)
  next
    case go
    obtain ns where ns: "index_loop ?l ?r \<lparr>rg_left = ?l, rg_right = ?r\<rparr> ?pls = Inr ns"
      "tiles ?a (append_marked eid ns) ?b"
      "\<And>v. entries_at (append_marked eid ns) v =
        entries_at ?pls v \<union> (if ?l \<le> v \<and> v < ?r \<and> v < ?b then {eid} else {})"
      "\<forall>p\<in>set (append_marked eid ns). set (re_entries p) \<subseteq> insert eid (\<Union>q\<in>set ?pls. set (re_entries q))"
      using index_loop_spec [OF t go] by blast
    have "\<forall>p\<in>set (append_marked eid ns). \<forall>e\<in>set (re_entries p). valid_eid e"
      using ns(4) ve assms(3) by blast
    moreover have "range_hit rix rg v \<longleftrightarrow> ?l \<le> v \<and> v < ?r \<and> v < ?b" for v
      using go by (auto simp: range_hit_def ContainValue_def NewRange_def)
    ultimately show ?thesis using assms(1) ns(1-3) rg m
      by (intro exI [of _ "append_marked eid ns"]) (simp add: ix ri_building_def ri_inv_def ri_posted_def)
  qed
qed

subsection \<open>Compile and Retrieve\<close>

lemma compile_items_map:
  "fst (compile_items pls mx s) = map (\<lambda>p. p\<lparr>re_entries := sort (re_entries p)\<rparr>) pls"
  by (induction pls mx s rule: compile_items.induct) (auto simp: Let_def split: prod.splits if_splits)

lemma RI_Compile_sel [simp]:
  "ri_items (RI_Compile rix) = []"
  "ri_rgEntries (RI_Compile rix) = map (\<lambda>p. p\<lparr>re_entries := sort (re_entries p)\<rparr>) (ri_items rix)"
  "ri_valueMin (RI_Compile rix) = ri_valueMin rix" "ri_valueMax (RI_Compile rix) = ri_valueMax rix"
proof -
  obtain m mx s where e: "compile_items (ri_items rix) (ri_maxLen rix) 0 = (m, mx, s)"
    by (cases "compile_items (ri_items rix) (ri_maxLen rix) 0") auto
  then have "m = map (\<lambda>p. p\<lparr>re_entries := sort (re_entries p)\<rparr>) (ri_items rix)"
    using compile_items_map [of "ri_items rix" "ri_maxLen rix" 0] by simp
  then show "ri_items (RI_Compile rix) = []"
    "ri_rgEntries (RI_Compile rix) = map (\<lambda>p. p\<lparr>re_entries := sort (re_entries p)\<rparr>) (ri_items rix)"
    "ri_valueMin (RI_Compile rix) = ri_valueMin rix" "ri_valueMax (RI_Compile rix) = ri_valueMax rix"
    by (simp_all add: RI_Compile_def e)
qed

lemma tiles_sorted [simp]: "tiles a (map (\<lambda>p. p\<lparr>re_entries := f (re_entries p)\<rparr>) ps) b = tiles a ps b"
  by (induction ps arbitrary: a) auto

lemma entries_at_sorted [simp]:
  "entries_at (map (\<lambda>p. p\<lparr>re_entries := sort (re_entries p)\<rparr>) ps) = entries_at ps"
  by (auto simp: fun_eq_iff entries_at_def ContainValue_def)

lemma RI_Compile_ok:
  assumes "ri_building rix"
  shows "ri_ready (RI_Compile rix)" "ri_posted (RI_Compile rix) = ri_posted rix"
  using assms by (auto simp: ri_building_def ri_ready_def ri_inv_def ri_posted_def fun_eq_iff)

lemma find_loop_spec:
  assumes "\<And>x. x < k \<Longrightarrow> cmp x > 0" "\<And>x. k \<le> x \<Longrightarrow> x < n \<Longrightarrow> cmp x \<le> 0" "i \<le> k" "k \<le> j" "j \<le> n"
  shows "find_loop cmp i j = k"
  using assms
proof (induction cmp i j rule: find_loop.induct)
  case (1 cmp i j)
  show ?case
  proof (cases "i < j")
    case True
    let ?h = "(i + j) div 2"
    have h: "i \<le> ?h" "?h < j" using True by auto
    show ?thesis
    proof (cases "cmp ?h > 0")
      case above: True
      then have "?h < k" using 1(4) [of ?h] h 1(7) by (meson leD leI le_less_trans less_le_trans)
      then have "find_loop cmp (?h + 1) j = k" using 1(1) [OF True refl above] 1(3-7) by simp
      then show ?thesis using True above by (subst find_loop.simps) (simp add: Let_def)
    next
      case below: False
      then have "k \<le> ?h" using 1(3) [of ?h] by linarith
      then have "find_loop cmp i ?h = k" using 1(2) [OF True refl below] 1(3-7) h by simp
      then show ?thesis using True below by (subst find_loop.simps) (simp add: Let_def)
    qed
  next
    case False
    then show ?thesis using 1(5,6) by (subst find_loop.simps) simp
  qed
qed

lemma tiles_locate:
  assumes "tiles a ps b" "a \<le> v" "v < b"
  shows "\<exists>k<length ps. ContainValue (ps ! k) v \<and> (\<forall>i<k. rg_right (ps ! i) \<le> v) \<and>
    (\<forall>i. k < i \<longrightarrow> i < length ps \<longrightarrow> v < rg_left (ps ! i)) \<and> entries_at ps v = set (re_entries (ps ! k))"
  using assms
proof (induction ps arbitrary: a)
  case (Cons p ps)
  then have t: "tiles (rg_right p) ps b" by simp
  show ?case
  proof (cases "v < rg_right p")
    case True
    have "v < rg_left (ps ! i)" if "i < length ps" for i
      using tiles_bounds [OF t, of "ps ! i"] True that by force
    moreover have "entries_at ps v = {}" using entries_at_outside [OF t] True by simp
    ultimately show ?thesis using Cons.prems True
      by (intro exI [of _ 0]) (auto simp: ContainValue_def nth_Cons split: nat.splits)
  next
    case False
    then obtain k where k: "k < length ps" "ContainValue (ps ! k) v" "\<forall>i<k. rg_right (ps ! i) \<le> v"
      "\<forall>i. k < i \<longrightarrow> i < length ps \<longrightarrow> v < rg_left (ps ! i)" "entries_at ps v = set (re_entries (ps ! k))"
      using Cons.IH [OF t] Cons.prems(3) by auto
    then show ?thesis using False
      by (intro exI [of _ "Suc k"]) (auto simp: ContainValue_def nth_Cons split: nat.splits)
  qed
qed simp

lemma RI_Retrieve_hit:
  assumes "ri_ready rix" "ri_valueMin rix \<le> v" "v < ri_valueMax rix"
  shows "\<exists>k<length (ri_rgEntries rix). RI_Retrieve rix v = Some k \<and>
    set (re_entries (ri_rgEntries rix ! k)) = ri_posted rix v"
proof -
  let ?ps = "ri_rgEntries rix"
  have t: "tiles (ri_valueMin rix) ?ps (ri_valueMax rix)" and i: "ri_items rix = []"
    using assms(1) by (auto simp: ri_ready_def)
  obtain k where k: "k < length ?ps" "ContainValue (?ps ! k) v" "\<forall>i<k. rg_right (?ps ! i) \<le> v"
    "\<forall>i. k < i \<longrightarrow> i < length ?ps \<longrightarrow> v < rg_left (?ps ! i)" "entries_at ?ps v = set (re_entries (?ps ! k))"
    using tiles_locate [OF t assms(2,3)] by blast
  have c0: "RI_cmp ?ps v k = 0" using k(2) by (simp add: RI_cmp_def Let_def)
  have "RI_cmp ?ps v x > 0" if "x < k" for x
    using k(3) that by (auto simp: RI_cmp_def Let_def ContainValue_def)
  moreover have "RI_cmp ?ps v x \<le> 0" if "k \<le> x" "x < length ?ps" for x
  proof (cases "x = k")
    case False
    then have "v < rg_left (?ps ! x)" using k(4) that by simp
    moreover have "rg_left (?ps ! x) < rg_right (?ps ! x)" using tiles_nonempty [OF t] that(2) by simp
    ultimately show ?thesis by (simp add: RI_cmp_def Let_def ContainValue_def)
  qed (simp add: c0)
  ultimately have "find_loop (RI_cmp ?ps v) 0 (length ?ps) = k"
    using k(1) by (intro find_loop_spec [where n = "length ?ps"]) auto
  then have "RI_Retrieve rix v = Some k"
    using assms(2,3) k(1) c0 by (simp add: RI_Retrieve_def sort_Find_def Let_def)
  then show ?thesis using k(1,5) i by (auto simp: ri_posted_def)
qed

lemma RI_Retrieve_miss:
  assumes "ri_ready rix" "v < ri_valueMin rix \<or> ri_valueMax rix \<le> v"
  shows "RI_Retrieve rix v = None" "ri_posted rix v = {}"
  using assms entries_at_outside [of "ri_valueMin rix" "ri_rgEntries rix" "ri_valueMax rix" v]
  by (auto simp: RI_Retrieve_def ri_ready_def ri_posted_def)

subsection \<open>Properties\<close>



text \<open>
  C17: After compiling, the binary search of \<^verbatim>\<open>Retrieve\<close> finds the one interval that contains a
  value, whose sorted entries are those indexed at the value; outside of the domain it finds
  none.
\<close>

theorem RI_Retrieve_finds:
  assumes "ri_building rix"
  shows "case RI_Retrieve (RI_Compile rix) v of
      None \<Rightarrow> ri_posted rix v = {} \<and> (v < ri_valueMin rix \<or> ri_valueMax rix \<le> v)
    | Some k \<Rightarrow> k < length (ri_rgEntries (RI_Compile rix)) \<and>
        sorted (re_entries (ri_rgEntries (RI_Compile rix) ! k)) \<and>
        set (re_entries (ri_rgEntries (RI_Compile rix) ! k)) = ri_posted rix v"
proof -
  note C = RI_Compile_ok [OF assms]
  have mm: "ri_valueMin (RI_Compile rix) = ri_valueMin rix" "ri_valueMax (RI_Compile rix) = ri_valueMax rix" by simp_all
  show ?thesis
  proof (cases "ri_valueMin rix \<le> v \<and> v < ri_valueMax rix")
    case True
    then obtain k where "k < length (ri_rgEntries (RI_Compile rix))" "RI_Retrieve (RI_Compile rix) v = Some k"
      "set (re_entries (ri_rgEntries (RI_Compile rix) ! k)) = ri_posted rix v"
      using RI_Retrieve_hit [OF C(1), of v] C(2) mm by auto
    then show ?thesis using C(1) by (simp add: ri_ready_def)
  next
    case False
    then show ?thesis using RI_Retrieve_miss [OF C(1), of v] C(2) mm by auto
  qed
qed

theorem RI_Retrieve_finds_witness:
  "\<exists>rix. NewRangeIdx 0 100 = Inr rix \<and> RI_Retrieve (RI_Compile rix) 100 = None \<and> ri_posted rix 100 = {}"
proof -
  obtain rix where r: "NewRangeIdx 0 100 = Inr rix" "ri_building rix" "ri_valueMin rix = 0" "ri_valueMax rix = 100"
    by (auto simp: NewRangeIdx_def ri_building_def ri_inv_def ri_posted_def NewRangeEntries_def MinInt64_def)
  have "RI_Retrieve (RI_Compile rix) 100 = None" using RI_Retrieve_miss(1) [OF RI_Compile_ok(1) [OF r(2)], of 100] r by simp
  then show ?thesis using RI_Retrieve_finds [OF r(2), of 100] r(1) by auto
qed

end
