(* ===== verification/RangeParser.thy ===== *)
theory RangeParser
  imports Parser
begin

text \<open>
  Model of \<^verbatim>\<open>parser/range_parser.go\<close>: descriptions \<^verbatim>\<open>start:end:step\<close> and the parser that
  enumerates them. The enumeration is a \<open>partial_function (option)\<close> because a step that is
  not positive, or an end close to the largest \<^verbatim>\<open>int64\<close>, makes the loop run forever; \<open>None\<close> is
  such a run.
\<close>

subsection \<open>Descriptions\<close>

record RangeDesc =
  rd_start :: int
  rd_end :: int
  rd_step :: int

text \<open>\<^verbatim>\<open>strings.Split(v, ":")\<close>.\<close>

fun split_on :: "char \<Rightarrow> string \<Rightarrow> string list" where
  "split_on c [] = [[]]"
| "split_on c (x # xs) =
     (if x = c then [] # split_on c xs
      else (case split_on c xs of [] \<Rightarrow> [[x]] | w # ws \<Rightarrow> (x # w) # ws))"

definition NewRangeDesc :: "string \<Rightarrow> RangeDesc option" where
  "NewRangeDesc v =
     (let vs = split_on (CHR '':'') v
      in if length vs < 2 then None
         else case ParseInt (vs ! 1) of
                None \<Rightarrow> None
              | Some e \<Rightarrow>
                  (case ParseInt (vs ! 0) of
                     None \<Rightarrow> None
                   | Some s \<Rightarrow>
                       (if length vs \<le> 2 then Some \<lparr>rd_start = s, rd_end = e, rd_step = 1\<rparr>
                        else case ParseInt (vs ! 2) of
                               None \<Rightarrow> None
                             | Some st \<Rightarrow> Some \<lparr>rd_start = s, rd_end = e, rd_step = st\<rparr>)))"

text \<open>The third result is the start again, as in the source.\<close>

definition RangeDesc_Values :: "RangeDesc \<Rightarrow> int \<times> int \<times> int" where
  "RangeDesc_Values rgd = (rd_start rgd, rd_end rgd, rd_start rgd)"

subsection \<open>NumberRangeParser\<close>

text \<open>\<^verbatim>\<open>for s := start; s <= end; s += step\<close>, with the wrap-around of \<^verbatim>\<open>int64\<close>.\<close>

partial_function (option) range_values :: "int \<Rightarrow> int \<Rightarrow> int \<Rightarrow> u64 list option" where
  "range_values s e step =
     (if s \<le> e
      then Option.bind (range_values (int64_of (s + step)) e step) (\<lambda>r. Some (word_of_int s # r))
      else Some [])"

declare range_values.simps [code]

text \<open>The outer option is termination; \<open>Inl\<close> is the error \<^verbatim>\<open>ErrBadRangeValue\<close>.\<close>

definition ErrBadRangeValue :: gerr where
  "ErrBadRangeValue = Err ''NumberRangeParser need: start:end:step''"

definition NRP_string :: "string \<Rightarrow> u64 list res option" where
  "NRP_string v =
     (case NewRangeDesc v of
        None \<Rightarrow> Some (Inl ErrBadRangeValue)
      | Some opt \<Rightarrow> map_option Inr (range_values (rd_start opt) (rd_end opt) (rd_step opt)))"

fun NRP_strings :: "string list \<Rightarrow> u64 list res option" where
  "NRP_strings [] = Some (Inr [])"
| "NRP_strings (s # ss) =
     (case NRP_string s of
        None \<Rightarrow> None
      | Some (Inl e) \<Rightarrow> Some (Inl e)
      | Some (Inr r) \<Rightarrow>
          (case NRP_strings ss of
             None \<Rightarrow> None | Some (Inl e) \<Rightarrow> Some (Inl e) | Some (Inr rs) \<Rightarrow> Some (Inr (r @ rs))))"

fun NRP_anys :: "gval list \<Rightarrow> u64 list res option" where
  "NRP_anys [] = Some (Inr [])"
| "NRP_anys (si # sis) =
     (case si of
        VStr s \<Rightarrow>
          (case NRP_string s of
             None \<Rightarrow> None
           | Some (Inl e) \<Rightarrow> Some (Inl e)
           | Some (Inr r) \<Rightarrow>
               (case NRP_anys sis of
                  None \<Rightarrow> None | Some (Inl e) \<Rightarrow> Some (Inl e) | Some (Inr rs) \<Rightarrow> Some (Inr (r @ rs))))
      | _ \<Rightarrow> Some (Inl ErrBadRangeValue))"

fun NRP_ParseValue :: "gval \<Rightarrow> u64 list res option" where
  "NRP_ParseValue (VStr v) = NRP_string v"
| "NRP_ParseValue (VStrS s) = NRP_strings (elems s)"
| "NRP_ParseValue (VAnyS s) = NRP_anys (elems s)"
| "NRP_ParseValue _ = Some (Inl ErrBadRangeValue)"

text \<open>
  \<open>ParseAssign\<close>: the loop over a slice collects its numbers and then falls out of the switch
  into the type error, so only a single number is ever accepted.
\<close>

definition slice_elems :: "gval \<Rightarrow> gval list option" where
  "slice_elems v =
     (case v of
        VStrS s \<Rightarrow> Some (map VStr (elems s))
      | VJsonS s \<Rightarrow> Some (map VJson (elems s))
      | VIntS k s \<Rightarrow> Some (map (VInt k) (elems s))
      | VFltS k s \<Rightarrow> Some (map (VFlt k) (elems s))
      | VAnyS s \<Rightarrow> Some (elems s)
      | _ \<Rightarrow> None)"

definition NRP_ParseAssign :: "(string \<Rightarrow> gfloat option) \<Rightarrow> gval \<Rightarrow> u64 list res" where
  "NRP_ParseAssign pf v =
     (case NilInterface v of
        Inl e \<Rightarrow> Inl e
      | Inr True \<Rightarrow> Inr []
      | Inr False \<Rightarrow>
          (case v of
             VInt _ _ \<Rightarrow> (case ParseIntegerNumber pf v True of Inl e \<Rightarrow> Inl e | Inr n \<Rightarrow> Inr [word_of_int n])
           | VFlt _ _ \<Rightarrow> (case ParseIntegerNumber pf v True of Inl e \<Rightarrow> Inl e | Inr n \<Rightarrow> Inr [word_of_int n])
           | VJson _ \<Rightarrow> (case ParseIntegerNumber pf v True of Inl e \<Rightarrow> Inl e | Inr n \<Rightarrow> Inr [word_of_int n])
           | _ \<Rightarrow>
               (case slice_elems v of
                  None \<Rightarrow> Inl (Err ''not suppoted type'')
                | Some vs \<Rightarrow>
                    (case map_res (\<lambda>x. ParseIntegerNumber pf x True) vs of
                       Inl e \<Rightarrow> Inl e
                     | Inr _ \<Rightarrow> Inl (Err ''not suppoted type'')))))"

subsection \<open>Laws\<close>

lemma split_on_Nil [simp]: "split_on c s \<noteq> []"
  by (induction c s rule: split_on.induct) (auto split: list.splits)

lemma split_on_no_sep: "c \<notin> set s \<Longrightarrow> split_on c s = [s]"
  by (induction c s rule: split_on.induct) auto

lemma split_on_append: "c \<notin> set s \<Longrightarrow> split_on c (s @ c # t) = s # split_on c t"
  by (induction s) auto

lemma is_digit_not_colon: "is_digit x \<Longrightarrow> x \<noteq> CHR '':''"
  by (auto simp: is_digit_def)

lemma int_dec_no_colon: "CHR '':'' \<notin> set (int_dec i)"
proof -
  have "list_all is_digit (nat_dec n)" for n
    using parse_nat_dec [of n] by (auto simp: parse_digits_def split: if_splits)
  then have "CHR '':'' \<notin> set (nat_dec n)" for n
    using is_digit_not_colon by (auto simp: list_all_iff)
  then show ?thesis by (simp add: int_dec_def)
qed

lemma NewRangeDesc_dec:
  assumes "is_int64 s" "is_int64 e" "is_int64 st"
  shows "NewRangeDesc (int_dec s @ CHR '':'' # int_dec e @ CHR '':'' # int_dec st) =
      Some \<lparr>rd_start = s, rd_end = e, rd_step = st\<rparr>"
    and "NewRangeDesc (int_dec s @ CHR '':'' # int_dec e) = Some \<lparr>rd_start = s, rd_end = e, rd_step = 1\<rparr>"
  using assms int_dec_no_colon
  by (simp_all add: NewRangeDesc_def split_on_append split_on_no_sep ParseInt_int_dec is_int64_def)

text \<open>The progression the loop enumerates when nothing wraps around.\<close>

lemma range_values_progression:
  assumes "is_int64 s" "1 \<le> step" "is_int64 (e + step)"
  shows "range_values s e step =
    Some (map (\<lambda>i. word_of_int (s + int i * step)) [0..<nat ((e - s) div step + 1)])"
  using assms(1)
proof (induction "nat (e + 1 - s)" arbitrary: s rule: less_induct)
  case less
  let ?n = "\<lambda>s. nat ((e - s) div step + 1)"
  show ?case
  proof (cases "s \<le> e")
    case True
    have i: "is_int64 (s + step)" using less.prems assms(2,3) True by (simp add: is_int64_def)
    have "(e - s) div step = (e - (s + step)) div step + 1"
      using assms(2) div_add_self2 [of step "e - s - step"] by (simp add: algebra_simps)
    moreover have "0 \<le> (e - s) div step" using True assms(2) by (simp add: pos_imp_zdiv_nonneg_iff)
    ultimately have n: "?n s = Suc (?n (s + step))" by linarith
    have "range_values (s + step) e step =
        Some (map (\<lambda>i. word_of_int (s + step + int i * step)) [0..<?n (s + step)])"
      using less.hyps [of "s + step"] i True assms(2) by simp
    moreover have "map (\<lambda>i. word_of_int (s + int i * step) :: u64) [0..<Suc m] =
        word_of_int s # map (\<lambda>i. word_of_int (s + step + int i * step)) [0..<m]" for m
      by (simp add: map_upt_Suc algebra_simps del: upt_Suc)
    ultimately show ?thesis using True i n by (subst range_values.simps) simp
  next
    case False
    then have "(e - s) div step < 0" using assms(2) by (simp add: pos_imp_zdiv_neg_iff)
    then show ?thesis using False by (subst range_values.simps) simp
  qed
qed

lemma range_values_stuck:
  assumes "range_values s e step = Some r"
  shows "is_int64 s \<longrightarrow> step = 0 \<longrightarrow> e < s"
proof (rule range_values.raw_induct [OF _ assms], intro impI)
  fix f s e step r
  assume IH: "\<And>s e step r. f s e step = Some r \<Longrightarrow> is_int64 s \<longrightarrow> step = 0 \<longrightarrow> e < s"
    and f: "(if s \<le> e then Option.bind (f (int64_of (s + step)) e step) (\<lambda>r. Some (word_of_int s # r))
       else Some []) = Some r"
    and z: "is_int64 s" "step = (0::int)"
  show "e < s"
  proof (rule ccontr)
    assume "\<not> e < s"
    then obtain r' where "f s e 0 = Some r'" using f z by (cases "f s e 0") auto
    then show False using IH z \<open>\<not> e < s\<close> by blast
  qed
qed

subsection \<open>Properties\<close>

text \<open>
  C27: A range description printed as \<^verbatim>\<open>start:end\<close> or \<^verbatim>\<open>start:end:step\<close> parses back to its parts.
\<close>

theorem RangeDesc_round_trip:
  assumes "is_int64 s" "is_int64 e" "is_int64 st"
  shows "NewRangeDesc (int_dec s @ CHR '':'' # int_dec e @ CHR '':'' # int_dec st) =
      Some \<lparr>rd_start = s, rd_end = e, rd_step = st\<rparr> \<and>
    NewRangeDesc (int_dec s @ CHR '':'' # int_dec e) = Some \<lparr>rd_start = s, rd_end = e, rd_step = 1\<rparr>"
  using NewRangeDesc_dec [OF assms] by simp

theorem RangeDesc_round_trip_witness:
  "NewRangeDesc ''-3:12:5'' = Some \<lparr>rd_start = -3, rd_end = 12, rd_step = 5\<rparr> \<and>
   NewRangeDesc ''-3:12'' = Some \<lparr>rd_start = -3, rd_end = 12, rd_step = 1\<rparr>"
proof -
  have d: "int_dec (-3) = ''-3''" "int_dec 12 = ''12''" "int_dec 5 = ''5''" by code_simp+
  show ?thesis using RangeDesc_round_trip [of "-3" 12 5] by (simp add: d is_int64_def)
qed

text \<open>
  C28: With a positive step that cannot step over the largest integer, the loop of the range
  parser ends and enumerates the arithmetic progression from start to end.
\<close>

theorem range_values_enumerates:
  assumes "is_int64 s" "1 \<le> step" "is_int64 (e + step)"
  shows "range_values s e step =
    Some (map (\<lambda>i. word_of_int (s + int i * step)) [0..<nat ((e - s) div step + 1)])"
  using assms by (rule range_values_progression)

theorem range_values_enumerates_witness: "range_values 1 10 4 = Some [1, 5, 9]"
  using range_values_enumerates [of 1 4 10] by (simp add: is_int64_def upt_rec)

text \<open>
  C29: With step 0, which the parser accepts, the loop never ends when there is a value to
  enumerate.
\<close>

theorem range_values_zero_step_diverges:
  assumes "is_int64 s" "s \<le> e"
  shows "range_values s e 0 = None"
  using range_values_stuck [of s e 0] assms by (cases "range_values s e 0") auto

theorem range_values_zero_step_diverges_witness: "range_values 1 3 0 = None"
  using range_values_zero_step_diverges [of 1 3] by (simp add: is_int64_def)

end
