(* ===== verification/RangeHolder.thy ===== *)
theory RangeHolder
  imports RangeIdx RangeParser PostingMap
begin

text \<open>
  Model of \<^verbatim>\<open>RangeHolder\<close> (\<^verbatim>\<open>holder/rangeholder/term_ext_range_holder.go\<close>): a holder for one
  numeric field that knows the operators EQ, LT, GT and BETWEEN. Small ranges become single
  values of a hash map, the others go into the interval list of \<open>RangeIdx\<close>. The holder is
  interpreted as \<open>entries_holder\<close>.
\<close>

subsection \<open>State\<close>

text \<open>
  \<^verbatim>\<open>RangeCvtValuesSize\<close> is a float that is only compared with integral sizes, so the model
  keeps its ceiling.
\<close>

record RangeHolderOption =
  EnableFloat2Int :: bool
  RangeCvtValuesSize :: int
  RangeMax :: int
  RangeMin :: int

record RangeHolder =
  rh_debug :: bool
  rh_option :: RangeHolderOption
  rh_maxLen :: int
  rh_avgLen :: int
  rh_rangeIdx :: RangeIdx
  rh_plEntries :: "(int \<times> Entries) list"

definition NewRangeHolderOption :: RangeHolderOption where
  "NewRangeHolderOption =
     \<lparr>EnableFloat2Int = True, RangeCvtValuesSize = 256, RangeMax = MaxInt64, RangeMin = MinInt64\<rparr>"

definition NewNumberExtendRangeHolder ::
  "(RangeHolderOption \<Rightarrow> RangeHolderOption) list \<Rightarrow> RangeHolder res"
where
  "NewNumberExtendRangeHolder fns =
     (let option = foldl (\<lambda>o' fn. fn o') NewRangeHolderOption fns
      in case NewRangeIdx (RangeMin option) (RangeMax option) of
           Inl e \<Rightarrow> Inl e
         | Inr rix \<Rightarrow> Inr \<lparr>rh_debug = False, rh_option = option, rh_maxLen = 0, rh_avgLen = 0, rh_rangeIdx = rix, rh_plEntries = []\<rparr>)"

definition RH_EnableDebug :: "RangeHolder \<Rightarrow> bool \<Rightarrow> RangeHolder" where
  "RH_EnableDebug h debug = h\<lparr>rh_debug := debug\<rparr>"

subsection \<open>Sizes\<close>

text \<open>
  \<^verbatim>\<open>float64(n)\<close> of an integer: rounding to 53 significant bits, half to even. The difference of
  two such values is again an integer, rounded the same way.
\<close>

fun shift53 :: "nat \<Rightarrow> nat" where
  "shift53 m = (if m < 2 ^ 53 then 0 else Suc (shift53 (m div 2)))"

declare shift53.simps [simp del]

definition round_at :: "nat \<Rightarrow> int \<Rightarrow> int" where
  "round_at e n =
     (let q = n div 2 ^ e; r = n mod 2 ^ e; half = 2 ^ (e - 1)
      in if r > half \<or> (r = half \<and> e > 0 \<and> odd q) then (q + 1) * 2 ^ e else q * 2 ^ e)"

definition float64_int :: "int \<Rightarrow> int" where
  "float64_int n = round_at (shift53 (nat \<bar>n\<bar>)) n"

definition Range_Size :: "Range \<Rightarrow> int" where
  "Range_Size rg = float64_int (float64_int (rg_right rg) - float64_int (rg_left rg))"

subsection \<open>Parsing\<close>

text \<open>A value of any other type leaves both bounds at zero.\<close>

definition ParseBetween :: "Values \<Rightarrow> Range res" where
  "ParseBetween value =
     (let bounds =
        (case value of
           VArr2I a b \<Rightarrow> Inr (int64_of a, int64_of b)
         | VIntS KInt64 s \<Rightarrow>
             (case elems s of [a, b] \<Rightarrow> Inr (int64_of a, int64_of b)
              | _ \<Rightarrow> Inl (Err ''operator Between need two''))
         | VStr v \<Rightarrow>
             (case NewRangeDesc v of
                Some rgDesc \<Rightarrow> (case RangeDesc_Values rgDesc of (l, r, _) \<Rightarrow> Inr (l, r))
              | None \<Rightarrow> Inl (Err ''not a valid range description, need x:y''))
         | _ \<Rightarrow> Inr (0, 0))
      in case bounds of
           Inl e \<Rightarrow> Inl e
         | Inr (left, right) \<Rightarrow>
             (if left > right then Inl (Err ''bad range'') else Inr (NewRange left right)))"

definition ParseRange :: "(string \<Rightarrow> gfloat option) \<Rightarrow> ValueOpt \<Rightarrow> Values \<Rightarrow> bool \<Rightarrow> Range res" where
  "ParseRange pf opt value enableF2I =
     (if opt = ValueOptBetween then ParseBetween value
      else if opt = ValueOptGT \<or> opt = ValueOptLT
      then (case ParseIntegerNumber pf value enableF2I of
              Inl e \<Rightarrow> Inl (Err ''lt/gt operator need interger'')
            | Inr number \<Rightarrow>
                (if opt = ValueOptLT then Inr (NewRange MinInt64 number)
                 else Inr (NewRange (int64_of (number + 1)) MaxInt64)))
      else Inl (Err ''not supported operator''))"

subsection \<open>Operations\<close>

text \<open>
  \<^verbatim>\<open>make([]int64, 0, int(rg.Size()))\<close> panics when the size is negative, which happens for the
  wrapped range \<open>[MaxInt64, MinInt64)\<close>.
\<close>

definition RH_BuildFieldIndexingData ::
  "(string \<Rightarrow> gfloat option) \<Rightarrow> RangeHolder \<Rightarrow> FieldDesc \<Rightarrow> BoolValues \<Rightarrow> IndexingData res"
where
  "RH_BuildFieldIndexingData pf h fd bv =
     (if Operator bv = ValueOptEQ
      then (case ParseIntegers pf (Value bv) (EnableFloat2Int (rh_option h)) of
              Inl (Err m) \<Rightarrow> Inl (Err (''parse fail, err:'' @ m))
            | Inl (Panic m) \<Rightarrow> Inl (Panic m)
            | Inr ids \<Rightarrow> Inr (RangeTxData ValueOptEQ None ids))
      else if Operator bv = ValueOptLT \<or> Operator bv = ValueOptGT \<or> Operator bv = ValueOptBetween
      then (case ParseRange pf (Operator bv) (Value bv) (EnableFloat2Int (rh_option h)) of
              Inl e \<Rightarrow> Inl e
            | Inr rg \<Rightarrow>
                (if Range_Size rg < RangeCvtValuesSize (rh_option h)
                 then (if Range_Size rg < 0 then Inl (Panic ''makeslice: cap out of range'')
                       else Inr (RangeTxData ValueOptEQ None [rg_left rg .. rg_right rg - 1]))
                 else Inr (RangeTxData ValueOptBetween (Some rg) [])))
      else Inl (Err ''unsupport Operator''))"

definition RH_CommitFieldIndexingData :: "RangeHolder \<Rightarrow> FieldIndexingData \<Rightarrow> RangeHolder res" where
  "RH_CommitFieldIndexingData h tx =
     (case tx_Data tx of
        None \<Rightarrow> Inr h
      | Some (StrTokenData _) \<Rightarrow> Inl (Panic ''interface conversion'')
      | Some (AcHolderTxData _) \<Rightarrow> Inl (Panic ''interface conversion'')
      | Some (OptimizedRangeTxData _ _ _) \<Rightarrow> Inl (Panic ''interface conversion'')
      | Some (RangeTxData op rg eqValues) \<Rightarrow>
          (if op = ValueOptEQ
           then Inr (h\<lparr>rh_plEntries := append_entries (tx_EID tx) (DistinctInteger eqValues) (rh_plEntries h)\<rparr>)
           else if op = ValueOptGT \<or> op = ValueOptLT \<or> op = ValueOptBetween
           then (case rg of
                   None \<Rightarrow> Inl (Panic ''nil pointer dereference: RgValue'')
                 | Some r \<Rightarrow>
                     (case IndexingRange (rh_rangeIdx h) (rg_left r) (rg_right r) (tx_EID tx) of
                        Inl e \<Rightarrow> Inl e
                      | Inr rix \<Rightarrow> Inr (h\<lparr>rh_rangeIdx := rix\<rparr>)))
           else Inl (Err ''what happened'')))"

definition RH_CompileEntries :: "RangeHolder \<Rightarrow> RangeHolder res" where
  "RH_CompileEntries h =
     (case sort_entries (rh_plEntries h) (rh_maxLen h) 0 of
        (m, mx, tot) \<Rightarrow>
          Inr (h\<lparr>rh_plEntries := m, rh_maxLen := mx,
                 rh_avgLen := (if length (rh_plEntries h) > 0 then tot div int (length (rh_plEntries h))
                               else rh_avgLen h),
                 rh_rangeIdx := RI_Compile (rh_rangeIdx h)\<rparr>))"

text \<open>
  The loop of \<open>GetEntries\<close>: the cursors of the values, and the map from the intervals found
  (by index) to the last value found in them.
\<close>

fun RH_scan ::
  "RangeHolder \<Rightarrow> FieldDesc \<Rightarrow> int list \<Rightarrow> EntriesCursor list \<Rightarrow> (nat \<times> int) list \<Rightarrow>
   EntriesCursor list \<times> (nat \<times> int) list"
where
  "RH_scan h fd [] r rangeResults = (r, rangeResults)"
| "RH_scan h fd (i # ids) r rangeResults =
     (let r' = (case map_of (rh_plEntries h) i of
                  Some entries \<Rightarrow>
                    (if length entries > 0
                     then r @ [NewEntriesCursor (NewQKey (fd_Field fd) (QInt i)) entries] else r)
                | None \<Rightarrow> r);
          rr' = (case RI_Retrieve (rh_rangeIdx h) i of
                   Some k \<Rightarrow>
                     (if length (re_entries (ri_rgEntries (rh_rangeIdx h) ! k)) > 0
                      then alist_put k i rangeResults else rangeResults)
                 | None \<Rightarrow> rangeResults)
      in RH_scan h fd ids r' rr')"

definition RH_GetEntries ::
  "(string \<Rightarrow> gfloat option) \<Rightarrow> RangeHolder \<Rightarrow> FieldDesc \<Rightarrow> Values \<Rightarrow> EntriesCursor list res"
where
  "RH_GetEntries pf h fd assigns =
     (case ParseIntegers pf assigns (EnableFloat2Int (rh_option h)) of
        Inl e \<Rightarrow> Inl e
      | Inr ids \<Rightarrow>
          (if length ids \<le> 0 then Inr []
           else let (r, rangeResults) = RH_scan h fd ids [] []
                in Inr (r @ map (\<lambda>(k, i). NewEntriesCursor (NewQKey (fd_Field fd) (QInt i))
                                    (re_entries (ri_rgEntries (rh_rangeIdx h) ! k))) rangeResults)))"

text \<open>
  The JSON form has the exported fields only: of a range it keeps that it is there, and
  decoding gives it the bounds zero.
\<close>

definition RangeTxData_Encode :: "codec \<Rightarrow> ValueOpt \<Rightarrow> Range option \<Rightarrow> int list \<Rightarrow> bytes res" where
  "RangeTxData_Encode lib op rg eqs = jsonMarshal lib (op, rg \<noteq> None, eqs)"

definition RH_DecodeFieldIndexingData :: "codec \<Rightarrow> bytes \<Rightarrow> IndexingData res" where
  "RH_DecodeFieldIndexingData lib data =
     (case jsonUnmarshal lib data of
        Inl e \<Rightarrow> Inl e
      | Inr (op, has_range, eqs) \<Rightarrow>
          Inr (RangeTxData op (if has_range then Some \<lparr>rg_left = 0, rg_right = 0\<rparr> else None) eqs))"

subsection \<open>What the holder holds\<close>

definition rh_building :: "RangeHolder \<Rightarrow> bool" where
  "rh_building h \<longleftrightarrow> posts_ok (rh_plEntries h) \<and> ri_building (rh_rangeIdx h)"

definition rh_ready :: "RangeHolder \<Rightarrow> bool" where
  "rh_ready h \<longleftrightarrow> posts_sorted (rh_plEntries h) \<and> ri_ready (rh_rangeIdx h)"

definition ri_blank :: "RangeIdx \<Rightarrow> RangeIdx" where
  "ri_blank rix =
     \<lparr>ri_compiled = False, ri_maxLen = 0, ri_avgLen = 0, ri_valueMin = ri_valueMin rix,
      ri_valueMax = ri_valueMax rix, ri_items = [NewRangeEntries (ri_valueMin rix) (ri_valueMax rix)],
      ri_rgEntries = []\<rparr>"

definition rh_blank :: "RangeHolder \<Rightarrow> RangeHolder" where
  "rh_blank h = h\<lparr>rh_maxLen := 0, rh_avgLen := 0, rh_plEntries := [], rh_rangeIdx := ri_blank (rh_rangeIdx h)\<rparr>"

definition rh_slot :: "RangeHolder \<Rightarrow> FieldDesc \<Rightarrow> nat" where
  "rh_slot h fd = 0"

definition rh_takes :: "RangeHolder \<Rightarrow> IndexingData \<Rightarrow> bool" where
  "rh_takes h d \<longleftrightarrow>
     (\<exists>op rg eqs. d = RangeTxData op rg eqs \<and>
        (op = ValueOptEQ \<or>
         ((op = ValueOptGT \<or> op = ValueOptLT \<or> op = ValueOptBetween) \<and> (\<exists>r. rg = Some r \<and> range_ok r))))"

definition rh_ids :: "(string \<Rightarrow> gfloat option) \<Rightarrow> RangeHolder \<Rightarrow> Values \<Rightarrow> int set" where
  "rh_ids pf h v =
     (case ParseIntegers pf v (EnableFloat2Int (rh_option h)) of Inl _ \<Rightarrow> {} | Inr ids \<Rightarrow> set ids)"

definition rh_answers :: "(string \<Rightarrow> gfloat option) \<Rightarrow> RangeHolder \<Rightarrow> FieldDesc \<Rightarrow> Values \<Rightarrow> bool" where
  "rh_answers pf h fd v \<longleftrightarrow> \<not> isl (ParseIntegers pf v (EnableFloat2Int (rh_option h)))"

definition rh_data_hit :: "RangeHolder \<Rightarrow> IndexingData \<Rightarrow> int \<Rightarrow> bool" where
  "rh_data_hit h d i =
     (case d of
        RangeTxData op rg eqs \<Rightarrow>
          if op = ValueOptEQ then i \<in> set eqs
          else (case rg of None \<Rightarrow> False | Some r \<Rightarrow> range_hit (rh_rangeIdx h) r i)
      | _ \<Rightarrow> False)"

definition rh_hits ::
  "(string \<Rightarrow> gfloat option) \<Rightarrow> RangeHolder \<Rightarrow> FieldDesc \<Rightarrow> IndexingData \<Rightarrow> Values \<Rightarrow> bool"
where
  "rh_hits pf h fd d v \<longleftrightarrow> (\<exists>i\<in>rh_ids pf h v. rh_data_hit h d i)"

definition rh_at :: "RangeHolder \<Rightarrow> int \<Rightarrow> EntryID set" where
  "rh_at h i = key_entries (rh_plEntries h) i \<union> ri_posted (rh_rangeIdx h) i"

definition rh_posted ::
  "(string \<Rightarrow> gfloat option) \<Rightarrow> RangeHolder \<Rightarrow> FieldDesc \<Rightarrow> Values \<Rightarrow> EntryID set"
where
  "rh_posted pf h fd v = (\<Union>i\<in>rh_ids pf h v. rh_at h i)"

subsection \<open>Building data\<close>

lemma is_int64_bounds [simp]: "is_int64 MinInt64" "is_int64 MaxInt64"
  by (simp_all add: is_int64_def MinInt64_def MaxInt64_def)

lemma is_int64_le: "is_int64 x \<Longrightarrow> MinInt64 \<le> x" "is_int64 x \<Longrightarrow> x \<le> MaxInt64"
  by (simp_all add: is_int64_def MinInt64_def MaxInt64_def)

lemma NewRangeDesc_is_int64:
  assumes "NewRangeDesc v = Some d"
  shows "is_int64 (rd_start d)" "is_int64 (rd_end d)"
  using assms by (auto simp: NewRangeDesc_def Let_def ParseInt_is_int64 split: if_splits option.splits)

lemma ParseBetween_ok:
  assumes "ParseBetween v = Inr rg"
  shows "range_ok rg"
proof -
  have "is_int64 0" by (simp add: is_int64_def)
  then show ?thesis using assms NewRangeDesc_is_int64
    by (auto simp: ParseBetween_def Let_def RangeDesc_Values_def
        split: gval.splits ikind.splits list.splits option.splits sum.splits if_splits prod.splits
        intro!: NewRange_ok)
qed

lemma ParseRange_ok:
  assumes "ParseRange pf op v f2i = Inr rg"
  shows "range_ok rg"
  using assms ParseBetween_ok ParseIntegerNumber_is_int64 is_int64_le is_int64_of
  by (auto simp: ParseRange_def split: if_splits sum.splits intro!: NewRange_ok)

lemma RH_build_takes: "RH_BuildFieldIndexingData pf h fd bv = Inr d \<Longrightarrow> rh_takes h d"
  using ParseRange_ok
  by (fastforce simp: RH_BuildFieldIndexingData_def rh_takes_def
      split: if_splits sum.splits gerr.splits)

subsection \<open>Committing and compiling\<close>

lemma RH_commit_at:
  assumes "rh_building h" "tx_Data tx = Some d" "rh_takes h d" "valid_eid (tx_EID tx)"
  shows "\<exists>h'. RH_CommitFieldIndexingData h tx = Inr h' \<and> rh_building h' \<and> rh_blank h' = rh_blank h \<and>
    (\<forall>i. rh_at h' i = rh_at h i \<union> (if rh_data_hit h d i then {tx_EID tx} else {}))"
proof -
  obtain op rg eqs where d: "d = RangeTxData op rg eqs"
    and op: "op = ValueOptEQ \<or>
      ((op = ValueOptGT \<or> op = ValueOptLT \<or> op = ValueOptBetween) \<and> (\<exists>r. rg = Some r \<and> range_ok r))"
    using assms(3) by (auto simp: rh_takes_def)
  show ?thesis
  proof (cases "op = ValueOptEQ")
    case True
    let ?h = "h\<lparr>rh_plEntries := append_entries (tx_EID tx) (DistinctInteger eqs) (rh_plEntries h)\<rparr>"
    have "RH_CommitFieldIndexingData h tx = Inr ?h"
      using assms(2) True by (simp add: RH_CommitFieldIndexingData_def d)
    moreover have "rh_building ?h" using assms(1,4) by (simp add: rh_building_def append_entries_ok)
    moreover have "rh_at ?h i = rh_at h i \<union> (if rh_data_hit h d i then {tx_EID tx} else {})" for i
      using True by (auto simp: rh_at_def append_entries_key rh_data_hit_def d DistinctInteger_def)
    ultimately show ?thesis by (intro exI [of _ ?h]) (simp add: rh_blank_def)
  next
    case False
    then obtain r where r: "rg = Some r" "range_ok r" "op = ValueOptGT \<or> op = ValueOptLT \<or> op = ValueOptBetween"
      using op by auto
    obtain items where it: "IndexingRange (rh_rangeIdx h) (rg_left r) (rg_right r) (tx_EID tx) =
        Inr (rh_rangeIdx h\<lparr>ri_items := items\<rparr>)" "ri_building (rh_rangeIdx h\<lparr>ri_items := items\<rparr>)"
      "\<And>v. ri_posted (rh_rangeIdx h\<lparr>ri_items := items\<rparr>) v =
         ri_posted (rh_rangeIdx h) v \<union> (if range_hit (rh_rangeIdx h) r v then {tx_EID tx} else {})"
      using IndexingRange_ok [of "rh_rangeIdx h" r "tx_EID tx"] r(2) assms(1,4) by (auto simp: rh_building_def)
    let ?h = "h\<lparr>rh_rangeIdx := rh_rangeIdx h\<lparr>ri_items := items\<rparr>\<rparr>"
    have "RH_CommitFieldIndexingData h tx = Inr ?h"
      using assms(2) False r it(1) by (simp add: RH_CommitFieldIndexingData_def d)
    moreover have "rh_building ?h" using assms(1) it(2) by (simp add: rh_building_def)
    moreover have "rh_at ?h i = rh_at h i \<union> (if rh_data_hit h d i then {tx_EID tx} else {})" for i
      using False r(1) by (auto simp: rh_at_def rh_data_hit_def d it(3))
    ultimately show ?thesis by (intro exI [of _ ?h]) (simp add: rh_blank_def ri_blank_def)
  qed
qed

lemma RH_commit_ok:
  assumes "rh_building h" "tx_Data tx = Some d" "rh_takes h d" "valid_eid (tx_EID tx)"
  shows "\<exists>h'. RH_CommitFieldIndexingData h tx = Inr h' \<and> rh_building h' \<and> rh_blank h' = rh_blank h \<and>
    (\<forall>fd v. rh_posted pf h' fd v = rh_posted pf h fd v \<union>
       (if rh_slot h fd = rh_slot h (tx_field tx) \<and> rh_hits pf h fd d v then {tx_EID tx} else {}))"
proof -
  obtain h' where h': "RH_CommitFieldIndexingData h tx = Inr h'" "rh_building h'" "rh_blank h' = rh_blank h"
    "\<And>i. rh_at h' i = rh_at h i \<union> (if rh_data_hit h d i then {tx_EID tx} else {})"
    using RH_commit_at [OF assms] by blast
  have "rh_option h' = rh_option h" using arg_cong [OF h'(3), of rh_option] by (simp add: rh_blank_def)
  then have "rh_ids pf h' v = rh_ids pf h v" for v by (simp add: rh_ids_def)
  then have "rh_posted pf h' fd v = rh_posted pf h fd v \<union>
      (if rh_slot h fd = rh_slot h (tx_field tx) \<and> rh_hits pf h fd d v then {tx_EID tx} else {})" for fd v
    by (auto simp: rh_posted_def h'(4) rh_hits_def rh_slot_def split: if_splits)
  then show ?thesis using h' by blast
qed

lemma RH_compile_ok:
  assumes "rh_building h"
  shows "\<exists>h'. RH_CompileEntries h = Inr h' \<and> rh_ready h' \<and> rh_blank h' = rh_blank h \<and>
    rh_posted pf h' = rh_posted pf h"
proof -
  obtain m mx tot where e: "sort_entries (rh_plEntries h) (rh_maxLen h) 0 = (m, mx, tot)"
    by (cases "sort_entries (rh_plEntries h) (rh_maxLen h) 0") auto
  then have m: "m = map (\<lambda>(t, es). (t, sort es)) (rh_plEntries h)" by (rule sort_entriesD)
  obtain h' where h': "RH_CompileEntries h = Inr h'" by (simp add: RH_CompileEntries_def e)
  then have sel: "rh_plEntries h' = m" "rh_rangeIdx h' = RI_Compile (rh_rangeIdx h)" "rh_option h' = rh_option h"
    by (auto simp: RH_CompileEntries_def e)
  have "rh_ready h'"
    using assms by (simp add: rh_ready_def rh_building_def sel m posts_sorted_sort RI_Compile_ok)
  moreover have "rh_blank h' = rh_blank h"
    using h' by (auto simp: RH_CompileEntries_def e rh_blank_def ri_blank_def)
  moreover have "rh_posted pf h' = rh_posted pf h"
    using RI_Compile_ok(2) assms
    by (simp add: fun_eq_iff rh_posted_def rh_ids_def rh_at_def sel m rh_building_def)
  ultimately show ?thesis using h' by blast
qed

subsection \<open>Querying\<close>

lemma RH_scan_spec:
  assumes "rh_ready h" "RH_scan h fd ids r rr = (r', rr')"
    and "\<forall>c\<in>set r. ec_ok c \<and> ec_rem c \<noteq> {}"
  shows "\<forall>c\<in>set r'. ec_ok c \<and> ec_rem c \<noteq> {}"
    and "(\<Union>c\<in>set r'. ec_rem c) = (\<Union>c\<in>set r. ec_rem c) \<union> (\<Union>i\<in>set ids. key_entries (rh_plEntries h) i)"
    and "fst ` set rr' = fst ` set rr \<union>
      {k. \<exists>i\<in>set ids. RI_Retrieve (rh_rangeIdx h) i = Some k \<and> re_entries (ri_rgEntries (rh_rangeIdx h) ! k) \<noteq> []}"
proof -
  have "(\<forall>c\<in>set r'. ec_ok c \<and> ec_rem c \<noteq> {}) \<and>
    (\<Union>c\<in>set r'. ec_rem c) = (\<Union>c\<in>set r. ec_rem c) \<union> (\<Union>i\<in>set ids. key_entries (rh_plEntries h) i) \<and>
    fst ` set rr' = fst ` set rr \<union>
      {k. \<exists>i\<in>set ids. RI_Retrieve (rh_rangeIdx h) i = Some k \<and> re_entries (ri_rgEntries (rh_rangeIdx h) ! k) \<noteq> []}"
    using assms(2,3)
  proof (induction ids arbitrary: r rr)
    case (Cons i ids)
    let ?c = "\<lambda>es. NewEntriesCursor (NewQKey (fd_Field fd) (QInt i)) es"
    let ?r = "case map_of (rh_plEntries h) i of Some es \<Rightarrow> if length es > 0 then r @ [?c es] else r | None \<Rightarrow> r"
    let ?rr = "case RI_Retrieve (rh_rangeIdx h) i of Some k \<Rightarrow>
        if length (re_entries (ri_rgEntries (rh_rangeIdx h) ! k)) > 0 then alist_put k i rr else rr | None \<Rightarrow> rr"
    have step: "RH_scan h fd ids ?r ?rr = (r', rr')" using Cons.prems(1) by (simp add: Let_def)
    have cur: "ec_ok (?c es) \<and> ec_rem (?c es) = key_entries (rh_plEntries h) i"
      if "map_of (rh_plEntries h) i = Some es" for es
      using posts_cursor [OF _ that] assms(1) by (auto simp: rh_ready_def)
    have ok: "\<forall>c\<in>set ?r. ec_ok c \<and> ec_rem c \<noteq> {}"
      using Cons.prems(2) cur by (auto split: option.splits if_splits)
    have un: "(\<Union>c\<in>set ?r. ec_rem c) = (\<Union>c\<in>set r. ec_rem c) \<union> key_entries (rh_plEntries h) i"
      using cur by (auto simp: key_entries_def split: option.splits if_splits)
    have ks: "fst ` set ?rr = fst ` set rr \<union> {k. RI_Retrieve (rh_rangeIdx h) i = Some k \<and>
        re_entries (ri_rgEntries (rh_rangeIdx h) ! k) \<noteq> []}"
      by (auto simp: alist_put_def split: option.splits)
    show ?case using Cons.IH [OF step ok] unfolding un ks by auto
  qed simp
  then show "\<forall>c\<in>set r'. ec_ok c \<and> ec_rem c \<noteq> {}"
    "(\<Union>c\<in>set r'. ec_rem c) = (\<Union>c\<in>set r. ec_rem c) \<union> (\<Union>i\<in>set ids. key_entries (rh_plEntries h) i)"
    "fst ` set rr' = fst ` set rr \<union>
      {k. \<exists>i\<in>set ids. RI_Retrieve (rh_rangeIdx h) i = Some k \<and> re_entries (ri_rgEntries (rh_rangeIdx h) ! k) \<noteq> []}"
    by auto
qed

lemma RH_get_ok:
  assumes "rh_ready h" "rh_answers pf h fd v"
  shows "\<exists>cs. RH_GetEntries pf h fd v = Inr cs \<and> (\<forall>c\<in>set cs. ec_ok c \<and> ec_rem c \<noteq> {}) \<and>
    (\<Union>c\<in>set cs. ec_rem c) = rh_posted pf h fd v"
proof -
  let ?rix = "rh_rangeIdx h"
  let ?es = "\<lambda>k. re_entries (ri_rgEntries ?rix ! k)"
  obtain ids where ids: "ParseIntegers pf v (EnableFloat2Int (rh_option h)) = Inr ids"
    using assms(2) by (cases "ParseIntegers pf v (EnableFloat2Int (rh_option h))") (auto simp: rh_answers_def)
  obtain r rr where scan: "RH_scan h fd ids [] [] = (r, rr)" by fastforce
  note S = RH_scan_spec [OF assms(1) scan, simplified]
  let ?rc = "map (\<lambda>(k, i). NewEntriesCursor (NewQKey (fd_Field fd) (QInt i)) (?es k)) rr"
  have get: "RH_GetEntries pf h fd v = Inr (r @ ?rc)"
    using scan by (cases ids) (simp_all add: RH_GetEntries_def ids del: RH_scan.simps(2))
  have rdy: "ri_ready ?rix" using assms(1) by (simp add: rh_ready_def)
  have hit: "k < length (ri_rgEntries ?rix) \<and> set (?es k) = ri_posted ?rix i" if "RI_Retrieve ?rix i = Some k" for i k
  proof (cases "ri_valueMin ?rix \<le> i \<and> i < ri_valueMax ?rix")
    case True
    then obtain k' where "k' < length (ri_rgEntries ?rix)" "RI_Retrieve ?rix i = Some k'"
      "set (?es k') = ri_posted ?rix i" using RI_Retrieve_hit [OF rdy] by blast
    then show ?thesis using that by simp
  next
    case False
    then show ?thesis using RI_Retrieve_miss(1) [OF rdy, of i] that by (auto simp: not_le not_less)
  qed
  have ok: "ec_ok (NewEntriesCursor q (?es k)) \<and> ?es k \<noteq> []" if k: "(k, i) \<in> set rr" for k i q
  proof -
    have "k \<in> fst ` set rr" using k by force
    then obtain j where j: "RI_Retrieve ?rix j = Some k" "?es k \<noteq> []" using S(3) by auto
    then have "ri_rgEntries ?rix ! k \<in> set (ri_rgEntries ?rix)" using hit by simp
    then show ?thesis using rdy j(2) by (intro conjI NewEntriesCursor_ok) (auto simp: ri_ready_def ri_inv_def)
  qed
  have "ec_rem (case p of (k, i) \<Rightarrow> NewEntriesCursor (NewQKey (fd_Field fd) (QInt i)) (?es k)) = set (?es (fst p))"
    for p by (cases p) simp
  then have "(\<Union>c\<in>set ?rc. ec_rem c) = (\<Union>k\<in>fst ` set rr. set (?es k))" by simp
  also have "\<dots> = (\<Union>i\<in>set ids. ri_posted ?rix i)"
  proof (intro equalityI subsetI)
    fix e assume "e \<in> (\<Union>k\<in>fst ` set rr. set (?es k))"
    then obtain k where k: "k \<in> fst ` set rr" "e \<in> set (?es k)" by (rule UN_E)
    then obtain i where "i \<in> set ids" "RI_Retrieve ?rix i = Some k" unfolding S(3) by blast
    then show "e \<in> (\<Union>i\<in>set ids. ri_posted ?rix i)" using hit k(2) by auto
  next
    fix e assume "e \<in> (\<Union>i\<in>set ids. ri_posted ?rix i)"
    then obtain i where i: "i \<in> set ids" "e \<in> ri_posted ?rix i" by auto
    then have "\<not> (i < ri_valueMin ?rix \<or> ri_valueMax ?rix \<le> i)" using RI_Retrieve_miss(2) [OF rdy] by auto
    then obtain k where k: "RI_Retrieve ?rix i = Some k" "set (?es k) = ri_posted ?rix i"
      using RI_Retrieve_hit [OF rdy, of i] by (auto simp: not_le not_less)
    then have "?es k \<noteq> []" using i(2) by auto
    then have "k \<in> fst ` set rr" using S(3) k(1) i(1) by auto
    then show "e \<in> (\<Union>k\<in>fst ` set rr. set (?es k))" using k(2) i(2) by blast
  qed
  finally have "(\<Union>c\<in>set (r @ ?rc). ec_rem c) = rh_posted pf h fd v"
    using S(2) by (auto simp: rh_posted_def rh_ids_def ids rh_at_def)
  moreover have "\<forall>c\<in>set (r @ ?rc). ec_ok c \<and> ec_rem c \<noteq> {}" using S(1) ok by auto
  ultimately show ?thesis using get by blast
qed

lemma rh_blank_sel [simp]:
  "rh_option (rh_blank h) = rh_option h"
  "ri_valueMin (rh_rangeIdx (rh_blank h)) = ri_valueMin (rh_rangeIdx h)"
  "ri_valueMax (rh_rangeIdx (rh_blank h)) = ri_valueMax (rh_rangeIdx h)"
  by (simp_all add: rh_blank_def ri_blank_def)

interpretation rh: strict_holder "RH_GetEntries pf" "RH_BuildFieldIndexingData pf"
  RH_CommitFieldIndexingData RH_CompileEntries rh_building rh_ready rh_blank rh_slot rh_takes
  "rh_answers pf" "rh_hits pf" "rh_posted pf" for pf
proof (unfold_locales, goal_cases)
  case (1 h fd bv d)
  then show ?case by (rule RH_build_takes)
next
  case (2 h tx d)
  then show ?case by (rule RH_commit_ok)
next
  case (3 h)
  then show ?case by (rule RH_compile_ok)
next
  case (4 h fd v)
  then show ?case using RH_get_ok [of h pf fd v] by blast
next
  case (5 h fd v cs)
  then have "rh_answers pf h fd v" by (auto simp: RH_GetEntries_def rh_answers_def split: sum.splits)
  then show ?case using RH_get_ok [of h pf fd v] 5 by auto
next
  case (13 h fd v)
  then show ?case by (auto simp: RH_GetEntries_def rh_answers_def isl_def)
next
  case (6 h fd v)
  show ?case
    by (simp add: rh_posted_def rh_at_def rh_blank_def ri_blank_def ri_posted_def NewRangeEntries_def)
next
  case (7 h)
  then show ?case
    by (simp add: rh_building_def rh_blank_def ri_blank_def ri_building_def ri_inv_def NewRangeEntries_def)
next
  case (8 h)
  show ?case unfolding fun_eq_iff RH_BuildFieldIndexingData_def rh_blank_sel by simp
next
  case (12 h)
  have eq: "range_hit (rh_rangeIdx (rh_blank h)) = range_hit (rh_rangeIdx h)"
    by (simp add: fun_eq_iff range_hit_def)
  have "rh_data_hit (rh_blank h) = rh_data_hit h" by (intro ext) (unfold rh_data_hit_def eq, rule refl)
  then show ?case by (simp add: fun_eq_iff rh_hits_def rh_ids_def)
qed (simp_all add: fun_eq_iff rh_slot_def rh_takes_def rh_answers_def)

subsection \<open>What the operators mean\<close>

text \<open>The domain of a holder made with the default options.\<close>

definition full_domain :: "RangeHolder \<Rightarrow> bool" where
  "full_domain h \<longleftrightarrow> ri_valueMin (rh_rangeIdx h) = MinInt64 \<and> ri_valueMax (rh_rangeIdx h) = MaxInt64"

lemma full_domain_New: "NewNumberExtendRangeHolder [] = Inr h \<Longrightarrow> full_domain h"
  by (auto simp: NewNumberExtendRangeHolder_def NewRangeHolderOption_def NewRangeIdx_def Let_def full_domain_def
      split: if_splits)

lemma NewRange_neq: "rg_left (NewRange l r) \<noteq> rg_right (NewRange l r)"
proof -
  have "int64_of (r + 1) \<noteq> r"
  proof
    assume "int64_of (r + 1) = r"
    then have "(r + 1 + 2 ^ 63) mod 2 ^ 64 = (r + 2 ^ 63)" by (simp add: int64_of_def)
    moreover from this have "(r + 2 ^ 63) mod 2 ^ 64 = r + 2 ^ 63" by (metis mod_mod_trivial)
    ultimately have "(r + 1 + 2 ^ 63) mod 2 ^ 64 = (r + 2 ^ 63) mod 2 ^ 64" by simp
    then have "2 ^ 64 dvd (r + 1 + 2 ^ 63) - (r + 2 ^ 63)" by (rule mod_eq_dvd_iff [THEN iffD1])
    then show False by simp
  qed
  then show ?thesis by (auto simp: NewRange_def)
qed

lemma ParseRange_NewRange: "ParseRange pf op v f2i = Inr rg \<Longrightarrow> \<exists>l r. rg = NewRange l r"
  by (auto simp: ParseRange_def ParseBetween_def Let_def split: if_splits sum.splits) blast

lemma RH_build_hit:
  assumes h: "full_domain h" and b: "RH_BuildFieldIndexingData pf h fd bv = Inr d" and op: "Operator bv \<noteq> ValueOptEQ"
    and p: "ParseRange pf (Operator bv) (Value bv) (EnableFloat2Int (rh_option h)) = Inr rg"
    and l: "MinInt64 \<le> rg_left rg" and x: "x < MaxInt64"
  shows "rh_data_hit h d x \<longleftrightarrow> rg_left rg \<le> x \<and> x < rg_right rg"
proof -
  have ne: "rg_left rg \<noteq> rg_right rg" using ParseRange_NewRange [OF p] NewRange_neq by auto
  have hit: "range_hit (rh_rangeIdx h) rg x \<longleftrightarrow> rg_left rg \<le> x \<and> x < rg_right rg"
    using h l x ne by (auto simp: range_hit_def full_domain_def ContainValue_def NewRange_def)
  consider "d = RangeTxData ValueOptEQ None [rg_left rg .. rg_right rg - 1]" | "d = RangeTxData ValueOptBetween (Some rg) []"
    using b op p by (auto simp: RH_BuildFieldIndexingData_def split: if_splits)
  then show ?thesis
    by cases (auto simp: rh_data_hit_def hit ValueOptBetween_def ValueOptEQ_def)
qed


definition ex_range_holder :: RangeHolder where
  "ex_range_holder = projr (NewNumberExtendRangeHolder [])"

lemma ex_range_holder: "NewNumberExtendRangeHolder [] = Inr ex_range_holder"
  by (simp add: ex_range_holder_def NewNumberExtendRangeHolder_def NewRangeHolderOption_def NewRangeIdx_def Let_def
      MinInt64_def MaxInt64_def)

lemma ex_range_holder_eq:
  "ex_range_holder =
     \<lparr>rh_debug = False, rh_option = NewRangeHolderOption, rh_maxLen = 0, rh_avgLen = 0,
      rh_rangeIdx = \<lparr>ri_compiled = False, ri_maxLen = 0, ri_avgLen = 0, ri_valueMin = MinInt64, ri_valueMax = MaxInt64,
        ri_items = [NewRangeEntries MinInt64 MaxInt64], ri_rgEntries = []\<rparr>, rh_plEntries = []\<rparr>"
  by (simp add: ex_range_holder_def NewNumberExtendRangeHolder_def NewRangeHolderOption_def NewRangeIdx_def Let_def
      MinInt64_def MaxInt64_def)

lemma float64_int_small: "\<bar>n\<bar> < 2 ^ 53 \<Longrightarrow> float64_int n = n"
  by (simp add: float64_int_def round_at_def shift53.simps [of "nat \<bar>n\<bar>"] nat_less_iff Let_def)

lemma float64_bounds:
  "float64_int MaxInt64 = 9223372036854775808" "float64_int MinInt64 = - 9223372036854775808"
  by (simp_all add: float64_int_def MaxInt64_def MinInt64_def round_at_def shift53.simps Let_def)

lemma Range_Size_examples:
  "Range_Size \<lparr>rg_left = 19, rg_right = MaxInt64\<rparr> = 9223372036854775808"
  "Range_Size \<lparr>rg_left = MinInt64, rg_right = MaxInt64\<rparr> = 18446744073709551616"
  by (simp_all add: Range_Size_def float64_bounds float64_int_small)
    (simp_all add: float64_int_def round_at_def shift53.simps Let_def)

lemma ex_range_build:
  assumes "ParseRange pf ValueOptGT v True = Inr rg" "256 \<le> Range_Size rg"
  shows "RH_BuildFieldIndexingData pf ex_range_holder fd (NewBoolValue ValueOptGT v True) =
     Inr (RangeTxData ValueOptBetween (Some rg) [])"
  using assms
  by (simp add: ex_range_holder_eq RH_BuildFieldIndexingData_def NewBoolValue_def NewRangeHolderOption_def
      ValueOptEQ_def ValueOptGT_def)





end
