(* ===== verification/OptRangeHolder.thy ===== *)
theory OptRangeHolder
  imports RangeHolder
begin

text \<open>
  Model of \<^verbatim>\<open>OptimizedRangeHolder\<close> (\<^verbatim>\<open>holder/rangeholder/optimized_range_holder.go\<close>): ranges and
  values are collected as pending ranges, their bounds are compressed to indices, and a segment tree over
  the indices holds the entries. The lemmas are about the parts: the binary search over the
  coordinates, and insertion into and collection from the tree. Unlike the other holders it
  is not an \<open>entries_holder\<close>: preparing data changes it, and it answers queries between coordinates
  wrongly (\<open>OptRangeCorrect\<close>).
\<close>

subsection \<open>Coordinates\<close>

record CoordinateCompressor =
  cc_values :: "int list"
  cc_valueToIdx :: "(int \<times> int) list"
  cc_built :: bool

definition NewCoordinateCompressor :: CoordinateCompressor where
  "NewCoordinateCompressor = \<lparr>cc_values = [], cc_valueToIdx = [], cc_built = False\<rparr>"

definition AddValue :: "CoordinateCompressor \<Rightarrow> int \<Rightarrow> CoordinateCompressor res" where
  "AddValue cc v =
     (if cc_built cc then Inl (Panic ''compressor already built'')
      else Inr (if map_of (cc_valueToIdx cc) v = None
                then cc\<lparr>cc_valueToIdx := alist_put v (-1) (cc_valueToIdx cc), cc_values := cc_values cc @ [v]\<rparr>
                else cc))"

fun unique_values :: "int list \<Rightarrow> int list \<Rightarrow> (int \<times> int) list \<Rightarrow> int list \<times> (int \<times> int) list" where
  "unique_values [] unique valueToIdx = (unique, valueToIdx)"
| "unique_values (v # vs) unique valueToIdx =
     (if length unique = 0 \<or> v \<noteq> last unique
      then unique_values vs (unique @ [v]) (alist_put v (int (length unique)) valueToIdx)
      else unique_values vs unique valueToIdx)"

definition CC_Build :: "CoordinateCompressor \<Rightarrow> CoordinateCompressor" where
  "CC_Build cc =
     (if cc_built cc then cc
      else case unique_values (sort (cc_values cc)) [] [] of
             (unique, valueToIdx) \<Rightarrow> \<lparr>cc_values = unique, cc_valueToIdx = valueToIdx, cc_built = True\<rparr>)"

definition GetIdx :: "CoordinateCompressor \<Rightarrow> int \<Rightarrow> int option" where
  "GetIdx cc v = map_of (cc_valueToIdx cc) v"

text \<open>The loop of \<^verbatim>\<open>sort.Search\<close>.\<close>

function search_loop :: "(nat \<Rightarrow> bool) \<Rightarrow> nat \<Rightarrow> nat \<Rightarrow> nat" where
  "search_loop f i j =
     (if i < j then let h = (i + j) div 2 in if \<not> f h then search_loop f (h + 1) j else search_loop f i h else i)"
  by pat_completeness auto
termination by (relation "measure (\<lambda>(f, i, j). j - i)") auto

declare search_loop.simps [simp del]

definition sort_Search :: "nat \<Rightarrow> (nat \<Rightarrow> bool) \<Rightarrow> nat" where
  "sort_Search n f = search_loop f 0 n"

definition FindIdx :: "CoordinateCompressor \<Rightarrow> int \<Rightarrow> int" where
  "FindIdx cc v = int (sort_Search (length (cc_values cc)) (\<lambda>i. cc_values cc ! i \<ge> v))"

definition FindRange :: "CoordinateCompressor \<Rightarrow> int \<Rightarrow> int \<Rightarrow> int \<times> int" where
  "FindRange cc left right =
     (let l = FindIdx cc left; r = FindIdx cc right - 1 in (l, if r < l then l else r))"

definition CC_Size :: "CoordinateCompressor \<Rightarrow> int" where
  "CC_Size cc = int (length (cc_values cc))"

subsection \<open>Segment tree\<close>

text \<open>A nil pointer is \<open>None\<close>.\<close>

datatype SegmentTreeNode =
  SegNode (seg_l: int) (seg_r: int) (seg_entries: Entries) (seg_left: "SegmentTreeNode option")
    (seg_right: "SegmentTreeNode option") (seg_isLeaf: bool)

text \<open>The second component counts the nodes (\<^verbatim>\<open>stats.TreeNodeCount\<close>).\<close>

definition buildTree :: "int \<Rightarrow> int \<Rightarrow> int \<Rightarrow> SegmentTreeNode \<times> int" where
  "buildTree l r cnt = (SegNode l r [] None None (l = r), cnt + 1)"

text \<open>\<^verbatim>\<open>(l + r) / 2\<close>, which rounds towards zero.\<close>

definition seg_mid :: "int \<Rightarrow> int \<Rightarrow> int" where
  "seg_mid l r = (if l + r < 0 then - ((- (l + r)) div 2) else (l + r) div 2)"

definition child_or_new :: "SegmentTreeNode option \<Rightarrow> int \<Rightarrow> int \<Rightarrow> int \<Rightarrow> SegmentTreeNode \<times> int" where
  "child_or_new c l r cnt = (case c of None \<Rightarrow> buildTree l r cnt | Some t \<Rightarrow> (t, cnt))"

text \<open>
  The recursion does not end for a range below the tree (a leaf would get itself as its left
  child again and again); \<open>None\<close> is such a run. \<open>seg_insert_ok\<close> shows that it ends otherwise.
\<close>

partial_function (option) seg_insert ::
  "SegmentTreeNode \<Rightarrow> int \<Rightarrow> int \<Rightarrow> EntryID \<Rightarrow> int \<Rightarrow> (SegmentTreeNode \<times> int) option"
where
  "seg_insert node l r eid cnt =
     (case node of SegNode nl nr es lc rc leaf \<Rightarrow>
        if l \<le> nl \<and> nr \<le> r then Some (SegNode nl nr (es @ [eid]) lc rc leaf, cnt)
        else Option.bind
               (if l \<le> seg_mid nl nr
                then (case child_or_new lc nl (seg_mid nl nr) cnt of
                        (c, n) \<Rightarrow> Option.bind (seg_insert c l r eid n) (\<lambda>(c', n'). Some (Some c', n')))
                else Some (lc, cnt))
               (\<lambda>(lc', cnt').
                  Option.bind
                    (if r > seg_mid nl nr
                     then (case child_or_new rc (seg_mid nl nr + 1) nr cnt' of
                             (c, n) \<Rightarrow> Option.bind (seg_insert c l r eid n) (\<lambda>(c', n'). Some (Some c', n')))
                     else Some (rc, cnt'))
                    (\<lambda>(rc', cnt''). Some (SegNode nl nr es lc' rc' leaf, cnt''))))"

declare seg_insert.simps [code]

text \<open>The keys of the map \<^verbatim>\<open>result\<close>.\<close>

fun collectEntries :: "SegmentTreeNode option \<Rightarrow> int \<Rightarrow> EntryID list \<Rightarrow> EntryID list" where
  "collectEntries None idx result = result"
| "collectEntries (Some (SegNode nl nr es lc rc leaf)) idx result =
     (let result' = foldl (\<lambda>m eid. List.insert eid m) result es
      in if leaf then result'
         else if idx \<le> seg_mid nl nr \<and> lc \<noteq> None then collectEntries lc idx result'
         else if idx > seg_mid nl nr \<and> rc \<noteq> None then collectEntries rc idx result'
         else result')"

subsection \<open>The holder\<close>

record pendingRange =
  pr_left :: int
  pr_right :: int
  pr_eid :: EntryID

text \<open>\<^verbatim>\<open>MemorySavedPercent\<close> is a float that is only printed; the model keeps the numerator and denominator of the quotient.\<close>

record HolderStats =
  OriginalRangeCount :: int
  CompressedSize :: int
  TreeNodeCount :: int
  MemorySavedPercent :: "int \<times> int"

record OptimizedRangeHolder =
  or_option :: RangeHolderOption
  or_debug :: bool
  or_compressor :: CoordinateCompressor
  or_root :: "SegmentTreeNode option"
  or_pendingRanges :: "pendingRange list"
  or_built :: bool
  or_stats :: HolderStats

definition NewOptimizedRangeHolder :: "(RangeHolderOption \<Rightarrow> RangeHolderOption) list \<Rightarrow> OptimizedRangeHolder" where
  "NewOptimizedRangeHolder fns =
     \<lparr>or_option = foldl (\<lambda>opt fn. fn opt) NewRangeHolderOption fns, or_debug = False,
      or_compressor = NewCoordinateCompressor, or_root = None, or_pendingRanges = [], or_built = False,
      or_stats = \<lparr>OriginalRangeCount = 0, CompressedSize = 0, TreeNodeCount = 0, MemorySavedPercent = (0, 1)\<rparr>\<rparr>"

definition OR_EnableDebug :: "OptimizedRangeHolder \<Rightarrow> bool \<Rightarrow> OptimizedRangeHolder" where
  "OR_EnableDebug h debug = h\<lparr>or_debug := debug\<rparr>"

definition ToSlice :: "Range \<Rightarrow> int list res" where
  "ToSlice rg =
     (if Range_Size rg < 0 then Inl (Panic ''makeslice: cap out of range'')
      else Inr [rg_left rg .. rg_right rg - 1])"

text \<open>Unlike the other holders it changes while the data is prepared: the bounds of a range are collected.\<close>

definition OR_BuildFieldIndexingData ::
  "(string \<Rightarrow> gfloat option) \<Rightarrow> OptimizedRangeHolder \<Rightarrow> FieldDesc \<Rightarrow> BoolValues \<Rightarrow>
   OptimizedRangeHolder \<times> IndexingData res"
where
  "OR_BuildFieldIndexingData pf h fd bv =
     (if Operator bv = ValueOptEQ
      then (case ParseIntegers pf (Value bv) (EnableFloat2Int (or_option h)) of
              Inl (Err m) \<Rightarrow> (h, Inl (Err (''parse fail, err:'' @ m)))
            | Inl (Panic m) \<Rightarrow> (h, Inl (Panic m))
            | Inr ids \<Rightarrow> (h, Inr (OptimizedRangeTxData ValueOptEQ None ids)))
      else if Operator bv = ValueOptLT \<or> Operator bv = ValueOptGT \<or> Operator bv = ValueOptBetween
      then (case ParseRange pf (Operator bv) (Value bv) (EnableFloat2Int (or_option h)) of
              Inl e \<Rightarrow> (h, Inl e)
            | Inr rg \<Rightarrow>
                (if Range_Size rg < RangeCvtValuesSize (or_option h)
                 then (case ToSlice rg of
                         Inl e \<Rightarrow> (h, Inl e)
                       | Inr vs \<Rightarrow> (h, Inr (OptimizedRangeTxData ValueOptEQ None vs)))
                 else (case AddValue (or_compressor h) (rg_left rg) of
                         Inl e \<Rightarrow> (h, Inl e)
                       | Inr cc1 \<Rightarrow>
                           (case AddValue cc1 (rg_right rg) of
                              Inl e \<Rightarrow> (h\<lparr>or_compressor := cc1\<rparr>, Inl e)
                            | Inr cc2 \<Rightarrow>
                                (h\<lparr>or_compressor := cc2\<rparr>, Inr (OptimizedRangeTxData ValueOptBetween (Some rg) []))))))
      else (h, Inl (Err ''unsupported operator'')))"

fun pend_values :: "OptimizedRangeHolder \<Rightarrow> EntryID \<Rightarrow> int list \<Rightarrow> OptimizedRangeHolder res" where
  "pend_values h eid [] = Inr h"
| "pend_values h eid (v # vs) =
     (case AddValue (or_compressor h) v of
        Inl e \<Rightarrow> Inl e
      | Inr cc \<Rightarrow>
          pend_values
            (h\<lparr>or_pendingRanges := or_pendingRanges h @ [\<lparr>pr_left = v, pr_right = v, pr_eid = eid\<rparr>],
               or_compressor := cc\<rparr>) eid vs)"

definition OR_CommitFieldIndexingData :: "OptimizedRangeHolder \<Rightarrow> FieldIndexingData \<Rightarrow> OptimizedRangeHolder res" where
  "OR_CommitFieldIndexingData h tx =
     (case tx_Data tx of
        None \<Rightarrow> Inr h
      | Some (OptimizedRangeTxData op rg eqValues) \<Rightarrow>
          (if op = ValueOptEQ then pend_values h (tx_EID tx) (DistinctInteger eqValues)
           else if op = ValueOptBetween
           then (case rg of
                   None \<Rightarrow> Inl (Panic ''nil pointer dereference: Range'')
                 | Some r \<Rightarrow>
                     Inr (h\<lparr>or_pendingRanges := or_pendingRanges h @
                              [\<lparr>pr_left = rg_left r, pr_right = rg_right r, pr_eid = tx_EID tx\<rparr>],
                            or_stats := (or_stats h)\<lparr>OriginalRangeCount := OriginalRangeCount (or_stats h) + 1\<rparr>\<rparr>))
           else Inr h)
      | Some _ \<Rightarrow> Inl (Panic ''interface conversion''))"

text \<open>The insertions of \<^verbatim>\<open>CompileEntries\<close>; the option is termination, a nil root panics.\<close>

fun insert_pending ::
  "CoordinateCompressor \<Rightarrow> pendingRange list \<Rightarrow> SegmentTreeNode option \<Rightarrow> int \<Rightarrow>
   (SegmentTreeNode option \<times> int) res option"
where
  "insert_pending cc [] root cnt = Some (Inr (root, cnt))"
| "insert_pending cc (pr # prs) root cnt =
     (case FindRange cc (pr_left pr) (pr_right pr) of
        (l, r) \<Rightarrow>
          (if l \<le> r
           then (case root of
                   None \<Rightarrow> Some (Inl (Panic ''nil pointer dereference: node''))
                 | Some t \<Rightarrow>
                     (case seg_insert t l r (pr_eid pr) cnt of
                        None \<Rightarrow> None
                      | Some (t', cnt') \<Rightarrow> insert_pending cc prs (Some t') cnt'))
           else insert_pending cc prs root cnt))"

definition calculateMemoryStats :: "HolderStats \<Rightarrow> HolderStats" where
  "calculateMemoryStats st =
     (if CompressedSize st > 0 \<and> OriginalRangeCount st * 2 > CompressedSize st
      then st\<lparr>MemorySavedPercent := ((OriginalRangeCount st * 2 - CompressedSize st) * 100, OriginalRangeCount st * 2)\<rparr>
      else st)"

definition OR_CompileEntries :: "OptimizedRangeHolder \<Rightarrow> OptimizedRangeHolder res option" where
  "OR_CompileEntries h =
     (let cc = CC_Build (or_compressor h);
          st = (or_stats h)\<lparr>CompressedSize := CC_Size cc\<rparr>;
          (root, cnt) =
            (if CompressedSize st > 0 then map_prod Some id (buildTree 0 (CompressedSize st - 1) (TreeNodeCount st))
             else (or_root h, TreeNodeCount st))
      in case insert_pending cc (or_pendingRanges h) root cnt of
           None \<Rightarrow> None
         | Some (Inl e) \<Rightarrow> Some (Inl e)
         | Some (Inr (root', cnt')) \<Rightarrow>
             Some (Inr (h\<lparr>or_compressor := cc, or_root := root', or_pendingRanges := [], or_built := True,
                          or_stats := calculateMemoryStats (st\<lparr>TreeNodeCount := cnt'\<rparr>)\<rparr>)))"

text \<open>The loop of \<^verbatim>\<open>GetEntries\<close>.\<close>

fun collect_ids :: "OptimizedRangeHolder \<Rightarrow> int list \<Rightarrow> EntryID list \<Rightarrow> EntryID list" where
  "collect_ids h [] resultMap = resultMap"
| "collect_ids h (i # ids) resultMap =
     (case GetIdx (or_compressor h) i of
        Some idx \<Rightarrow> collect_ids h ids (collectEntries (or_root h) idx resultMap)
      | None \<Rightarrow>
          (let idx = FindIdx (or_compressor h) i
           in if idx \<ge> CompressedSize (or_stats h) then collect_ids h ids resultMap
              else collect_ids h ids (collectEntries (or_root h) idx resultMap)))"

definition OR_GetEntries ::
  "(string \<Rightarrow> gfloat option) \<Rightarrow> OptimizedRangeHolder \<Rightarrow> FieldDesc \<Rightarrow> Values \<Rightarrow> EntriesCursor list res"
where
  "OR_GetEntries pf h fd assigns =
     (if \<not> or_built h then Inl (Err ''holder not compiled'')
      else case ParseIntegers pf assigns (EnableFloat2Int (or_option h)) of
             Inl e \<Rightarrow> Inl e
           | Inr ids \<Rightarrow>
               (if length ids = 0 then Inr []
                else let result = sort (collect_ids h ids [])
                     in if length result > 0
                        then Inr [NewEntriesCursor (NewQKey (fd_Field fd) (QInt 0)) result] else Inr []))"

definition OptimizedRangeTxData_Encode :: "codec \<Rightarrow> ValueOpt \<Rightarrow> Range option \<Rightarrow> int list \<Rightarrow> bytes res" where
  "OptimizedRangeTxData_Encode lib op rg eqs = optJsonMarshal lib (op, rg \<noteq> None, eqs)"

definition OR_DecodeFieldIndexingData :: "codec \<Rightarrow> bytes \<Rightarrow> IndexingData res" where
  "OR_DecodeFieldIndexingData lib data =
     (case optJsonUnmarshal lib data of
        Inl e \<Rightarrow> Inl e
      | Inr (op, has_range, eqs) \<Rightarrow>
          Inr (OptimizedRangeTxData op (if has_range then Some \<lparr>rg_left = 0, rg_right = 0\<rparr> else None) eqs))"

subsection \<open>Searching the coordinates\<close>

lemma search_loop_spec:
  assumes "i \<le> j" "j \<le> n" "\<forall>k<i. \<not> f k" "\<forall>k. j \<le> k \<longrightarrow> k < n \<longrightarrow> f k" "\<forall>a b. a \<le> b \<longrightarrow> b < n \<longrightarrow> f a \<longrightarrow> f b"
  shows "search_loop f i j \<le> n \<and> (\<forall>k < search_loop f i j. \<not> f k) \<and> (\<forall>k. search_loop f i j \<le> k \<longrightarrow> k < n \<longrightarrow> f k)"
  using assms
proof (induction f i j rule: search_loop.induct)
  case (1 f i j)
  show ?case
  proof (cases "i < j")
    case True
    define h where "h = (i + j) div 2"
    have h: "i \<le> h" "h < j" using True by (auto simp: h_def)
    have mono: "f a \<Longrightarrow> a \<le> k \<Longrightarrow> k < n \<Longrightarrow> f k" for a k using 1(7) by blast
    show ?thesis
    proof (cases "f h")
      case f: True
      have e: "search_loop f i j = search_loop f i h"
        using True f by (subst search_loop.simps) (simp add: h_def [symmetric])
      have "\<not> \<not> f h" "\<forall>k. h \<le> k \<longrightarrow> k < n \<longrightarrow> f k" using f mono by blast+
      then show ?thesis unfolding e using h 1(4) by (intro 1(2) [OF True h_def _ _ _ 1(5) _ 1(7)]) simp_all
    next
      case f: False
      have e: "search_loop f i j = search_loop f (h + 1) j"
        using True f by (subst search_loop.simps) (simp add: h_def [symmetric])
      have "\<not> f k" if "k < h + 1" for k using mono [of k h] that f h(2) 1(4) by auto
      then show ?thesis unfolding e using h by (intro 1(1) [OF True h_def f _ 1(4) _ 1(6,7)]) simp_all
    qed
  next
    case False
    then show ?thesis using 1(3-6) by (subst (1 2 3) search_loop.simps) auto
  qed
qed

lemma FindIdx_spec:
  assumes "sorted (cc_values cc)"
  obtains s where "FindIdx cc v = int s" "s \<le> length (cc_values cc)" "\<forall>k < s. cc_values cc ! k < v"
    "\<forall>k. s \<le> k \<longrightarrow> k < length (cc_values cc) \<longrightarrow> v \<le> cc_values cc ! k"
proof -
  let ?f = "\<lambda>i. v \<le> cc_values cc ! i"
  have "\<forall>a b. a \<le> b \<longrightarrow> b < length (cc_values cc) \<longrightarrow> ?f a \<longrightarrow> ?f b"
    using assms sorted_nth_mono by fastforce
  then have "search_loop ?f 0 (length (cc_values cc)) \<le> length (cc_values cc) \<and>
    (\<forall>k < search_loop ?f 0 (length (cc_values cc)). \<not> ?f k) \<and>
    (\<forall>k. search_loop ?f 0 (length (cc_values cc)) \<le> k \<longrightarrow> k < length (cc_values cc) \<longrightarrow> ?f k)"
    by (intro search_loop_spec) simp_all
  then show ?thesis
    by (intro that [of "search_loop ?f 0 (length (cc_values cc))"]) (simp_all add: FindIdx_def sort_Search_def not_le)
qed

text \<open>One value is found before another iff a coordinate separates them.\<close>

lemma FindIdx_less_iff:
  assumes "sorted (cc_values cc)"
  shows "FindIdx cc a < FindIdx cc b \<longleftrightarrow> (\<exists>c\<in>set (cc_values cc). a \<le> c \<and> c < b)"
proof -
  let ?vs = "cc_values cc"
  obtain i where i: "FindIdx cc a = int i" "\<forall>k<i. ?vs ! k < a" "\<forall>k. i \<le> k \<longrightarrow> k < length ?vs \<longrightarrow> a \<le> ?vs ! k"
    by (rule FindIdx_spec [OF assms, of a])
  obtain j where j: "FindIdx cc b = int j" "j \<le> length ?vs" "\<forall>k<j. ?vs ! k < b" "\<forall>k. j \<le> k \<longrightarrow> k < length ?vs \<longrightarrow> b \<le> ?vs ! k"
    by (rule FindIdx_spec [OF assms, of b])
  show ?thesis
  proof
    assume "FindIdx cc a < FindIdx cc b"
    then have "i < j" using i(1) j(1) by simp
    then show "\<exists>c\<in>set ?vs. a \<le> c \<and> c < b" using i(3) j(2,3) by (intro bexI [of _ "?vs ! i"]) auto
  next
    assume "\<exists>c\<in>set ?vs. a \<le> c \<and> c < b"
    then obtain k where k: "k < length ?vs" "a \<le> ?vs ! k" "?vs ! k < b" by (auto simp: in_set_conv_nth)
    then have "i \<le> k" "k < j" using i(2) j(4) by (meson not_le)+
    then show "FindIdx cc a < FindIdx cc b" using i(1) j(1) by simp
  qed
qed

lemma FindIdx_bounds:
  assumes "sorted (cc_values cc)"
  shows "0 \<le> FindIdx cc v" "FindIdx cc v \<le> CC_Size cc" "FindIdx cc v < CC_Size cc \<longleftrightarrow> (\<exists>c\<in>set (cc_values cc). v \<le> c)"
proof -
  let ?vs = "cc_values cc"
  obtain i where i: "FindIdx cc v = int i" "i \<le> length ?vs" "\<forall>k<i. ?vs ! k < v" "\<forall>k. i \<le> k \<longrightarrow> k < length ?vs \<longrightarrow> v \<le> ?vs ! k"
    by (rule FindIdx_spec [OF assms, of v])
  show "0 \<le> FindIdx cc v" "FindIdx cc v \<le> CC_Size cc" using i(1,2) by (simp_all add: CC_Size_def)
  show "FindIdx cc v < CC_Size cc \<longleftrightarrow> (\<exists>c\<in>set ?vs. v \<le> c)"
  proof
    assume "FindIdx cc v < CC_Size cc"
    then show "\<exists>c\<in>set ?vs. v \<le> c" using i by (intro bexI [of _ "?vs ! i"]) (auto simp: CC_Size_def)
  next
    assume "\<exists>c\<in>set ?vs. v \<le> c"
    then obtain k where "k < length ?vs" "v \<le> ?vs ! k" by (auto simp: in_set_conv_nth)
    then have "i < length ?vs" using i(3) by (meson le_less_trans not_le)
    then show "FindIdx cc v < CC_Size cc" using i(1) by (simp add: CC_Size_def)
  qed
qed

text \<open>The map from values to positions.\<close>

definition idx_map :: "int list \<Rightarrow> (int \<times> int) list \<Rightarrow> bool" where
  "idx_map vs m \<longleftrightarrow> (\<forall>v i. map_of m v = Some i \<longleftrightarrow> (\<exists>k<length vs. vs ! k = v \<and> i = int k))"

lemma unique_values_ok:
  assumes "sorted (u @ vs)" "distinct u" "idx_map u m" "unique_values vs u m = (u', m')"
  shows "sorted u' \<and> distinct u' \<and> set u' = set u \<union> set vs \<and> idx_map u' m'"
  using assms
proof (induction vs arbitrary: u m)
  case (Cons v vs)
  show ?case
  proof (cases "length u = 0 \<or> v \<noteq> last u")
    case True
    have "v \<notin> set u"
    proof
      assume "v \<in> set u"
      then have ne: "u \<noteq> []" by auto
      then have u: "butlast u @ [last u] = u" by simp
      have "sorted (butlast u @ [last u])" "last u \<le> v" unfolding u using Cons.prems(1) ne by (simp_all add: sorted_append)
      moreover have "v \<in> set (butlast u @ [last u])" unfolding u by (rule \<open>v \<in> set u\<close>)
      ultimately have "v = last u" by (auto simp: sorted_append)
      then show False using True ne by auto
    qed
    moreover have "idx_map (u @ [v]) (alist_put v (int (length u)) m)"
      using Cons.prems(3) \<open>v \<notin> set u\<close> unfolding idx_map_def
      by (auto simp: nth_append less_Suc_eq in_set_conv_nth)
    ultimately show ?thesis using Cons.IH [of "u @ [v]" "alist_put v (int (length u)) m"] Cons.prems True by simp
  next
    case False
    then have "v \<in> set u" by auto
    then show ?thesis using Cons.IH [of u m] Cons.prems False by (auto simp: sorted_append)
  qed
qed simp

lemma CC_Build_ok:
  assumes "\<not> cc_built cc"
  shows "sorted (cc_values (CC_Build cc))" "distinct (cc_values (CC_Build cc))"
    "set (cc_values (CC_Build cc)) = set (cc_values cc)" "idx_map (cc_values (CC_Build cc)) (cc_valueToIdx (CC_Build cc))"
proof -
  obtain u m where u: "unique_values (sort (cc_values cc)) [] [] = (u, m)" by fastforce
  have "sorted u \<and> distinct u \<and> set u = set [] \<union> set (sort (cc_values cc)) \<and> idx_map u m"
    by (rule unique_values_ok [OF _ _ _ u]) (simp_all add: idx_map_def)
  then show "sorted (cc_values (CC_Build cc))" "distinct (cc_values (CC_Build cc))"
    "set (cc_values (CC_Build cc)) = set (cc_values cc)" "idx_map (cc_values (CC_Build cc)) (cc_valueToIdx (CC_Build cc))"
    using assms u by (simp_all add: CC_Build_def)
qed

lemma GetIdx_FindIdx:
  assumes s: "sorted (cc_values cc)" "distinct (cc_values cc)" and m: "idx_map (cc_values cc) (cc_valueToIdx cc)"
    and g: "GetIdx cc v = Some i"
  shows "i = FindIdx cc v" "FindIdx cc v < CC_Size cc"
proof -
  let ?vs = "cc_values cc"
  obtain k where k: "k < length ?vs" "?vs ! k = v" "i = int k" using m g by (auto simp: idx_map_def GetIdx_def)
  obtain j where j: "FindIdx cc v = int j" "j \<le> length ?vs" "\<forall>k<j. ?vs ! k < v" "\<forall>k. j \<le> k \<longrightarrow> k < length ?vs \<longrightarrow> v \<le> ?vs ! k"
    by (rule FindIdx_spec [OF s(1), of v])
  have "\<not> k < j" using j(3) k(2) by auto
  moreover have "\<not> j < k"
  proof
    assume "j < k"
    then have "?vs ! j < ?vs ! k" using s k(1) by (simp add: sorted_wrt_nth_less strict_sorted_iff)
    then show False using j(4) \<open>j < k\<close> k(1,2) by force
  qed
  ultimately show "i = FindIdx cc v" using j(1) k(3) by simp
  then show "FindIdx cc v < CC_Size cc" using k by (simp add: CC_Size_def)
qed

subsection \<open>The tree\<close>

fun seg_wf :: "SegmentTreeNode \<Rightarrow> bool" where
  "seg_wf (SegNode l r es lc rc leaf) \<longleftrightarrow>
     0 \<le> l \<and> l \<le> r \<and> (leaf \<longleftrightarrow> l = r) \<and>
     (case lc of None \<Rightarrow> True | Some t \<Rightarrow> seg_wf t \<and> seg_l t = l \<and> seg_r t = seg_mid l r) \<and>
     (case rc of None \<Rightarrow> True | Some t \<Rightarrow> seg_wf t \<and> seg_l t = seg_mid l r + 1 \<and> seg_r t = r)"

text \<open>A child, if there is one, covers the given indices.\<close>

definition child_ok :: "SegmentTreeNode option \<Rightarrow> int \<Rightarrow> int \<Rightarrow> bool" where
  "child_ok c l r \<longleftrightarrow> (case c of None \<Rightarrow> True | Some t \<Rightarrow> seg_wf t \<and> seg_l t = l \<and> seg_r t = r)"

definition collected :: "SegmentTreeNode option \<Rightarrow> int \<Rightarrow> EntryID set" where
  "collected c idx = set (collectEntries c idx [])"

lemma foldl_insert_set: "set (foldl (\<lambda>m e. List.insert e m) m es) = set m \<union> set es"
  by (induction es arbitrary: m) auto

lemma foldl_insert_distinct: "distinct m \<Longrightarrow> distinct (foldl (\<lambda>m e. List.insert e m) m es)"
  by (induction es arbitrary: m) auto

lemma collectEntries_acc: "set (collectEntries (Some t) idx m) = set m \<union> set (collectEntries (Some t) idx [])"
proof (induction t arbitrary: m)
  case (SegNode l r es lc rc leaf)
  have "set (collectEntries c idx (foldl (\<lambda>m e. List.insert e m) m es)) =
      set m \<union> set (collectEntries c idx (foldl (\<lambda>m e. List.insert e m) [] es))" if c: "c = lc \<or> c = rc" for c
  proof (cases c)
    case (Some t)
    then have "set (collectEntries (Some t) idx m) = set m \<union> set (collectEntries (Some t) idx [])" for m
      using SegNode c by (metis option.set_intros)
    from this [of "foldl (\<lambda>m e. List.insert e m) m es"] this [of "foldl (\<lambda>m e. List.insert e m) [] es"]
    show ?thesis by (simp add: Some foldl_insert_set Un_assoc)
  qed (simp add: foldl_insert_set)
  then show ?case by (simp add: Let_def foldl_insert_set)
qed

lemma collectEntries_set: "set (collectEntries c idx m) = set m \<union> collected c idx"
proof (cases c)
  case (Some t)
  show ?thesis unfolding Some collected_def by (rule collectEntries_acc)
qed (simp add: collected_def)

lemma collectEntries_distinct: "distinct m \<Longrightarrow> distinct (collectEntries c idx m)"
  by (induction c idx m rule: collectEntries.induct) (simp_all add: Let_def foldl_insert_distinct)

lemma collected_simps [simp]:
  "collected None idx = {}"
  "collected (Some (SegNode l r es lc rc leaf)) idx =
     set es \<union> (if leaf then {} else if idx \<le> seg_mid l r then collected lc idx else collected rc idx)"
proof -
  let ?es = "foldl (\<lambda>m e. List.insert e m) [] es"
  show "collected None idx = {}" by (simp add: collected_def)
  have "set (collectEntries c idx ?es) = set es \<union> collected c idx" for c
    unfolding collectEntries_set foldl_insert_set by simp
  moreover have "set ?es = set es" by (simp add: foldl_insert_set)
  moreover have "collected (Some (SegNode l r es lc rc leaf)) idx =
      (if leaf then set ?es
       else if idx \<le> seg_mid l r \<and> lc \<noteq> None then set (collectEntries lc idx ?es)
       else if idx > seg_mid l r \<and> rc \<noteq> None then set (collectEntries rc idx ?es) else set ?es)"
    by (simp add: collected_def Let_def)
  ultimately show "collected (Some (SegNode l r es lc rc leaf)) idx =
     set es \<union> (if leaf then {} else if idx \<le> seg_mid l r then collected lc idx else collected rc idx)"
    using \<open>collected None idx = {}\<close> by auto
qed

lemma seg_wf_child_ok:
  "seg_wf (SegNode l r es lc rc leaf) \<longleftrightarrow>
     0 \<le> l \<and> l \<le> r \<and> (leaf \<longleftrightarrow> l = r) \<and> child_ok lc l (seg_mid l r) \<and> child_ok rc (seg_mid l r + 1) r"
  by (simp add: child_ok_def)

declare seg_wf.simps [simp del] seg_wf_child_ok [simp]

lemma seg_mid_between: "0 \<le> l \<Longrightarrow> l < r \<Longrightarrow> l \<le> seg_mid l r \<and> seg_mid l r < r"
  unfolding seg_mid_def by auto

lemma child_or_new_ok:
  assumes "child_ok c l r" "0 \<le> l" "l \<le> r"
  obtains t n' where "child_or_new c l r n = (t, n')" "seg_wf t" "seg_l t = l" "seg_r t = r" "\<forall>idx. collected (Some t) idx = collected c idx"
  using assms by (cases c) (auto simp: child_or_new_def buildTree_def child_ok_def)

text \<open>Inserting a range that meets the tree returns and adds the entry at exactly the indices of the range.\<close>

definition inserted :: "SegmentTreeNode \<Rightarrow> int \<Rightarrow> int \<Rightarrow> EntryID \<Rightarrow> SegmentTreeNode \<Rightarrow> bool" where
  "inserted t l r eid t' \<longleftrightarrow> seg_wf t' \<and> seg_l t' = seg_l t \<and> seg_r t' = seg_r t \<and>
     (\<forall>idx. seg_l t \<le> idx \<longrightarrow> idx \<le> seg_r t \<longrightarrow>
        collected (Some t') idx = collected (Some t) idx \<union> (if l \<le> idx \<and> idx \<le> r then {eid} else {}))"

lemma seg_insert_ok:
  assumes "seg_wf t" "seg_l t \<le> r" "l \<le> seg_r t" "l \<le> r"
  shows "\<exists>t' n'. seg_insert t l r eid n = Some (t', n') \<and> inserted t l r eid t'"
  using assms
proof (induction "nat (seg_r t - seg_l t)" arbitrary: t n rule: less_induct)
  case less
  obtain nl nr es lc rc leaf where t: "t = SegNode nl nr es lc rc leaf" by (cases t) auto
  define m where "m = seg_mid nl nr"
  have wf: "0 \<le> nl" "nl \<le> nr" "leaf \<longleftrightarrow> nl = nr" "child_ok lc nl m" "child_ok rc (m + 1) nr"
    using less.prems(1) by (simp_all add: t m_def)
  show ?case
  proof (cases "l \<le> nl \<and> nr \<le> r")
    case True
    then show ?thesis using less.prems(1) by (subst seg_insert.simps) (simp add: t inserted_def)
  next
    case False
    then have lt: "nl < nr" using less.prems(2,3) wf(2) by (auto simp: t)
    then have m: "nl \<le> m" "m < nr" unfolding m_def using seg_mid_between [OF wf(1)] by simp_all
    have side: "\<exists>c' n'. (case child_or_new c a b n of (c, n) \<Rightarrow> Option.bind (seg_insert c l r eid n) (\<lambda>(c', n'). Some (Some c', n'))) =
        Some (Some c', n') \<and> child_ok (Some c') a b \<and>
        (\<forall>idx. a \<le> idx \<longrightarrow> idx \<le> b \<longrightarrow> collected (Some c') idx = collected c idx \<union> (if l \<le> idx \<and> idx \<le> r then {eid} else {}))"
      if c: "child_ok c a b" "0 \<le> a" "a \<le> b" "b - a < nr - nl" "a \<le> r" "l \<le> b" for c a b n
    proof -
      obtain u k where u: "child_or_new c a b n = (u, k)" "seg_wf u" "seg_l u = a" "seg_r u = b" "\<forall>idx. collected (Some u) idx = collected c idx"
        by (rule child_or_new_ok [OF c(1-3), of n])
      have "nat (seg_r u - seg_l u) < nat (seg_r t - seg_l t)" using c(3,4) u(3,4) by (simp add: t)
      from less.hyps [OF this u(2), of k] obtain u' k' where "seg_insert u l r eid k = Some (u', k')" "inserted u l r eid u'"
        using c(5,6) u(3,4) less.prems(4) by blast
      then show ?thesis using u by (simp add: inserted_def child_ok_def)
    qed
    define left where "left k = (if l \<le> m then (case child_or_new lc nl m k of (c, n) \<Rightarrow>
        Option.bind (seg_insert c l r eid n) (\<lambda>(c', n'). Some (Some c', n'))) else Some (lc, k))" for k
    define right where "right k = (if r > m then (case child_or_new rc (m + 1) nr k of (c, n) \<Rightarrow>
        Option.bind (seg_insert c l r eid n) (\<lambda>(c', n'). Some (Some c', n'))) else Some (rc, k))" for k
    obtain lc' n1 where l1: "left n = Some (lc', n1)" "child_ok lc' nl m"
      "\<forall>idx. nl \<le> idx \<longrightarrow> idx \<le> m \<longrightarrow> collected lc' idx = collected lc idx \<union> (if l \<le> idx \<and> idx \<le> r then {eid} else {})"
      using side [OF wf(4,1) m(1), of n] m less.prems(2) wf(4) by (cases "l \<le> m") (auto simp: left_def t)
    obtain rc' n2 where r1: "right n1 = Some (rc', n2)" "child_ok rc' (m + 1) nr"
      "\<forall>idx. m < idx \<longrightarrow> idx \<le> nr \<longrightarrow> collected rc' idx = collected rc idx \<union> (if l \<le> idx \<and> idx \<le> r then {eid} else {})"
      using side [OF wf(5), of n1] m wf(1) less.prems(3) wf(5) by (cases "r > m") (auto simp: right_def t)
    have "seg_insert t l r eid n = Option.bind (left n) (\<lambda>(lc', k). Option.bind (right k) (\<lambda>(rc', k').
        Some (SegNode nl nr es lc' rc' leaf, k')))"
      by (subst seg_insert.simps) (simp only: t SegmentTreeNode.case False if_False m_def [symmetric] left_def right_def)
    then have "seg_insert t l r eid n = Some (SegNode nl nr es lc' rc' leaf, n2)" using l1(1) r1(1) by simp
    moreover have "inserted t l r eid (SegNode nl nr es lc' rc' leaf)"
      using wf l1(2,3) r1(2,3) lt by (auto simp: inserted_def t m_def [symmetric])
    ultimately show ?thesis by blast
  qed
qed

end
