(* ===== verification/Utf8.thy ===== *)
theory Utf8
  imports GoValue "HOL-Library.Sublist"
begin

text \<open>
  The conversions between strings and runes that the keyword matchers use: \<^verbatim>\<open>[]rune(s)\<close>,
  \<^verbatim>\<open>string(runes)\<close>, and \<^verbatim>\<open>util.RunesToBytes\<close>. A string is a list of bytes; decoding follows the
  language specification: a byte that starts no valid sequence becomes U+FFFD.
\<close>

type_synonym rune = nat

definition RuneError :: rune where "RuneError = 0xFFFD"

definition byte_of :: "char \<Rightarrow> nat" where "byte_of c = of_char c"

definition is_cont :: "nat \<Rightarrow> bool" where "is_cont b \<longleftrightarrow> 0x80 \<le> b \<and> b \<le> 0xBF"

definition valid_rune :: "rune \<Rightarrow> bool" where
  "valid_rune r \<longleftrightarrow> r < 0xD800 \<or> 0xE000 \<le> r \<and> r \<le> 0x10FFFF"

subsection \<open>Encoding\<close>

text \<open>\<^verbatim>\<open>utf8.EncodeRune\<close> writes U+FFFD for what is not a code point.\<close>

definition EncodeRune :: "rune \<Rightarrow> string" where
  "EncodeRune r =
     (let r = (if valid_rune r then r else RuneError)
      in if r < 0x80 then [char_of r]
         else if r < 0x800 then [char_of (0xC0 + r div 64), char_of (0x80 + r mod 64)]
         else if r < 0x10000
         then [char_of (0xE0 + r div 4096), char_of (0x80 + r div 64 mod 64), char_of (0x80 + r mod 64)]
         else [char_of (0xF0 + r div 262144), char_of (0x80 + r div 4096 mod 64), char_of (0x80 + r div 64 mod 64),
               char_of (0x80 + r mod 64)])"

definition runes_string :: "rune list \<Rightarrow> string" where
  "runes_string rs = concat (map EncodeRune rs)"

subsection \<open>Decoding\<close>

text \<open>The code point of the sequence at the front of a string and its width.\<close>

definition two_bytes :: "nat \<Rightarrow> nat \<Rightarrow> bool" where
  "two_bytes a b \<longleftrightarrow> 0xC2 \<le> a \<and> a \<le> 0xDF \<and> is_cont b"

definition three_bytes :: "nat \<Rightarrow> nat \<Rightarrow> nat \<Rightarrow> bool" where
  "three_bytes a b c \<longleftrightarrow> 0xE0 \<le> a \<and> a \<le> 0xEF \<and> is_cont b \<and> is_cont c \<and>
     (a = 0xE0 \<longrightarrow> 0xA0 \<le> b) \<and> (a = 0xED \<longrightarrow> b \<le> 0x9F)"

definition four_bytes :: "nat \<Rightarrow> nat \<Rightarrow> nat \<Rightarrow> nat \<Rightarrow> bool" where
  "four_bytes a b c d \<longleftrightarrow> 0xF0 \<le> a \<and> a \<le> 0xF4 \<and> is_cont b \<and> is_cont c \<and> is_cont d \<and>
     (a = 0xF0 \<longrightarrow> 0x90 \<le> b) \<and> (a = 0xF4 \<longrightarrow> b \<le> 0x8F)"

definition DecodeRune :: "string \<Rightarrow> rune \<times> nat" where
  "DecodeRune s =
     (case map byte_of s of
        [] \<Rightarrow> (RuneError, 0)
      | a # bs \<Rightarrow>
          (if a < 0x80 then (a, 1)
           else (case bs of
                   [] \<Rightarrow> (RuneError, 1)
                 | b # cs \<Rightarrow>
                     (if two_bytes a b then ((a - 0xC0) * 64 + (b - 0x80), 2)
                      else (case cs of
                              [] \<Rightarrow> (RuneError, 1)
                            | c # ds \<Rightarrow>
                                (if three_bytes a b c
                                 then ((a - 0xE0) * 4096 + (b - 0x80) * 64 + (c - 0x80), 3)
                                 else (case ds of
                                         [] \<Rightarrow> (RuneError, 1)
                                       | d # _ \<Rightarrow>
                                           (if four_bytes a b c d
                                            then ((a - 0xF0) * 262144 + (b - 0x80) * 4096 + (c - 0x80) * 64 + (d - 0x80), 4)
                                            else (RuneError, 1)))))))))"

lemma DecodeRune_width: "s \<noteq> [] \<Longrightarrow> 1 \<le> snd (DecodeRune s)"
  by (auto simp: DecodeRune_def split: list.split)

function string_runes :: "string \<Rightarrow> rune list" where
  "string_runes s = (if s = [] then [] else fst (DecodeRune s) # string_runes (drop (snd (DecodeRune s)) s))"
  by pat_completeness auto
termination
proof (relation "measure length")
  fix s :: string assume "s \<noteq> []"
  then show "(drop (snd (DecodeRune s)) s, s) \<in> measure length" using DecodeRune_width [of s] by simp
qed simp

declare string_runes.simps [simp del]

lemma string_runes_Nil [simp]: "string_runes [] = []"
  by (simp add: string_runes.simps)

subsection \<open>Round trip\<close>

lemma byte_of_char_of: "n < 256 \<Longrightarrow> byte_of (char_of n) = n"
  by (simp add: byte_of_def)

text \<open>The base-64 digits of a rune.\<close>

lemma digits64:
  fixes r :: nat
  obtains w x y z where "r = w * 262144 + x * 4096 + y * 64 + z" "x \<le> 63" "y \<le> 63" "z \<le> 63"
    "r mod 64 = z" "r div 64 mod 64 = y" "r div 4096 mod 64 = x" "r div 262144 = w" "r div 4096 = w * 64 + x"
    "r div 64 = w * 4096 + x * 64 + y"
proof -
  have d: "r div 4096 = r div 64 div 64" "r div 262144 = r div 64 div 64 div 64" by (simp_all flip: div_mult2_eq)
  have m: "(n :: nat) mod 64 \<le> 63" for n by (simp add: less_Suc_eq_le [symmetric])
  have 1: "r = r div 64 * 64 + r mod 64" by simp
  have 2: "r div 64 = r div 4096 * 64 + r div 64 mod 64" unfolding d by simp
  have 3: "r div 4096 = r div 262144 * 64 + r div 4096 mod 64" unfolding d by simp
  show ?thesis
  proof (rule that [of "r div 262144" "r div 4096 mod 64" "r div 64 mod 64" "r mod 64"])
    show "r div 64 = r div 262144 * 4096 + r div 4096 mod 64 * 64 + r div 64 mod 64" using 2 3 by linarith
    then show "r = r div 262144 * 262144 + r div 4096 mod 64 * 4096 + r div 64 mod 64 * 64 + r mod 64" using 1 by linarith
  qed (use m 3 in auto)
qed

lemma DecodeRune_EncodeRune:
  assumes v: "valid_rune r"
  shows "DecodeRune (EncodeRune r @ s) = (r, length (EncodeRune r))"
proof -
  obtain w x y z where r: "r = w * 262144 + x * 4096 + y * 64 + z" and le: "x \<le> 63" "y \<le> 63" "z \<le> 63"
    and d: "r mod 64 = z" "r div 64 mod 64 = y" "r div 4096 mod 64 = x" "r div 262144 = w" "r div 4096 = w * 64 + x"
    "r div 64 = w * 4096 + x * 64 + y" by (rule digits64)
  have rng: "r < 0xD800 \<or> 0xE000 \<le> r \<and> r \<le> 0x10FFFF" using v by (simp add: valid_rune_def)
  consider (1) "r < 0x80" | (2) "0x80 \<le> r" "r < 0x800" | (3) "0x800 \<le> r" "r < 0x10000" | (4) "0x10000 \<le> r" by linarith
  then show ?thesis
  proof cases
    case 1
    then show ?thesis using v by (simp add: DecodeRune_def EncodeRune_def byte_of_char_of)
  next
    case 2
    then have "w = 0" "x = 0" using r by linarith+
    then have yz: "r = y * 64 + z" "2 \<le> y" "y \<le> 31" using r 2 le by linarith+
    have "EncodeRune r = [char_of (0xC0 + y), char_of (0x80 + z)]"
      using 2 v d \<open>w = 0\<close> \<open>x = 0\<close> by (simp add: EncodeRune_def)
    moreover have "two_bytes (0xC0 + y) (0x80 + z)" using yz le by (simp add: two_bytes_def is_cont_def)
    ultimately show ?thesis using yz(1,3) le by (simp add: DecodeRune_def byte_of_char_of)
  next
    case 3
    then have w: "w = 0" using r by linarith
    then have e: "r = x * 4096 + y * 64 + z" using r by simp
    have x: "x \<le> 15" "x = 0 \<longrightarrow> 32 \<le> y" "x = 13 \<longrightarrow> y \<le> 31" using e 3 le rng by linarith+
    have "EncodeRune r = [char_of (0xE0 + x), char_of (0x80 + y), char_of (0x80 + z)]"
      using 3 v d w by (simp add: EncodeRune_def)
    moreover have "\<not> two_bytes (0xE0 + x) b" for b by (simp add: two_bytes_def)
    moreover have "three_bytes (0xE0 + x) (0x80 + y) (0x80 + z)" using x le by (auto simp: three_bytes_def is_cont_def)
    ultimately show ?thesis using e x(1) le by (simp add: DecodeRune_def byte_of_char_of)
  next
    case 4
    have w: "w \<le> 4" "w = 0 \<longrightarrow> 16 \<le> x" "w = 4 \<longrightarrow> x \<le> 15" using r 4 le rng by linarith+
    have "EncodeRune r = [char_of (0xF0 + w), char_of (0x80 + x), char_of (0x80 + y), char_of (0x80 + z)]"
      using 4 v by (simp add: EncodeRune_def d(1-4))
    moreover have "\<not> two_bytes (0xF0 + w) b" "\<not> three_bytes (0xF0 + w) b c" for b c
      by (simp_all add: two_bytes_def three_bytes_def)
    moreover have "four_bytes (0xF0 + w) (0x80 + x) (0x80 + y) (0x80 + z)" using w le by (auto simp: four_bytes_def is_cont_def)
    ultimately show ?thesis using r w(1) le by (simp add: DecodeRune_def byte_of_char_of)
  qed
qed

lemma EncodeRune_Nil [simp]: "EncodeRune r \<noteq> []"
  by (simp add: EncodeRune_def Let_def)

lemma runes_string_simps [simp]:
  "runes_string [] = []" "runes_string (r # rs) = EncodeRune r @ runes_string rs"
  "runes_string (rs @ qs) = runes_string rs @ runes_string qs"
  by (simp_all add: runes_string_def)

lemma string_runes_append:
  "\<forall>r\<in>set rs. valid_rune r \<Longrightarrow> string_runes (runes_string rs @ s) = rs @ string_runes s"
proof (induction rs)
  case (Cons r rs)
  then have "DecodeRune (EncodeRune r @ runes_string rs @ s) = (r, length (EncodeRune r))"
    by (simp add: DecodeRune_EncodeRune)
  then show ?case using Cons by (simp add: string_runes.simps [of "EncodeRune r @ runes_string rs @ s"])
qed simp

lemma string_runes_encode: "\<forall>r\<in>set rs. valid_rune r \<Longrightarrow> string_runes (runes_string rs) = rs"
  using string_runes_append [of rs "[]"] by simp

text \<open>The strings that survive the conversion: valid UTF-8.\<close>

definition valid_utf8 :: "string \<Rightarrow> bool" where
  "valid_utf8 s \<longleftrightarrow> runes_string (string_runes s) = s"

lemma EncodeRune_RuneError: "EncodeRune (if valid_rune r then r else RuneError) = EncodeRune r"
  by (simp add: EncodeRune_def valid_rune_def RuneError_def)

lemma three_bytes_valid: "three_bytes a b c \<Longrightarrow> valid_rune ((a - 0xE0) * 4096 + (b - 0x80) * 64 + (c - 0x80))"
proof -
  assume t: "three_bytes a b c"
  define x y z where e: "x = a - 0xE0" "y = b - 0x80" "z = c - 0x80"
  have b: "x \<le> 15" "y \<le> 63" "z \<le> 63" and surrogate: "x = 13 \<Longrightarrow> y \<le> 31"
    using t by (auto simp: three_bytes_def is_cont_def e)
  consider "x \<le> 12" | "x = 13" "y \<le> 31" | "14 \<le> x" using surrogate by fastforce
  then show ?thesis unfolding e [symmetric] valid_rune_def using b by cases simp_all
qed

lemma four_bytes_valid:
  "four_bytes a b c d \<Longrightarrow> valid_rune ((a - 0xF0) * 262144 + (b - 0x80) * 4096 + (c - 0x80) * 64 + (d - 0x80))"
proof -
  assume t: "four_bytes a b c d"
  define w x y z where e: "w = a - 0xF0" "x = b - 0x80" "y = c - 0x80" "z = d - 0x80"
  have b: "w \<le> 4" "x \<le> 63" "y \<le> 63" "z \<le> 63" and "w = 0 \<Longrightarrow> 16 \<le> x" and "w = 4 \<Longrightarrow> x \<le> 15"
    using t by (auto simp: four_bytes_def is_cont_def e)
  then consider "w = 0" "16 \<le> x" | "1 \<le> w" "w \<le> 3" | "w = 4" "x \<le> 15" by fastforce
  then show ?thesis unfolding e [symmetric] valid_rune_def using b by cases simp_all
qed

lemma DecodeRune_valid: "valid_rune (fst (DecodeRune s))"
proof -
  have "valid_rune RuneError" by (simp add: valid_rune_def RuneError_def)
  moreover have "a < 0x80 \<Longrightarrow> valid_rune a" for a by (simp add: valid_rune_def)
  moreover have "valid_rune ((a - 0xC0) * 64 + (b - 0x80))" if "two_bytes a b" for a b
  proof -
    have "a - 0xC0 \<le> 31" "b - 0x80 \<le> 63" using that by (auto simp: two_bytes_def is_cont_def)
    then show ?thesis by (simp add: valid_rune_def)
  qed
  ultimately show ?thesis by (auto simp: DecodeRune_def three_bytes_valid four_bytes_valid split: list.split)
qed

lemma string_runes_valid: "r \<in> set (string_runes s) \<Longrightarrow> valid_rune r"
proof (induction s rule: string_runes.induct)
  case (1 s)
  then show ?case using DecodeRune_valid by (subst (asm) (2) string_runes.simps) (auto split: if_splits)
qed

text \<open>
  Decoding undoes encoding on every sequence of runes (what is not a code point becomes
  U+FFFD), and a string survives the conversion to runes and back exactly when it is the
  encoding of some code points.
\<close>

lemma string_runes_runes_string:
  "string_runes (runes_string rs) = map (\<lambda>r. if valid_rune r then r else RuneError) rs"
proof -
  let ?c = "\<lambda>r. if valid_rune r then r else RuneError"
  have "runes_string (map ?c rs) = runes_string rs" by (simp add: runes_string_def EncodeRune_RuneError comp_def)
  moreover have "string_runes (runes_string (map ?c rs)) = map ?c rs"
    by (rule string_runes_encode) (auto simp: valid_rune_def RuneError_def)
  ultimately show ?thesis by simp
qed

lemma valid_utf8_iff: "valid_utf8 s \<longleftrightarrow> s \<in> runes_string ` {rs. list_all valid_rune rs}"
proof
  assume "valid_utf8 s"
  then have "s = runes_string (string_runes s)" by (simp add: valid_utf8_def)
  moreover have "list_all valid_rune (string_runes s)" by (simp add: list_all_iff string_runes_valid)
  ultimately show "s \<in> runes_string ` {rs. list_all valid_rune rs}" by blast
next
  assume "s \<in> runes_string ` {rs. list_all valid_rune rs}"
  then show "valid_utf8 s" by (auto simp: list_all_iff valid_utf8_def string_runes_encode)
qed

lemma string_runes_all_valid [simp]: "\<forall>r\<in>set (string_runes s). valid_rune r"
  by (simp add: string_runes_valid)

lemma string_runes_string_runes [simp]: "string_runes (runes_string (string_runes s)) = string_runes s"
  by (rule string_runes_encode) simp

lemma valid_utf8_Nil [simp]: "valid_utf8 []"
  by (simp add: valid_utf8_def)

lemma string_runes_append_valid: "valid_utf8 s \<Longrightarrow> string_runes (s @ t) = string_runes s @ string_runes t"
  using string_runes_append [of "string_runes s" t] by (simp add: valid_utf8_def)

lemma valid_utf8_append: "valid_utf8 s \<Longrightarrow> valid_utf8 t \<Longrightarrow> valid_utf8 (s @ t)"
  using string_runes_append_valid [of s t] by (simp add: valid_utf8_def)

lemma string_runes_eq_Nil [simp]: "string_runes s = [] \<longleftrightarrow> s = []"
  by (simp add: string_runes.simps [of s])

lemma ascii_runes:
  assumes "list_all (\<lambda>c. byte_of c < 0x80) s"
  shows "string_runes s = map byte_of s" "valid_utf8 s"
proof -
  show r: "string_runes s = map byte_of s" using assms
    by (induction s) (simp_all add: string_runes.simps [of "_ # _"] DecodeRune_def)
  have "runes_string (map byte_of s) = s" using assms
    by (induction s) (simp_all add: EncodeRune_def valid_rune_def byte_of_def)
  then show "valid_utf8 s" by (simp add: valid_utf8_def r)
qed

subsection \<open>Substrings\<close>

text \<open>
  UTF-8 synchronises itself: the first byte of a sequence is no continuation byte, the others
  are. So a keyword occurs in a text as runes exactly where it occurs as bytes.
\<close>

lemma EncodeRune_bytes:
  obtains a bs where "EncodeRune r = a # bs" "\<not> is_cont (byte_of a)" "\<forall>b\<in>set bs. is_cont (byte_of b)"
proof -
  define q where "q = (if valid_rune r then r else RuneError)"
  have q: "valid_rune q" by (simp add: q_def valid_rune_def RuneError_def)
  have "EncodeRune r = EncodeRune q" by (simp add: q_def EncodeRune_RuneError)
  then have e: "EncodeRune r =
      (if q < 0x80 then [char_of q]
       else if q < 0x800 then [char_of (0xC0 + q div 64), char_of (0x80 + q mod 64)]
       else if q < 0x10000
       then [char_of (0xE0 + q div 4096), char_of (0x80 + q div 64 mod 64), char_of (0x80 + q mod 64)]
       else [char_of (0xF0 + q div 262144), char_of (0x80 + q div 4096 mod 64), char_of (0x80 + q div 64 mod 64),
             char_of (0x80 + q mod 64)])"
    unfolding EncodeRune_def Let_def using q by simp
  have lim: "q \<le> 0x10FFFF" using q by (auto simp: valid_rune_def)
  have m: "n mod 64 < 64" for n :: nat by simp
  have d: "q < 0x800 \<Longrightarrow> q div 64 < 32" "q < 0x10000 \<Longrightarrow> q div 4096 < 16" "q div 262144 \<le> 4"
    using lim by (auto simp: less_mult_imp_div_less)
  have cont: "is_cont (byte_of (char_of (0x80 + n mod 64)))" for n :: nat
    using m [of n] by (simp add: byte_of_char_of is_cont_def)
  consider "q < 0x80" | "0x80 \<le> q" "q < 0x800" | "0x800 \<le> q" "q < 0x10000" | "0x10000 \<le> q" by linarith
  then show ?thesis
  proof cases
    case 1
    then show ?thesis by (intro that [of "char_of q" "[]"]) (simp_all add: e byte_of_char_of is_cont_def)
  next
    case 2
    then show ?thesis using d(1)
      by (intro that [of "char_of (0xC0 + q div 64)" "[char_of (0x80 + q mod 64)]"])
         (simp_all add: e cont, simp_all add: byte_of_char_of is_cont_def)
  next
    case 3
    then show ?thesis using d(2)
      by (intro that [of "char_of (0xE0 + q div 4096)" "[char_of (0x80 + q div 64 mod 64), char_of (0x80 + q mod 64)]"])
         (simp_all add: e cont, simp_all add: byte_of_char_of is_cont_def)
  next
    case 4
    then show ?thesis using d(3)
      by (intro that [of "char_of (0xF0 + q div 262144)"
            "[char_of (0x80 + q div 4096 mod 64), char_of (0x80 + q div 64 mod 64), char_of (0x80 + q mod 64)]"])
         (simp_all add: e cont, simp_all add: byte_of_char_of is_cont_def)
  qed
qed

lemma runes_string_split:
  assumes "runes_string cs = p @ k" "k = [] \<or> \<not> is_cont (byte_of (hd k))"
  shows "\<exists>as bs. cs = as @ bs \<and> runes_string as = p \<and> runes_string bs = k"
  using assms(1)
proof (induction cs arbitrary: p)
  case (Cons c cs)
  obtain a bs where e: "EncodeRune c = a # bs" "\<forall>b\<in>set bs. is_cont (byte_of b)" by (rule EncodeRune_bytes)
  obtain us where "EncodeRune c = p @ us \<and> us @ runes_string cs = k \<or> p = EncodeRune c @ us \<and> runes_string cs = us @ k"
    using Cons.prems by (auto simp: append_eq_append_conv2)
  then show ?case
  proof (elim disjE conjE)
    assume c: "p = EncodeRune c @ us" "runes_string cs = us @ k"
    then obtain as bs where "cs = as @ bs" "runes_string as = us" "runes_string bs = k" using Cons.IH by blast
    then show ?thesis using c(1) by (intro exI [of _ "c # as"] exI [of _ bs]) simp
  next
    assume c: "EncodeRune c = p @ us" "us @ runes_string cs = k"
    consider "p = []" | "us = []" | x ps y zs where "p = x # ps" "us = y # zs" by (cases p; cases us) auto
    then show ?thesis
    proof cases
      case 1
      then show ?thesis using c by (intro exI [of _ "[]"] exI [of _ "c # cs"]) simp
    next
      case 2
      then show ?thesis using c by (intro exI [of _ "[c]"] exI [of _ cs]) simp
    next
      case 3
      then have "y \<in> set bs" using e(1) c(1) by auto
      then show ?thesis using e(2) assms(2) c(2) 3 by auto
    qed
  qed
qed auto

lemma sublist_runes:
  assumes k: "valid_utf8 k" "k \<noteq> []" and t: "valid_utf8 t"
  shows "sublist (string_runes k) (string_runes t) \<longleftrightarrow> sublist k t"
proof
  assume "sublist (string_runes k) (string_runes t)"
  then obtain x y where "string_runes t = x @ string_runes k @ y" by (auto simp: sublist_def)
  then have "runes_string (string_runes t) = runes_string x @ runes_string (string_runes k) @ runes_string y" by simp
  then show "sublist k t" using k(1) t by (auto simp: valid_utf8_def sublist_def)
next
  assume "sublist k t"
  then obtain x y where xy: "t = x @ k @ y" by (auto simp: sublist_def)
  obtain c cs where "string_runes k = c # cs" using k(2) by (cases "string_runes k") auto
  then have "k = EncodeRune c @ runes_string cs" using k(1) by (metis runes_string_simps(2) valid_utf8_def)
  then have "\<not> is_cont (byte_of (hd (k @ y)))" using EncodeRune_bytes [of c] by (metis append_Cons list.sel(1))
  moreover have "runes_string (string_runes t) = x @ k @ y" using t xy by (simp add: valid_utf8_def)
  ultimately obtain as bs where b: "string_runes t = as @ bs" "runes_string bs = k @ y"
    using runes_string_split [of "string_runes t" x "k @ y"] by blast
  have "\<forall>r\<in>set bs. valid_rune r" using string_runes_all_valid [of t] b(1) by simp
  then have "bs = string_runes k @ string_runes y"
    using string_runes_encode [of bs] string_runes_append_valid [OF k(1), of y] b(2) by simp
  then show "sublist (string_runes k) (string_runes t)" using b(1) by (auto simp: sublist_def)
qed

end
