(* ===== verification/AhoMatch.thy ===== *)
theory AhoMatch
  imports Utf8 Document Parser
begin

text \<open>
  Model of \<^verbatim>\<open>holder/ahoholder/aho_match_helper.go\<close> and of \<^verbatim>\<open>util.RunesToBytes\<close>: the keywords of an
  expression and the text of a query, which the keyword holder and the keyword container of
  the roaring index share. The Aho-Corasick machine is a library: its two functions are
  parameters, and \<open>aho_spec\<close> is what its documentation promises.
\<close>

subsection \<open>Keywords and texts\<close>

text \<open>A \<^verbatim>\<open>[]byte\<close> is a slice of \<^verbatim>\<open>uint8\<close>.\<close>

definition byte_string :: "int list \<Rightarrow> string" where
  "byte_string bs = map (\<lambda>b. char_of (nat b)) bs"

fun any_string :: "gval \<Rightarrow> string res" where
  "any_string (VStr s) = Inr s"
| "any_string _ = Inl (Err ''not string(able) value'')"

fun ParseAcMatchDict :: "gval \<Rightarrow> string list res" where
  "ParseAcMatchDict (VStr v) = Inr [v]"
| "ParseAcMatchDict (VIntS KUint8 v) = Inr [byte_string (elems v)]"
| "ParseAcMatchDict (VStrS v) = Inr (elems v)"
| "ParseAcMatchDict (VAnyS v) = map_res any_string (elems v)"
| "ParseAcMatchDict _ = Inl (Err ''not string(able) value'')"

text \<open>\<^verbatim>\<open>strings.Join\<close>.\<close>

fun strings_Join :: "string \<Rightarrow> string list \<Rightarrow> string" where
  "strings_Join sep [] = []"
| "strings_Join sep [s] = s"
| "strings_Join sep (s # t # ss) = s @ sep @ strings_Join sep (t # ss)"

fun content_loop :: "string \<Rightarrow> nat \<Rightarrow> gval list \<Rightarrow> rune list \<Rightarrow> rune list res" where
  "content_loop joinSep idx [] data = Inr data"
| "content_loop joinSep idx (vi # tv) data =
     (case vi of
        VStr str \<Rightarrow>
          (let data = (if idx > 0 then data @ string_runes joinSep else data)
           in content_loop joinSep (idx + 1) tv (data @ string_runes str))
      | _ \<Rightarrow> Inl (Err ''query assign not string type''))"

fun BuildAcMatchContent :: "gval \<Rightarrow> string \<Rightarrow> rune list res" where
  "BuildAcMatchContent (VStr tv) joinSep = Inr (string_runes tv)"
| "BuildAcMatchContent (VStrS tv) joinSep = Inr (string_runes (strings_Join joinSep (elems tv)))"
| "BuildAcMatchContent (VAnyS tv) joinSep = content_loop joinSep 0 (elems tv) []"
| "BuildAcMatchContent _ joinSep = Inl (Err ''query assign not string type'')"

subsection \<open>RunesToBytes\<close>

text \<open>\<^verbatim>\<open>utf8.RuneLen\<close>: -1 for what is not a code point, although its encoding takes three bytes.\<close>

definition RuneLen :: "rune \<Rightarrow> int" where
  "RuneLen r = (if valid_rune r then int (length (EncodeRune r)) else - 1)"

text \<open>Writing beyond the allocated slice panics.\<close>

fun RunesToBytes_loop :: "int \<Rightarrow> rune list \<Rightarrow> string \<Rightarrow> string res" where
  "RunesToBytes_loop sz [] bs = Inr bs"
| "RunesToBytes_loop sz (r # rs) bs =
     (if int (length bs) + int (length (EncodeRune r)) > sz then Inl (Panic ''index out of range'')
      else RunesToBytes_loop sz rs (bs @ EncodeRune r))"

definition RunesToBytes :: "rune list \<Rightarrow> string res" where
  "RunesToBytes rs =
     (let sz = sum_list (map RuneLen rs)
      in if sz < 0 then Inl (Panic ''makeslice: len out of range'') else RunesToBytes_loop sz rs [])"

subsection \<open>The machine\<close>

text \<open>
  A machine is known by the keywords it was last built from. \<open>aho_Build\<close> says whether
  building fails, \<open>aho_Search\<close> which words \<^verbatim>\<open>MultiPatternSearch\<close> finds in a text.
\<close>

record aho_machine =
  aho_Build :: "rune list list \<Rightarrow> gerr option"
  aho_Search :: "rune list list option \<Rightarrow> rune list \<Rightarrow> rune list list res"
  aho_keys :: "rune list list option"

definition Machine_Build :: "aho_machine \<Rightarrow> rune list list \<Rightarrow> aho_machine res" where
  "Machine_Build m keys =
     (case aho_Build m keys of Some e \<Rightarrow> Inl e | None \<Rightarrow> Inr (m\<lparr>aho_keys := Some keys\<rparr>))"

definition MultiPatternSearch :: "aho_machine \<Rightarrow> rune list \<Rightarrow> rune list list res" where
  "MultiPatternSearch m content = aho_Search m (aho_keys m) content"

text \<open>
  The documented behaviour: a machine can be built from every non-empty dictionary, a search
  reports each keyword as if it were the only one, and a keyword that is not empty is found
  exactly when it occurs in the text. Whether an empty keyword is found is left open.
\<close>

definition aho_finds :: "aho_machine \<Rightarrow> rune list \<Rightarrow> rune list \<Rightarrow> bool" where
  "aho_finds m w content \<longleftrightarrow> (case aho_Search m (Some [w]) content of Inl _ \<Rightarrow> False | Inr ws \<Rightarrow> w \<in> set ws)"

definition aho_spec :: "aho_machine \<Rightarrow> bool" where
  "aho_spec m \<longleftrightarrow>
     (\<forall>ks. ks \<noteq> [] \<longrightarrow> aho_Build m ks = None) \<and>
     (\<forall>ks content. ks \<noteq> [] \<longrightarrow>
        (\<exists>ws. aho_Search m (Some ks) content = Inr ws \<and> set ws = {w\<in>set ks. aho_finds m w content})) \<and>
     (\<forall>w content. w \<noteq> [] \<longrightarrow> aho_finds m w content = sublist w content)"

text \<open>
  A keyword whose bytes are not UTF-8 is looked up under another string than it is stored
  under, so it never matches.
\<close>

definition keyword_match :: "aho_machine \<Rightarrow> string \<Rightarrow> rune list \<Rightarrow> bool" where
  "keyword_match m k content \<longleftrightarrow> valid_utf8 k \<and> aho_finds m (string_runes k) content"

subsection \<open>Laws\<close>

lemma aho_finds_keys [simp]: "aho_finds (m\<lparr>aho_keys := ks\<rparr>) = aho_finds m"
  by (simp add: fun_eq_iff aho_finds_def)

lemma aho_spec_keys [simp]: "aho_spec (m\<lparr>aho_keys := ks\<rparr>) = aho_spec m"
  by (simp add: aho_spec_def)

lemma keyword_match_keys [simp]: "keyword_match (m\<lparr>aho_keys := ks\<rparr>) = keyword_match m"
  by (simp add: fun_eq_iff keyword_match_def)

lemma keyword_match_sublist:
  assumes "aho_spec m" "k \<noteq> []"
  shows "keyword_match m k content \<longleftrightarrow> valid_utf8 k \<and> sublist (string_runes k) content"
  using assms by (simp add: keyword_match_def aho_spec_def)

lemma Machine_Build_ok: "aho_spec m \<Longrightarrow> ks \<noteq> [] \<Longrightarrow> Machine_Build m ks = Inr (m\<lparr>aho_keys := Some ks\<rparr>)"
  by (simp add: aho_spec_def Machine_Build_def)

text \<open>
  The words a search finds, put back into strings, are keywords that match; every matching
  keyword is among them.
\<close>

lemma search_keywords:
  assumes "aho_spec m" "aho_keys m = Some (map string_runes ks)" "ks \<noteq> []"
  obtains ws where "MultiPatternSearch m content = Inr ws"
    "runes_string ` set ws \<inter> set ks = {k\<in>set ks. keyword_match m k content}"
    "set ws \<subseteq> string_runes ` set ks"
proof -
  have "map string_runes ks \<noteq> []" using assms(3) by simp
  then obtain ws where s: "aho_Search m (Some (map string_runes ks)) content = Inr ws"
    "set ws = {w\<in>set (map string_runes ks). aho_finds m w content}"
    using assms(1) unfolding aho_spec_def by blast
  then have ws: "MultiPatternSearch m content = Inr ws" "set ws = {w\<in>string_runes ` set ks. aho_finds m w content}"
    by (simp_all add: MultiPatternSearch_def assms(2))
  have "runes_string ` set ws \<inter> set ks = {k\<in>set ks. keyword_match m k content}"
  proof (intro set_eqI iffI)
    fix k assume "k \<in> runes_string ` set ws \<inter> set ks"
    then obtain j where "k = runes_string (string_runes j)" "aho_finds m (string_runes j) content" "k \<in> set ks"
      using ws(2) by auto
    then show "k \<in> {k\<in>set ks. keyword_match m k content}" by (simp add: keyword_match_def valid_utf8_def)
  next
    fix k assume "k \<in> {k\<in>set ks. keyword_match m k content}"
    then have k: "k \<in> set ks" "aho_finds m (string_runes k) content" "runes_string (string_runes k) = k"
      by (auto simp: keyword_match_def valid_utf8_def)
    then have "string_runes k \<in> set ws" using ws(2) by simp
    then show "k \<in> runes_string ` set ws \<inter> set ks" using k by force
  qed
  then show ?thesis using that ws by blast
qed

lemma valid_utf8_Join: "valid_utf8 sep \<Longrightarrow> list_all valid_utf8 ss \<Longrightarrow> valid_utf8 (strings_Join sep ss)"
  by (induction sep ss rule: strings_Join.induct) (simp_all add: valid_utf8_append)

lemma content_loop_later:
  assumes "valid_utf8 sep" "list_all valid_utf8 ss" "ss \<noteq> []" "idx > 0"
  shows "content_loop sep idx (map VStr ss) data = Inr (data @ string_runes sep @ string_runes (strings_Join sep ss))"
  using assms
proof (induction sep ss arbitrary: idx data rule: strings_Join.induct)
  case (3 sep s t ss)
  have "string_runes (strings_Join sep (s # t # ss)) =
      string_runes s @ string_runes sep @ string_runes (strings_Join sep (t # ss))"
    using 3(2,3) by (simp add: string_runes_append_valid)
  then show ?case using 3(1) [of "Suc idx" "data @ string_runes sep @ string_runes s"] 3(2-) by simp
qed simp_all

lemma RunesToBytes_loop_fits:
  "RunesToBytes_loop sz rs bs =
     (if rs = [] \<or> int (length bs) + int (length (runes_string rs)) \<le> sz then Inr (bs @ runes_string rs)
      else Inl (Panic ''index out of range''))"
  by (induction rs arbitrary: bs) (auto simp: algebra_simps)

lemma RuneLen_sum:
  "sum_list (map RuneLen rs) \<le> int (length (runes_string rs)) \<and>
   (sum_list (map RuneLen rs) = int (length (runes_string rs)) \<longleftrightarrow> list_all valid_rune rs)"
  by (induction rs) (auto simp: RuneLen_def)

text \<open>A machine that tries every keyword, to evaluate the examples with.\<close>

definition naive_aho :: aho_machine where
  "naive_aho = \<lparr>aho_Build = (\<lambda>_. None),
     aho_Search = (\<lambda>ks content. Inr (filter (\<lambda>w. sublist w content) (case ks of None \<Rightarrow> [] | Some ks \<Rightarrow> ks))),
     aho_keys = None\<rparr>"

lemma naive_aho_spec: "aho_spec naive_aho"
  by (auto simp: aho_spec_def naive_aho_def aho_finds_def)

subsection \<open>Properties\<close>

text \<open>
  C31: On UTF-8 input the text of a query does not depend on how the query gives its strings: a
  slice of strings and a slice of interface values with the same strings are joined to the
  same runes, and a single string equals a slice of it.
\<close>

theorem BuildAcMatchContent_forms_agree:
  assumes "valid_utf8 sep" "list_all valid_utf8 ss"
  shows "BuildAcMatchContent (VAnyS (Slice (map VStr ss))) sep = BuildAcMatchContent (VStrS (Slice ss)) sep \<and>
    BuildAcMatchContent (VStr (strings_Join sep ss)) sep = BuildAcMatchContent (VStrS (Slice ss)) sep"
proof (cases "(sep, ss)" rule: strings_Join.cases)
  case (3 sep' s t ts)
  then have "string_runes (strings_Join sep ss) = string_runes s @ string_runes sep @ string_runes (strings_Join sep (t # ts))"
    using assms by (simp add: string_runes_append_valid)
  then show ?thesis using 3 assms content_loop_later [of sep "t # ts" 1 "string_runes s"] by simp
qed simp_all

theorem BuildAcMatchContent_forms_agree_witness:
  "BuildAcMatchContent (VAnyS (Slice [VStr ''go'', VStr ''is''])) '' '' = Inr [103, 111, 32, 105, 115]"
proof -
  have v: "valid_utf8 '' ''" "list_all valid_utf8 [''go'', ''is'']" by (simp_all add: ascii_runes byte_of_def)
  show ?thesis using BuildAcMatchContent_forms_agree [OF v] by (simp add: ascii_runes byte_of_def)
qed

text \<open>
  C32: Converting runes to bytes allocates by \<^verbatim>\<open>RuneLen\<close>, which is -1 for what is not a code
  point: the conversion returns the encoding when every rune is a code point and panics
  otherwise.
\<close>

theorem RunesToBytes_exact:
  "if list_all valid_rune rs then RunesToBytes rs = Inr (runes_string rs)
   else RunesToBytes rs \<in> {Inl (Panic ''index out of range''), Inl (Panic ''makeslice: len out of range'')}"
proof (cases "list_all valid_rune rs")
  case True
  then show ?thesis using RuneLen_sum [of rs] by (simp add: RunesToBytes_def RunesToBytes_loop_fits)
next
  case False
  then have "sum_list (map RuneLen rs) < int (length (runes_string rs))" "rs \<noteq> []"
    using RuneLen_sum [of rs] by auto
  then show ?thesis using False by (simp add: RunesToBytes_def RunesToBytes_loop_fits Let_def)
qed

end
