(* ===== verification/AcHolder.thy ===== *)
theory AcHolder
  imports HolderTypes PostingMap AhoMatch
begin

text \<open>
  Model of \<^verbatim>\<open>holder/ahoholder/ahocorasick_holder.go\<close>: a map from keywords to posting lists and an
  Aho-Corasick machine over the keywords. An expression lists keywords, a query gives a text,
  and the holder returns the entries of the keywords that occur in the text. It is
  interpreted as \<open>entries_holder\<close>; it is no \<open>strict_holder\<close>, because a holder without
  keywords answers every query.
\<close>

subsection \<open>Operations\<close>

record ACHolderOption =
  QuerySep :: string

record ACEntriesHolder = ACHolderOption +
  ac_debug :: bool
  ac_totalTokens :: int
  ac_maxLen :: int
  ac_avgLen :: int
  ac_values :: "(string \<times> Entries) list"
  ac_machine :: aho_machine

text \<open>\<open>m\<close> is \<^verbatim>\<open>new(aho.Machine)\<close>.\<close>

definition NewACEntriesHolder :: "aho_machine \<Rightarrow> ACHolderOption \<Rightarrow> ACEntriesHolder" where
  "NewACEntriesHolder m option =
     \<lparr>QuerySep = QuerySep option, ac_debug = False, ac_totalTokens = 0, ac_maxLen = 0, ac_avgLen = 0, ac_values = [],
      ac_machine = m\<lparr>aho_keys := None\<rparr>\<rparr>"

definition AcHolderTxData_Encode :: "codec \<Rightarrow> string list \<Rightarrow> bytes res" where
  "AcHolderTxData_Encode lib keys = protoMarshal lib keys"

definition AC_DecodeFieldIndexingData :: "codec \<Rightarrow> bytes \<Rightarrow> IndexingData res" where
  "AC_DecodeFieldIndexingData lib data =
     (if length data = 0 then Inr (AcHolderTxData [])
      else case protoUnmarshal lib data of Inl e \<Rightarrow> Inl e | Inr vs \<Rightarrow> Inr (AcHolderTxData vs))"

definition AC_EnableDebug :: "ACEntriesHolder \<Rightarrow> bool \<Rightarrow> ACEntriesHolder" where
  "AC_EnableDebug h debug = h\<lparr>ac_debug := debug\<rparr>"

definition AC_BuildFieldIndexingData ::
  "ACEntriesHolder \<Rightarrow> FieldDesc \<Rightarrow> BoolValues \<Rightarrow> IndexingData res"
where
  "AC_BuildFieldIndexingData h fd bv =
     (if Operator bv \<noteq> ValueOptEQ then Inl (Panic ''ac_matcher container support EQ operator only'')
      else (case ParseAcMatchDict (Value bv) of
              Inl (Err m) \<Rightarrow> Inl (Err (''ac holder need string(able) value, err:'' @ m))
            | Inl (Panic m) \<Rightarrow> Inl (Panic m)
            | Inr keys \<Rightarrow> Inr (AcHolderTxData keys)))"

definition AC_CommitFieldIndexingData ::
  "ACEntriesHolder \<Rightarrow> FieldIndexingData \<Rightarrow> ACEntriesHolder res"
where
  "AC_CommitFieldIndexingData h tx =
     (case tx_Data tx of
        None \<Rightarrow> Inr h
      | Some (AcHolderTxData keys) \<Rightarrow> Inr (h\<lparr>ac_values := append_entries (tx_EID tx) keys (ac_values h)\<rparr>)
      | Some _ \<Rightarrow> Inl (Err ''invalid Tx.Data type''))"

fun AC_cursors :: "ACEntriesHolder \<Rightarrow> FieldDesc \<Rightarrow> rune list list \<Rightarrow> EntriesCursor list" where
  "AC_cursors h fd [] = []"
| "AC_cursors h fd (term # terms) =
     (let key = runes_string term
      in case map_of (ac_values h) key of
           Some pl \<Rightarrow>
             (if length pl > 0
              then NewEntriesCursor (NewQKey (fd_Field fd) (QStr key)) pl # AC_cursors h fd terms
              else AC_cursors h fd terms)
         | None \<Rightarrow> AC_cursors h fd terms)"

definition AC_GetEntries :: "ACEntriesHolder \<Rightarrow> FieldDesc \<Rightarrow> Values \<Rightarrow> EntriesCursor list res" where
  "AC_GetEntries h fd assigns =
     (if length (ac_values h) = 0 then Inr []
      else (case BuildAcMatchContent assigns (QuerySep h) of
              Inl e \<Rightarrow> Inl e
            | Inr buf \<Rightarrow>
                (if length buf = 0 then Inr []
                 else (case MultiPatternSearch (ac_machine h) buf of
                         Inl e \<Rightarrow> Inl e
                       | Inr terms \<Rightarrow> Inr (AC_cursors h fd terms)))))"

definition AC_CompileEntries :: "ACEntriesHolder \<Rightarrow> ACEntriesHolder res" where
  "AC_CompileEntries h =
     (case sort_entries (ac_values h) (ac_maxLen h) 0 of
        (m, mx, tot) \<Rightarrow>
          (let keys = map (\<lambda>(term, entries). string_runes term) (ac_values h);
               h1 = h\<lparr>ac_values := m, ac_maxLen := mx\<rparr>;
               h2 = (if length m > 0
                     then h1\<lparr>ac_totalTokens := int (length m), ac_avgLen := tot div int (length m)\<rparr>
                     else h1)
           in if length keys = 0 then Inr h2
              else (case Machine_Build (ac_machine h) keys of
                      Inl e \<Rightarrow> Inl e
                    | Inr machine \<Rightarrow> Inr (h2\<lparr>ac_machine := machine\<rparr>))))"

subsection \<open>What the holder holds\<close>

definition ac_building :: "ACEntriesHolder \<Rightarrow> bool" where
  "ac_building h \<longleftrightarrow> posts_ok (ac_values h) \<and> aho_spec (ac_machine h)"

definition ac_ready :: "ACEntriesHolder \<Rightarrow> bool" where
  "ac_ready h \<longleftrightarrow> posts_sorted (ac_values h) \<and> aho_spec (ac_machine h) \<and>
     (ac_values h \<noteq> [] \<longrightarrow> aho_keys (ac_machine h) = Some (map string_runes (map fst (ac_values h))))"

definition ac_blank :: "ACEntriesHolder \<Rightarrow> ACEntriesHolder" where
  "ac_blank h = h\<lparr>ac_totalTokens := 0, ac_maxLen := 0, ac_avgLen := 0, ac_values := [],
     ac_machine := (ac_machine h)\<lparr>aho_keys := None\<rparr>\<rparr>"

text \<open>Every field has a holder of its own, so there is one slot.\<close>

definition ac_slot :: "ACEntriesHolder \<Rightarrow> FieldDesc \<Rightarrow> nat" where
  "ac_slot h fd = 0"

definition ac_takes :: "ACEntriesHolder \<Rightarrow> IndexingData \<Rightarrow> bool" where
  "ac_takes h d \<longleftrightarrow> (\<exists>ks. d = AcHolderTxData ks)"

definition ac_answers :: "ACEntriesHolder \<Rightarrow> FieldDesc \<Rightarrow> Values \<Rightarrow> bool" where
  "ac_answers h fd v \<longleftrightarrow> \<not> isl (BuildAcMatchContent v (QuerySep h))"

text \<open>The keywords a query asks for.\<close>

definition ac_asks :: "ACEntriesHolder \<Rightarrow> Values \<Rightarrow> string \<Rightarrow> bool" where
  "ac_asks h v k \<longleftrightarrow>
     (case BuildAcMatchContent v (QuerySep h) of
        Inl _ \<Rightarrow> False | Inr buf \<Rightarrow> buf \<noteq> [] \<and> keyword_match (ac_machine h) k buf)"

definition ac_hits :: "ACEntriesHolder \<Rightarrow> FieldDesc \<Rightarrow> IndexingData \<Rightarrow> Values \<Rightarrow> bool" where
  "ac_hits h fd d v \<longleftrightarrow> (\<exists>ks. d = AcHolderTxData ks \<and> (\<exists>k\<in>set ks. ac_asks h v k))"

definition ac_posted :: "ACEntriesHolder \<Rightarrow> FieldDesc \<Rightarrow> Values \<Rightarrow> EntryID set" where
  "ac_posted h fd v = (\<Union>k\<in>Collect (ac_asks h v). key_entries (ac_values h) k)"

lemma ac_blank_sel [simp]:
  "QuerySep (ac_blank h) = QuerySep h" "ac_values (ac_blank h) = []"
  "ac_machine (ac_blank h) = (ac_machine h)\<lparr>aho_keys := None\<rparr>"
  by (simp_all add: ac_blank_def)

lemma ac_asks_blank: "ac_asks (ac_blank h) = ac_asks h"
  by (simp add: fun_eq_iff ac_asks_def split: sum.split)

subsection \<open>The laws of a holder\<close>

lemma AC_commit_ok:
  assumes "ac_building h" "tx_Data tx = Some d" "ac_takes h d" "valid_eid (tx_EID tx)"
  shows "\<exists>h'. AC_CommitFieldIndexingData h tx = Inr h' \<and> ac_building h' \<and> ac_blank h' = ac_blank h \<and>
    (\<forall>fd v. ac_posted h' fd v = ac_posted h fd v \<union>
       (if ac_slot h fd = ac_slot h (tx_field tx) \<and> ac_hits h fd d v then {tx_EID tx} else {}))"
proof -
  obtain ks where d: "d = AcHolderTxData ks" using assms(3) by (auto simp: ac_takes_def)
  let ?h = "h\<lparr>ac_values := append_entries (tx_EID tx) ks (ac_values h)\<rparr>"
  have c: "AC_CommitFieldIndexingData h tx = Inr ?h" using assms(2) d by (simp add: AC_CommitFieldIndexingData_def)
  have i: "ac_building ?h" using assms(1,4) by (simp add: ac_building_def append_entries_ok)
  have a: "ac_asks ?h = ac_asks h" by (simp add: fun_eq_iff ac_asks_def split: sum.split)
  have p: "ac_posted ?h fd v = ac_posted h fd v \<union>
       (if ac_slot h fd = ac_slot h (tx_field tx) \<and> ac_hits h fd d v then {tx_EID tx} else {})" for fd v
    by (auto simp: ac_posted_def ac_slot_def ac_hits_def d a append_entries_key split: if_splits)
  show ?thesis by (rule exI [of _ ?h]) (simp add: c i p, simp add: ac_blank_def)
qed

lemma AC_compile_ok:
  assumes "ac_building h"
  shows "\<exists>h'. AC_CompileEntries h = Inr h' \<and> ac_ready h' \<and> ac_blank h' = ac_blank h \<and> ac_posted h' = ac_posted h"
proof -
  obtain m mx tot where e: "sort_entries (ac_values h) (ac_maxLen h) 0 = (m, mx, tot)"
    by (cases "sort_entries (ac_values h) (ac_maxLen h) 0") auto
  then have m: "m = map (\<lambda>(t, es). (t, sort es)) (ac_values h)" by (rule sort_entriesD)
  have spec: "aho_spec (ac_machine h)" and s: "posts_sorted m"
    using assms by (simp_all add: ac_building_def m posts_sorted_sort)
  have keys: "map (\<lambda>(term, entries). string_runes term) (ac_values h) = map string_runes (map fst m)"
    by (auto simp: m)
  obtain h' where h': "AC_CompileEntries h = Inr h'" "QuerySep h' = QuerySep h" "ac_values h' = m" "ac_debug h' = ac_debug h"
    "ac_machine h' = (if m = [] then ac_machine h else (ac_machine h)\<lparr>aho_keys := Some (map string_runes (map fst m))\<rparr>)"
    using Machine_Build_ok [OF spec, of "map string_runes (map fst m)"]
    by (cases "m = []") (simp_all add: AC_CompileEntries_def e keys Let_def)
  have "ac_ready h'" using s spec by (simp add: ac_ready_def h')
  moreover have "ac_blank h' = ac_blank h" using h'(2,4,5) by (simp add: ac_blank_def)
  moreover have "ac_asks h' = ac_asks h" by (simp add: fun_eq_iff ac_asks_def h' split: sum.split)
  then have "ac_posted h' = ac_posted h" by (intro ext) (simp add: ac_posted_def h'(3) m)
  ultimately show ?thesis using h'(1) by blast
qed

lemma AC_cursors_spec:
  assumes "posts_sorted (ac_values h)"
  shows "(\<forall>c\<in>set (AC_cursors h fd ws). ec_ok c \<and> ec_rem c \<noteq> {}) \<and>
    (\<Union>c\<in>set (AC_cursors h fd ws). ec_rem c) = (\<Union>k\<in>runes_string ` set ws. key_entries (ac_values h) k)"
proof (induction ws)
  case (Cons w ws)
  show ?case
  proof (cases "map_of (ac_values h) (runes_string w)")
    case (Some es)
    then have "ec_ok (NewEntriesCursor k es)" for k by (rule posts_cursor(1) [OF assms])
    then show ?thesis using Cons Some by (auto simp: key_entries_def)
  qed (use Cons in \<open>simp add: key_entries_def\<close>)
qed simp

lemma AC_get_ok:
  assumes r: "ac_ready h" and c: "BuildAcMatchContent v (QuerySep h) = Inr buf"
  shows "\<exists>cs. AC_GetEntries h fd v = Inr cs \<and> (\<forall>c\<in>set cs. ec_ok c \<and> ec_rem c \<noteq> {}) \<and>
    (\<Union>c\<in>set cs. ec_rem c) = ac_posted h fd v"
proof (cases "ac_values h = [] \<or> buf = []")
  case True
  then have "ac_posted h fd v = {}" using c by (auto simp: ac_posted_def ac_asks_def)
  then show ?thesis using True c by (auto simp: AC_GetEntries_def)
next
  case False
  have "aho_spec (ac_machine h)" "aho_keys (ac_machine h) = Some (map string_runes (map fst (ac_values h)))"
    "map fst (ac_values h) \<noteq> []" using r False by (auto simp: ac_ready_def)
  then obtain ws where ws: "MultiPatternSearch (ac_machine h) buf = Inr ws"
    "runes_string ` set ws \<inter> set (map fst (ac_values h)) = {k\<in>set (map fst (ac_values h)). keyword_match (ac_machine h) k buf}"
    by (rule search_keywords)
  have none: "key_entries (ac_values h) k = {}" if "k \<notin> set (map fst (ac_values h))" for k
    using that by (simp add: key_entries_def map_of_eq_None_iff [THEN iffD2])
  have "(\<Union>k\<in>runes_string ` set ws. key_entries (ac_values h) k) = ac_posted h fd v"
  proof -
    have "(\<Union>k\<in>runes_string ` set ws. key_entries (ac_values h) k) =
        (\<Union>k\<in>runes_string ` set ws \<inter> set (map fst (ac_values h)). key_entries (ac_values h) k)" using none by blast
    also have "\<dots> = ac_posted h fd v" unfolding ws(2) using none False c by (fastforce simp: ac_posted_def ac_asks_def)
    finally show ?thesis .
  qed
  then show ?thesis using False c ws(1) AC_cursors_spec [of h fd ws] r by (simp add: AC_GetEntries_def ac_ready_def)
qed

interpretation ac: entries_holder AC_GetEntries AC_BuildFieldIndexingData AC_CommitFieldIndexingData
  AC_CompileEntries ac_building ac_ready ac_blank ac_slot ac_takes ac_answers ac_hits ac_posted
proof (unfold_locales, goal_cases)
  case (1 h fd bv d)
  then show ?case by (auto simp: AC_BuildFieldIndexingData_def ac_takes_def split: if_splits sum.splits gerr.splits)
next
  case (2 h tx d)
  then show ?case by (rule AC_commit_ok)
next
  case (3 h)
  then show ?case by (rule AC_compile_ok)
next
  case (4 h fd v)
  then obtain buf where "BuildAcMatchContent v (QuerySep h) = Inr buf"
    by (cases "BuildAcMatchContent v (QuerySep h)") (auto simp: ac_answers_def)
  then show ?case using AC_get_ok 4(1) by blast
next
  case (5 h fd v cs)
  show ?case
  proof (cases "BuildAcMatchContent v (QuerySep h)")
    case (Inl e)
    then have "cs = []" using 5(2) by (simp add: AC_GetEntries_def split: if_splits)
    then show ?thesis using Inl by (simp add: ac_posted_def ac_asks_def)
  next
    case (Inr buf)
    then show ?thesis using AC_get_ok [OF 5(1) Inr, of fd] 5(2) by auto
  qed
qed (auto simp: fun_eq_iff ac_posted_def ac_building_def AC_BuildFieldIndexingData_def ac_slot_def
  ac_takes_def ac_answers_def ac_hits_def ac_asks_blank)

subsection \<open>Properties\<close>

lemma NewACEntriesHolder_building: "aho_spec m \<Longrightarrow> ac_building (NewACEntriesHolder m opt)"
  by (simp add: ac_building_def NewACEntriesHolder_def)

lemma ac_asks_text:
  assumes "aho_spec (ac_machine h)" "valid_utf8 t" "k \<noteq> []"
  shows "ac_asks h (VStr t) k \<longleftrightarrow> valid_utf8 k \<and> sublist k t"
proof -
  have "sublist k t \<Longrightarrow> t \<noteq> []" using assms(3) by auto
  then show ?thesis using keyword_match_sublist [OF assms(1,3)] sublist_runes [of k t] assms(2,3)
    by (auto simp: ac_asks_def)
qed

text \<open>
  C14: Committing any sequence of keyword expressions to a keyword holder, compiling it and asking
  it with a text never fails, and the answer holds exactly the entries that were there
  plus those of the expressions with a keyword that is a substring of the text. A keyword
  that is not valid UTF-8 never matches, not even its own text.
\<close>

theorem AcHolder_lifecycle:
  assumes "ac_building h" "valid_utf8 t"
    and txs: "\<forall>tx\<in>set txs. valid_eid (tx_EID tx) \<and> (\<exists>ks. tx_Data tx = Some (AcHolderTxData ks) \<and> [] \<notin> set ks)"
  shows "\<exists>h1 h2 cs. commit_all AC_CommitFieldIndexingData h txs = Inr h1 \<and> AC_CompileEntries h1 = Inr h2 \<and>
    AC_GetEntries h2 fd (VStr t) = Inr cs \<and> (\<forall>c\<in>set cs. ec_ok c) \<and>
    (\<Union>c\<in>set cs. ec_rem c) = ac_posted h fd (VStr t) \<union>
      {tx_EID tx |tx. tx \<in> set txs \<and> (\<exists>ks. tx_Data tx = Some (AcHolderTxData ks) \<and>
         (\<exists>k\<in>set ks. valid_utf8 k \<and> sublist k t))}"
proof -
  have asks: "ac_asks h (VStr t) k \<longleftrightarrow> valid_utf8 k \<and> sublist k t" if "k \<noteq> []" for k
    using that assms(1,2) by (intro ac_asks_text) (simp_all add: ac_building_def)
  have hits: "tx_hits (ac_slot h) (ac_hits h) fd tx (VStr t) \<longleftrightarrow>
      (\<exists>ks. tx_Data tx = Some (AcHolderTxData ks) \<and> (\<exists>k\<in>set ks. valid_utf8 k \<and> sublist k t))" if tx: "tx \<in> set txs" for tx
  proof -
    obtain ks where "tx_Data tx = Some (AcHolderTxData ks)" "[] \<notin> set ks" using txs tx by blast
    then have "tx_Data tx = Some (AcHolderTxData ks)" "\<And>k. k \<in> set ks \<Longrightarrow> ac_asks h (VStr t) k \<longleftrightarrow> valid_utf8 k \<and> sublist k t"
      using asks by metis+
    then show ?thesis by (auto simp: tx_hits_def ac_slot_def ac_hits_def)
  qed
  have "{tx_EID tx |tx. tx \<in> set txs \<and> tx_hits (ac_slot h) (ac_hits h) fd tx (VStr t)} =
      {tx_EID tx |tx. tx \<in> set txs \<and> (\<exists>ks. tx_Data tx = Some (AcHolderTxData ks) \<and>
         (\<exists>k\<in>set ks. valid_utf8 k \<and> sublist k t))}"
    by (simp add: hits cong: conj_cong)
  moreover have "\<forall>tx\<in>set txs. tx_ok (ac_takes h) tx" using txs by (auto simp: tx_ok_def ac_takes_def)
  moreover have "ac_answers h fd (VStr t)" by (simp add: ac_answers_def)
  ultimately show ?thesis using ac.lifecycle [OF assms(1), of txs fd "VStr t"] by simp
qed

theorem AcHolder_lifecycle_witness:
  "\<exists>h1 h2 cs. commit_all AC_CommitFieldIndexingData (NewACEntriesHolder naive_aho \<lparr>QuerySep = '' ''\<rparr>)
       [\<lparr>tx_field = \<lparr>Container = ''ac_matcher'', fd_ID = 0, fd_Field = ''title''\<rparr>, tx_holder = RefField 0 ''title'',
         tx_EID = 17, tx_Data = Some (AcHolderTxData [''car''])\<rparr>] = Inr h1 \<and>
     AC_CompileEntries h1 = Inr h2 \<and>
     AC_GetEntries h2 \<lparr>Container = ''ac_matcher'', fd_ID = 0, fd_Field = ''title''\<rparr> (VStr ''racecar'') = Inr cs \<and>
     (\<Union>c\<in>set cs. ec_rem c) = {17}"
proof -
  let ?h = "NewACEntriesHolder naive_aho \<lparr>QuerySep = '' ''\<rparr>"
  let ?fd = "\<lparr>Container = ''ac_matcher'', fd_ID = 0, fd_Field = ''title''\<rparr> :: FieldDesc"
  let ?tx = "\<lparr>tx_field = ?fd, tx_holder = RefField 0 ''title'', tx_EID = 17, tx_Data = Some (AcHolderTxData [''car''])\<rparr>"
  have u: "valid_utf8 ''racecar''" "valid_utf8 ''car''" by (simp_all add: ascii_runes byte_of_def)
  have p: "ac_posted ?h ?fd (VStr ''racecar'') = {}" by (simp add: ac_posted_def NewACEntriesHolder_def)
  have ok: "\<forall>tx\<in>set [?tx]. valid_eid (tx_EID tx) \<and> (\<exists>ks. tx_Data tx = Some (AcHolderTxData ks) \<and> [] \<notin> set ks)"
    by (simp add: valid_eid_def)
  have "sublist ''car'' ''racecar''" by code_simp
  then have e: "{tx_EID tx |tx. tx \<in> set [?tx] \<and> (\<exists>ks. tx_Data tx = Some (AcHolderTxData ks) \<and>
      (\<exists>k\<in>set ks. valid_utf8 k \<and> sublist k ''racecar''))} = {17}" using u(2) by auto
  show ?thesis
    using AcHolder_lifecycle [OF NewACEntriesHolder_building [OF naive_aho_spec] u(1) ok, of "\<lparr>QuerySep = '' ''\<rparr>" ?fd]
    unfolding e p by auto
qed

end
