(* ===== verification/Holders.thy ===== *)
theory Holders
  imports DefaultHolder OptRangeHolder AcHolder
begin

text \<open>
  The holders as values of the Go interface \<^verbatim>\<open>EntriesHolder\<close>, with one dispatching definition per
  method, and the registry of \<^verbatim>\<open>entries_holder_factory.go\<close>. The dispatch satisfies the laws of
  \<open>entries_holder\<close> because every implementation does.
\<close>

subsection \<open>Dispatch\<close>

datatype EntriesHolder = HDefault DefaultEntriesHolder | HRange RangeHolder | HAc ACEntriesHolder

fun GetEntries :: "codec \<Rightarrow> EntriesHolder \<Rightarrow> FieldDesc \<Rightarrow> Values \<Rightarrow> EntriesCursor list res" where
  "GetEntries lib (HDefault h) = DH_GetEntries h"
| "GetEntries lib (HRange h) = RH_GetEntries (parseFloat lib) h"
| "GetEntries lib (HAc h) = AC_GetEntries h"

fun BuildFieldIndexingData :: "codec \<Rightarrow> EntriesHolder \<Rightarrow> FieldDesc \<Rightarrow> BoolValues \<Rightarrow> IndexingData res" where
  "BuildFieldIndexingData lib (HDefault h) = DH_BuildFieldIndexingData h"
| "BuildFieldIndexingData lib (HRange h) = RH_BuildFieldIndexingData (parseFloat lib) h"
| "BuildFieldIndexingData lib (HAc h) = AC_BuildFieldIndexingData h"

fun CommitFieldIndexingData :: "EntriesHolder \<Rightarrow> FieldIndexingData \<Rightarrow> EntriesHolder res" where
  "CommitFieldIndexingData (HDefault h) tx = map_sum id HDefault (DH_CommitFieldIndexingData h tx)"
| "CommitFieldIndexingData (HRange h) tx = map_sum id HRange (RH_CommitFieldIndexingData h tx)"
| "CommitFieldIndexingData (HAc h) tx = map_sum id HAc (AC_CommitFieldIndexingData h tx)"

fun CompileEntries :: "EntriesHolder \<Rightarrow> EntriesHolder res" where
  "CompileEntries (HDefault h) = map_sum id HDefault (DH_CompileEntries h)"
| "CompileEntries (HRange h) = map_sum id HRange (RH_CompileEntries h)"
| "CompileEntries (HAc h) = map_sum id HAc (AC_CompileEntries h)"

fun DecodeFieldIndexingData :: "codec \<Rightarrow> EntriesHolder \<Rightarrow> bytes \<Rightarrow> IndexingData res" where
  "DecodeFieldIndexingData lib (HDefault h) = DH_DecodeFieldIndexingData lib"
| "DecodeFieldIndexingData lib (HRange h) = RH_DecodeFieldIndexingData lib"
| "DecodeFieldIndexingData lib (HAc h) = AC_DecodeFieldIndexingData lib"

fun IndexingData_Encode :: "codec \<Rightarrow> IndexingData \<Rightarrow> bytes res" where
  "IndexingData_Encode lib (StrTokenData vs) = StrTokenData_Encode lib vs"
| "IndexingData_Encode lib (RangeTxData op rg eqs) = RangeTxData_Encode lib op rg eqs"
| "IndexingData_Encode lib (AcHolderTxData keys) = AcHolderTxData_Encode lib keys"
| "IndexingData_Encode lib (OptimizedRangeTxData op rg eqs) = OptimizedRangeTxData_Encode lib op rg eqs"

fun EnableDebug :: "EntriesHolder \<Rightarrow> bool \<Rightarrow> EntriesHolder" where
  "EnableDebug (HDefault h) debug = HDefault (DH_EnableDebug h debug)"
| "EnableDebug (HRange h) debug = HRange (RH_EnableDebug h debug)"
| "EnableDebug (HAc h) debug = HAc (AC_EnableDebug h debug)"

fun eh_building :: "EntriesHolder \<Rightarrow> bool" where
  "eh_building (HDefault h) = dh_inv h" | "eh_building (HRange h) = rh_building h" | "eh_building (HAc h) = ac_building h"

fun eh_ready :: "EntriesHolder \<Rightarrow> bool" where
  "eh_ready (HDefault h) = dh_ready h" | "eh_ready (HRange h) = rh_ready h" | "eh_ready (HAc h) = ac_ready h"

fun eh_blank :: "EntriesHolder \<Rightarrow> EntriesHolder" where
  "eh_blank (HDefault h) = HDefault (dh_blank h)" | "eh_blank (HRange h) = HRange (rh_blank h)"
| "eh_blank (HAc h) = HAc (ac_blank h)"

fun eh_slot :: "EntriesHolder \<Rightarrow> FieldDesc \<Rightarrow> nat" where
  "eh_slot (HDefault h) = dh_slot h" | "eh_slot (HRange h) = rh_slot h" | "eh_slot (HAc h) = ac_slot h"

fun eh_takes :: "EntriesHolder \<Rightarrow> IndexingData \<Rightarrow> bool" where
  "eh_takes (HDefault h) = dh_takes h" | "eh_takes (HRange h) = rh_takes h" | "eh_takes (HAc h) = ac_takes h"

fun eh_answers :: "codec \<Rightarrow> EntriesHolder \<Rightarrow> FieldDesc \<Rightarrow> Values \<Rightarrow> bool" where
  "eh_answers lib (HDefault h) = dh_answers h" | "eh_answers lib (HRange h) = rh_answers (parseFloat lib) h"
| "eh_answers lib (HAc h) = ac_answers h"

fun eh_hits :: "codec \<Rightarrow> EntriesHolder \<Rightarrow> FieldDesc \<Rightarrow> IndexingData \<Rightarrow> Values \<Rightarrow> bool" where
  "eh_hits lib (HDefault h) = dh_hits h" | "eh_hits lib (HRange h) = rh_hits (parseFloat lib) h"
| "eh_hits lib (HAc h) = ac_hits h"

fun eh_posted :: "codec \<Rightarrow> EntriesHolder \<Rightarrow> FieldDesc \<Rightarrow> Values \<Rightarrow> EntryID set" where
  "eh_posted lib (HDefault h) = dh_posted h" | "eh_posted lib (HRange h) = rh_posted (parseFloat lib) h"
| "eh_posted lib (HAc h) = ac_posted h"

interpretation eh: entries_holder "GetEntries lib" "BuildFieldIndexingData lib" CommitFieldIndexingData
  CompileEntries eh_building eh_ready eh_blank eh_slot eh_takes "eh_answers lib" "eh_hits lib" "eh_posted lib"
  for lib
proof (unfold_locales, goal_cases)
  case (1 h fd bv d)
  then show ?case using dh.build_takes rh.build_takes ac.build_takes by (cases h) auto
next
  case (2 h tx d)
  show ?case
  proof (cases h)
    case (HDefault g)
    then obtain g' where "DH_CommitFieldIndexingData g tx = Inr g'" "dh_inv g'" "dh_blank g' = dh_blank g"
      "\<forall>fd v. dh_posted g' fd v = dh_posted g fd v \<union>
         (if dh_slot g fd = dh_slot g (tx_field tx) \<and> dh_hits g fd d v then {tx_EID tx} else {})"
      using dh.commit_ok [of g tx d] 2 by auto
    then show ?thesis using HDefault by (intro exI [of _ "HDefault g'"]) simp
  next
    case (HRange g)
    then obtain g' where "RH_CommitFieldIndexingData g tx = Inr g'" "rh_building g'" "rh_blank g' = rh_blank g"
      "\<forall>fd v. rh_posted (parseFloat lib) g' fd v = rh_posted (parseFloat lib) g fd v \<union>
         (if rh_slot g fd = rh_slot g (tx_field tx) \<and> rh_hits (parseFloat lib) g fd d v then {tx_EID tx} else {})"
      using rh.commit_ok [of g tx d "parseFloat lib"] 2 by auto
    then show ?thesis using HRange by (intro exI [of _ "HRange g'"]) simp
  next
    case (HAc g)
    then obtain g' where "AC_CommitFieldIndexingData g tx = Inr g'" "ac_building g'" "ac_blank g' = ac_blank g"
      "\<forall>fd v. ac_posted g' fd v = ac_posted g fd v \<union>
         (if ac_slot g fd = ac_slot g (tx_field tx) \<and> ac_hits g fd d v then {tx_EID tx} else {})"
      using ac.commit_ok [of g tx d] 2 by auto
    then show ?thesis using HAc by (intro exI [of _ "HAc g'"]) simp
  qed
next
  case (3 h)
  then show ?case
    by (cases h) (use dh.compile_ok rh.compile_ok ac.compile_ok in \<open>fastforce+\<close>)
next
  case (4 h fd v)
  then show ?case using dh.get_answers rh.get_answers ac.get_answers by (cases h) auto
next
  case (5 h fd v cs)
  then show ?case using dh.get_sound rh.get_sound ac.get_sound by (cases h) auto
next
  case (6 h fd v)
  then show ?case using dh.posted_blank rh.posted_blank ac.posted_blank by (cases h) auto
next
  case (7 h)
  then show ?case using dh.building_blank rh.building_blank ac.building_blank by (cases h) auto
next
  case (8 h)
  then show ?case using dh.build_blank rh.build_blank ac.build_blank by (cases h) auto
next
  case (9 h)
  then show ?case using dh.slot_blank rh.slot_blank ac.slot_blank by (cases h) auto
next
  case (10 h)
  then show ?case using dh.takes_blank rh.takes_blank ac.takes_blank by (cases h) auto
next
  case (11 h)
  then show ?case using dh.answers_blank rh.answers_blank ac.answers_blank by (cases h) auto
next
  case (12 h)
  then show ?case using dh.hits_blank rh.hits_blank ac.hits_blank by (cases h) auto
qed

subsection \<open>Registry\<close>

text \<open>
  \<^verbatim>\<open>holderFactory\<close> maps a name to a function that makes a new holder; the model keeps the
  holder the function makes.
\<close>

type_synonym HolderFactory = "(string \<times> EntriesHolder) list"

definition HolderNameDefault :: string where "HolderNameDefault = ''default''"
definition HolderNameACMatcher :: string where "HolderNameACMatcher = ''ac_matcher''"
definition HolderNameExtendRange :: string where "HolderNameExtendRange = ''ext_range''"

definition NewEntriesHolder :: "HolderFactory \<Rightarrow> string \<Rightarrow> EntriesHolder option" where
  "NewEntriesHolder factory name = map_of factory name"

definition HasHolderBuilder :: "HolderFactory \<Rightarrow> string \<Rightarrow> bool" where
  "HasHolderBuilder factory name \<longleftrightarrow> map_of factory name \<noteq> None"

definition RegisterEntriesHolder :: "HolderFactory \<Rightarrow> string \<Rightarrow> EntriesHolder \<Rightarrow> HolderFactory" where
  "RegisterEntriesHolder factory name builder = alist_put name builder factory"

definition InitHolderDefaults :: HolderFactory where
  "InitHolderDefaults = RegisterEntriesHolder [] HolderNameDefault (HDefault NewDefaultEntriesHolder)"

text \<open>The \<^verbatim>\<open>init\<close> function of the keyword holder's package, for a new machine \<open>m\<close>.\<close>

definition ahoholder_init :: "aho_machine \<Rightarrow> HolderFactory \<Rightarrow> HolderFactory" where
  "ahoholder_init m factory =
     RegisterEntriesHolder factory HolderNameACMatcher (HAc (NewACEntriesHolder m \<lparr>QuerySep = '' ''\<rparr>))"

text \<open>
  A registry the index can use: the default container is a default holder, and the
  functions make empty holders.
\<close>

definition fresh :: "EntriesHolder \<Rightarrow> bool" where
  "fresh h \<longleftrightarrow> eh_building h \<and> eh_blank h = h"

definition factory_ok :: "HolderFactory \<Rightarrow> bool" where
  "factory_ok factory \<longleftrightarrow>
     (\<exists>h. NewEntriesHolder factory HolderNameDefault = Some (HDefault h)) \<and>
     (\<forall>name h. NewEntriesHolder factory name = Some h \<longrightarrow> fresh h)"

lemma fresh_NewDefault [simp]: "fresh (HDefault NewDefaultEntriesHolder)"
  by (simp add: fresh_def NewDefaultEntriesHolder_def dh_inv_def dh_blank_def)

lemma fresh_NewRange:
  assumes "NewNumberExtendRangeHolder fns = Inr h" "MinInt64 \<le> ri_valueMin (rh_rangeIdx h)"
  shows "fresh (HRange h)"
  using assms
  by (auto simp: NewNumberExtendRangeHolder_def NewRangeIdx_def Let_def fresh_def rh_building_def ri_building_def
      ri_inv_def NewRangeEntries_def rh_blank_def ri_blank_def split: if_splits sum.splits)

lemma fresh_NewAC: "aho_spec m \<Longrightarrow> fresh (HAc (NewACEntriesHolder m opt))"
  by (simp add: fresh_def NewACEntriesHolder_building) (simp add: NewACEntriesHolder_def ac_blank_def)

lemma factory_ok_Init: "factory_ok InitHolderDefaults"
  by (auto simp: factory_ok_def InitHolderDefaults_def RegisterEntriesHolder_def NewEntriesHolder_def split: if_splits)

lemma factory_ok_Register:
  assumes "factory_ok factory" "fresh h" "name \<noteq> HolderNameDefault \<or> (\<exists>g. h = HDefault g)"
  shows "factory_ok (RegisterEntriesHolder factory name h)"
  using assms by (auto simp: factory_ok_def RegisterEntriesHolder_def NewEntriesHolder_def)

lemma factory_ok_ahoholder: "factory_ok factory \<Longrightarrow> aho_spec m \<Longrightarrow> factory_ok (ahoholder_init m factory)"
  unfolding ahoholder_init_def
  by (rule factory_ok_Register) (simp_all add: fresh_NewAC HolderNameACMatcher_def HolderNameDefault_def)

end
