(* ===== verification/RetrieveLoop.thy ===== *)
theory RetrieveLoop
  imports IndexScanner
begin

text \<open>
  Model of the two retrieval loops over field cursors: \<^verbatim>\<open>retrieveK\<close> of
  \<^verbatim>\<open>be_indexer_kgroups.go\<close> and the loop of \<^verbatim>\<open>RetrieveWithCollector\<close> in
  \<^verbatim>\<open>be_indexer_compact.go\<close>. The collector is a state with its \<open>Add\<close> operation as an
  argument. The loops are \<open>partial_function (option)\<close>; the theorems show that they
  return, and that they add exactly the conjunctions \<open>conj_matched\<close> describes.
\<close>

subsection \<open>The loops\<close>

text \<open>
  One round, without the sort that ends it. Both loops have these statements; they differ
  in how \<open>needMatchCnt\<close> is found and when they stop.
\<close>

definition scan_round ::
  "('col \<Rightarrow> DocID \<Rightarrow> ConjID \<Rightarrow> 'col) \<Rightarrow> nat \<Rightarrow> FieldCursor list \<Rightarrow> 'col \<Rightarrow> FieldCursor list \<times> 'col"
where
  "scan_round add needMatchCnt fcs col =
     (let eid = FC_GetCurEntryID (fcs ! 0);
          endEID = FC_GetCurEntryID (fcs ! (needMatchCnt - 1));
          conjID = GetConjID eid;
          endConjID = GetConjID endEID
      in if conjID = endConjID
         then let nextID = NewEntryID endConjID True + 1
              in if IsInclude eid
                 then (advance FC_skip needMatchCnt nextID fcs, add col (ConjID_DocID conjID) conjID)
                 else (advance FC_skip needMatchCnt nextID
                         (skip_tail FC_GetCurEntryID FC_skip needMatchCnt nextID fcs), col)
         else (advance FC_skip needMatchCnt (NewEntryID endConjID False) fcs, col))"

partial_function (option) retrieveK_loop ::
  "('col \<Rightarrow> DocID \<Rightarrow> ConjID \<Rightarrow> 'col) \<Rightarrow> nat \<Rightarrow> FieldCursor list \<Rightarrow> 'col \<Rightarrow> 'col option"
where
  "retrieveK_loop add needMatchCnt fcs col =
     (if \<not> IsNULLEntry (FC_GetCurEntryID (fcs ! (needMatchCnt - 1)))
      then (case scan_round add needMatchCnt fcs col of
              (fcs', col') \<Rightarrow> retrieveK_loop add needMatchCnt (FieldCursors_Sort fcs') col')
      else Some col)"

definition retrieveK ::
  "('col \<Rightarrow> DocID \<Rightarrow> ConjID \<Rightarrow> 'col) \<Rightarrow> FieldCursor list \<Rightarrow> nat \<Rightarrow> 'col \<Rightarrow> 'col option"
where
  "retrieveK add fcs needMatchCnt col =
     (if length fcs < needMatchCnt then Some col
      else retrieveK_loop add needMatchCnt (FieldCursors_Sort fcs) col)"

text \<open>The compact index drops the cursors that reached their end from the back of the sorted slice.\<close>

definition drop_ended :: "FieldCursor list \<Rightarrow> FieldCursor list" where
  "drop_ended fcs = rev (dropWhile FC_ReachEnd (rev fcs))"

definition compact_need :: "ConjID \<Rightarrow> nat" where
  "compact_need conjID = nat (max 1 (ConjID_Size conjID))"

partial_function (option) compact_loop ::
  "('col \<Rightarrow> DocID \<Rightarrow> ConjID \<Rightarrow> 'col) \<Rightarrow> FieldCursor list \<Rightarrow> 'col \<Rightarrow> 'col option"
where
  "compact_loop add fcs col =
     (if length fcs > 0
      then let needMatchCnt = compact_need (GetConjID (FC_GetCurEntryID (fcs ! 0)))
           in if needMatchCnt > length fcs then Some col
              else (case scan_round add needMatchCnt fcs col of
                      (fcs', col') \<Rightarrow> compact_loop add (drop_ended (FieldCursors_Sort fcs')) col')
      else Some col)"

subsection \<open>What a run adds\<close>

text \<open>
  \<open>adds_exactly add col col' C\<close>: \<open>col'\<close> is \<open>col\<close> after calls of \<open>add\<close> for the conjunctions
  of \<open>C\<close>, each with its document id, every one of them at least once and no others.
\<close>

definition adds_exactly ::
  "('col \<Rightarrow> DocID \<Rightarrow> ConjID \<Rightarrow> 'col) \<Rightarrow> 'col \<Rightarrow> 'col \<Rightarrow> ConjID set \<Rightarrow> bool"
where
  "adds_exactly add col col' C \<longleftrightarrow>
     (\<exists>cs. col' = foldl (\<lambda>a c. add a (ConjID_DocID c) c) col cs \<and> set cs = C)"

lemma adds_exactly_empty: "adds_exactly add col col {}"
  by (auto simp: adds_exactly_def intro: exI [of _ "[]"])

lemma no_match_returns:
  assumes "r = Some col" "\<And>c. \<not> P c"
  shows "\<exists>col'. r = Some col' \<and> adds_exactly add col col' {c. P c}"
  using assms adds_exactly_empty by simp

lemma adds_exactly_insert:
  "adds_exactly add (add col (ConjID_DocID c) c) col' C \<Longrightarrow> adds_exactly add col col' (insert c C)"
proof -
  assume "adds_exactly add (add col (ConjID_DocID c) c) col' C"
  then obtain cs where "col' = foldl (\<lambda>a c. add a (ConjID_DocID c) c) (add col (ConjID_DocID c) c) cs"
    "set cs = C" by (auto simp: adds_exactly_def)
  then show ?thesis unfolding adds_exactly_def by (intro exI [of _ "c # cs"]) simp
qed

lemma adds_exactly_Un:
  assumes "adds_exactly add a b C" "adds_exactly add b d D"
  shows "adds_exactly add a d (C \<union> D)"
proof -
  obtain cs ds where "b = foldl (\<lambda>a c. add a (ConjID_DocID c) c) a cs" "set cs = C"
    "d = foldl (\<lambda>a c. add a (ConjID_DocID c) c) b ds" "set ds = D"
    using assms by (auto simp: adds_exactly_def)
  then show ?thesis unfolding adds_exactly_def by (intro exI [of _ "cs @ ds"]) simp
qed

subsection \<open>One round\<close>

definition round_ready :: "(ConjID \<Rightarrow> nat) \<Rightarrow> FieldCursor list \<Rightarrow> nat \<Rightarrow> bool" where
  "round_ready need fcs n \<longleftrightarrow>
     (\<forall>fc\<in>set fcs. fc_ok fc) \<and> sorted (map FC_GetCurEntryID fcs) \<and> n \<le> length fcs \<and>
     need_mono need \<and> n = need (GetConjID (FC_GetCurEntryID (fcs ! 0))) \<and>
     FC_GetCurEntryID (fcs ! (n - 1)) \<noteq> NULLENTRY"

lemma round_readyD:
  assumes "round_ready need fcs n"
  shows "\<forall>fc\<in>set fcs. fc_ok fc" "sorted (map FC_GetCurEntryID fcs)" "n \<le> length fcs" "1 \<le> n" "fcs \<noteq> []"
    "need_mono need" "n = need (GetConjID (FC_GetCurEntryID (fcs ! 0)))"
    "FC_GetCurEntryID (fcs ! (n - 1)) \<noteq> NULLENTRY" "FC_GetCurEntryID (fcs ! 0) \<noteq> NULLENTRY"
    "fc_ok (fcs ! 0)"
proof -
  show *: "\<forall>fc\<in>set fcs. fc_ok fc" "sorted (map FC_GetCurEntryID fcs)" "n \<le> length fcs"
    "need_mono need" "n = need (GetConjID (FC_GetCurEntryID (fcs ! 0)))"
    "FC_GetCurEntryID (fcs ! (n - 1)) \<noteq> NULLENTRY"
    using assms by (auto simp: round_ready_def)
  show n: "1 \<le> n" using * by (simp add: need_mono_def)
  then show "fcs \<noteq> []" using *(3) by auto
  then show "fc_ok (fcs ! 0)" using *(1) by simp
  show "FC_GetCurEntryID (fcs ! 0) \<noteq> NULLENTRY" using *(2) n *(3,6) by (rule fc.first_not_NULL)
qed

text \<open>The three ways a round can go.\<close>

lemma scan_round_cases:
  assumes "scan_round add n fcs col = (fcs', col')"
  obtains (skip) "GetConjID (FC_GetCurEntryID (fcs ! 0)) \<noteq> GetConjID (FC_GetCurEntryID (fcs ! (n - 1)))"
      "fcs' = advance FC_skip n (NewEntryID (GetConjID (FC_GetCurEntryID (fcs ! (n - 1)))) False) fcs"
      "col' = col"
    | (incl) c where "c = GetConjID (FC_GetCurEntryID (fcs ! 0))"
      "GetConjID (FC_GetCurEntryID (fcs ! (n - 1))) = c" "IsInclude (FC_GetCurEntryID (fcs ! 0))"
      "fcs' = advance FC_skip n (NewEntryID c True + 1) fcs" "col' = add col (ConjID_DocID c) c"
    | (excl) c where "c = GetConjID (FC_GetCurEntryID (fcs ! 0))"
      "GetConjID (FC_GetCurEntryID (fcs ! (n - 1))) = c" "\<not> IsInclude (FC_GetCurEntryID (fcs ! 0))"
      "fcs' = advance FC_skip n (NewEntryID c True + 1)
         (skip_tail FC_GetCurEntryID FC_skip n (NewEntryID c True + 1) fcs)" "col' = col"
  using assms by (auto simp: scan_round_def Let_def split: if_splits)

lemma scan_round_ok:
  assumes r: "round_ready need fcs n" and s: "scan_round add n fcs col = (fcs', col')"
  shows "\<forall>fc\<in>set fcs'. fc_ok fc" "length fcs' = length fcs"
proof -
  note ok = round_readyD(1) [OF r]
  from s have "(\<forall>fc\<in>set fcs'. fc_ok fc) \<and> length fcs' = length fcs"
  proof (cases rule: scan_round_cases)
    case skip
    then show ?thesis using fc.ok_advance [OF ok] by simp
  next
    case (incl c)
    then show ?thesis using fc.ok_advance [OF ok] by simp
  next
    case (excl c)
    then show ?thesis using fc.ok_advance [OF fc.ok_skip_tail [OF ok]] by simp
  qed
  then show "\<forall>fc\<in>set fcs'. fc_ok fc" "length fcs' = length fcs" by blast+
qed

lemma scan_round_progress:
  assumes r: "round_ready need fcs n" and s: "scan_round add n fcs col = (fcs', col')"
  shows "sum_list (map fc_sz fcs') < sum_list (map fc_sz fcs)"
proof -
  note R = round_readyD [OF r]
  let ?e0 = "FC_GetCurEntryID (fcs ! 0)" and ?e1 = "FC_GetCurEntryID (fcs ! (n - 1))"
  have next_gt: "?e0 < NewEntryID (GetConjID ?e0) True + 1"
    using less_next_entry fc.cur_valid [OF R(10,9)] by simp
  from s show ?thesis
  proof (cases rule: scan_round_cases)
    case skip
    have "?e0 \<le> ?e1" using R by (intro fc.cur_sorted_le) auto
    then have "GetConjID ?e0 < GetConjID ?e1" using skip(1) GetConjID_mono by (simp add: order_less_le)
    then have "?e0 < NewEntryID (GetConjID ?e1) False" by (simp add: less_NewEntryID_excl)
    then show ?thesis using skip(2) fc.sz_advance_less [OF R(1,4,5)] by simp
  next
    case (incl c)
    then show ?thesis using next_gt fc.sz_advance_less [OF R(1,4,5)] by simp
  next
    case (excl c)
    let ?ys = "skip_tail FC_GetCurEntryID FC_skip n (NewEntryID c True + 1) fcs"
    have "?ys ! 0 = fcs ! 0" using R(3,4) by (simp add: skip_tail_def nth_append)
    moreover have "?ys \<noteq> []" using R(5) by (metis length_0_conv length_skip_tail)
    ultimately have "sum_list (map fc_sz fcs') < sum_list (map fc_sz ?ys)"
      using excl next_gt fc.sz_advance_less [OF fc.ok_skip_tail [OF R(1)] R(4), of n "NewEntryID c True + 1"]
      by simp
    also have "\<dots> \<le> sum_list (map fc_sz fcs)" using R(1) by (rule fc.sz_skip_tail)
    finally show ?thesis .
  qed
qed

lemma scan_round_adds:
  assumes r: "round_ready need fcs n" and s: "scan_round add n fcs col = (fcs', col')"
    and "adds_exactly add col' col'' {c. conj_matched need (map fc_rem fcs') c}"
  shows "adds_exactly add col col'' {c. conj_matched need (map fc_rem fcs) c}"
proof -
  note R = round_readyD [OF r]
  from s show ?thesis
  proof (cases rule: scan_round_cases)
    case skip
    then show ?thesis using fc.round_skip [OF R(1,2,3,6,7) refl] assms(3) by simp
  next
    case (incl c)
    have "{d. conj_matched need (map fc_rem fcs) d} = insert c {d. conj_matched need (map fc_rem fcs') d}"
      using fc.round_incl [OF R(1,2,3,6,7,8), of "NewEntryID c True + 1"] incl by auto
    then show ?thesis using assms(3) incl(5) adds_exactly_insert by metis
  next
    case (excl c)
    then show ?thesis using fc.round_excl [OF R(1,2,3,6,7,8), of "NewEntryID c True + 1"] assms(3) by simp
  qed
qed

subsection \<open>The loops return, with exactly the matching conjunctions\<close>

lemma conj_matched_Sort:
  "conj_matched need (map fc_rem (FieldCursors_Sort fcs)) = conj_matched need (map fc_rem fcs)"
  by (rule conj_matched_mset) (simp add: FieldCursors_Sort_mset)

lemma sum_list_Sort:
  "sum_list (map fc_sz (FieldCursors_Sort fcs)) = sum_list (map fc_sz fcs)"
  by (metis FieldCursors_Sort_mset mset_map sum_mset_sum_list)

lemma need_mono_const: "1 \<le> n \<Longrightarrow> need_mono (\<lambda>_. n)"
  by (simp add: need_mono_def)

lemma retrieveK_loop_correct:
  assumes "\<forall>fc\<in>set fcs. fc_ok fc" "sorted (map FC_GetCurEntryID fcs)" "1 \<le> n" "n \<le> length fcs"
  shows "\<exists>col'. retrieveK_loop add n fcs col = Some col' \<and>
    adds_exactly add col col' {c. conj_matched (\<lambda>_. n) (map fc_rem fcs) c}"
  using assms
proof (induction "sum_list (map fc_sz fcs)" arbitrary: fcs col rule: less_induct)
  case less
  show ?case
  proof (cases "FC_GetCurEntryID (fcs ! (n - 1)) = NULLENTRY")
    case True
    then have "retrieveK_loop add n fcs col = Some col"
      by (subst retrieveK_loop.simps) (simp add: IsNULLEntry_def)
    moreover have "\<not> conj_matched (\<lambda>_. n) (map fc_rem fcs) c" for c
      using fc.none_at_end [OF less.prems True] by simp
    ultimately show ?thesis by (intro no_match_returns)
  next
    case False
    obtain fcs' col' where s: "scan_round add n fcs col = (fcs', col')" by fastforce
    have r: "round_ready (\<lambda>_. n) fcs n"
      using less.prems False by (simp add: round_ready_def need_mono_const)
    let ?g = "FieldCursors_Sort fcs'"
    have "\<exists>col''. retrieveK_loop add n ?g col' = Some col'' \<and>
        adds_exactly add col' col'' {c. conj_matched (\<lambda>_. n) (map fc_rem ?g) c}"
      using scan_round_ok [OF r s] scan_round_progress [OF r s] less.prems(3,4)
      by (intro less.hyps) (simp_all add: sum_list_Sort FieldCursors_Sort_sorted)
    then obtain col'' where "retrieveK_loop add n ?g col' = Some col''"
      "adds_exactly add col' col'' {c. conj_matched (\<lambda>_. n) (map fc_rem fcs') c}"
      by (auto simp: conj_matched_Sort)
    moreover have "retrieveK_loop add n fcs col = retrieveK_loop add n ?g col'"
      using False s by (subst retrieveK_loop.simps) (simp add: IsNULLEntry_def)
    ultimately show ?thesis using scan_round_adds [OF r s] by simp
  qed
qed

lemma retrieveK_correct:
  assumes "\<forall>fc\<in>set fcs. fc_ok fc" "1 \<le> n"
  shows "\<exists>col'. retrieveK add fcs n col = Some col' \<and>
    adds_exactly add col col' {c. conj_matched (\<lambda>_. n) (map fc_rem fcs) c}"
proof (cases "length fcs < n")
  case True
  have "length (filter (has_conj c) (map fc_rem fcs)) \<le> length fcs" for c
    by (metis length_filter_le length_map)
  then have "\<not> conj_matched (\<lambda>_. n) (map fc_rem fcs) c" for c
    using True unfolding conj_matched_def by (meson le_trans not_le)
  moreover have "retrieveK add fcs n col = Some col" using True by (simp add: retrieveK_def)
  ultimately show ?thesis by (intro no_match_returns)
next
  case False
  then show ?thesis
    using retrieveK_loop_correct [of "FieldCursors_Sort fcs" n add col] assms
    by (simp add: retrieveK_def FieldCursors_Sort_sorted conj_matched_Sort)
qed

lemma compact_need_mono: "need_mono compact_need"
  unfolding need_mono_def compact_need_def
  using ConjID_Size_mono by (auto intro!: nat_mono max.mono)

lemma drop_ended_split:
  assumes "sorted (map FC_GetCurEntryID fcs)"
  obtains es where "fcs = drop_ended fcs @ es" "\<forall>fc\<in>set es. FC_GetCurEntryID fc = NULLENTRY"
    "\<forall>fc\<in>set (drop_ended fcs). FC_GetCurEntryID fc \<noteq> NULLENTRY"
proof
  let ?es = "rev (takeWhile FC_ReachEnd (rev fcs))"
  show split: "fcs = drop_ended fcs @ ?es"
    unfolding drop_ended_def by (metis rev_append rev_rev_ident takeWhile_dropWhile_id)
  show "\<forall>fc\<in>set ?es. FC_GetCurEntryID fc = NULLENTRY"
    by (auto simp: FC_ReachEnd_def IsNULLEntry_def FC_GetCurEntryID_def dest: set_takeWhileD)
  show "\<forall>fc\<in>set (drop_ended fcs). FC_GetCurEntryID fc \<noteq> NULLENTRY"
  proof (cases "dropWhile FC_ReachEnd (rev fcs)")
    case Nil
    then show ?thesis unfolding drop_ended_def by (simp only: rev.simps list.set) simp
  next
    case (Cons y ys)
    then have y: "FC_GetCurEntryID y \<noteq> NULLENTRY"
      using hd_dropWhile [of FC_ReachEnd "rev fcs"]
      by (simp add: FC_ReachEnd_def IsNULLEntry_def FC_GetCurEntryID_def)
    have d: "drop_ended fcs = rev ys @ [y]" using Cons by (simp add: drop_ended_def)
    have "sorted (map FC_GetCurEntryID (rev ys @ [y]))"
      using assms split d by (metis map_append sorted_append)
    then have "FC_GetCurEntryID x \<le> FC_GetCurEntryID y" if "x \<in> set (rev ys @ [y])" for x
      using that by (auto simp: sorted_append)
    then show ?thesis using y unfolding d by (metis NULLENTRY_max antisym)
  qed
qed

lemma conj_matched_drop_empty:
  assumes "\<forall>T\<in>set Ts. T = {}"
  shows "conj_matched need (Ss @ Ts) = conj_matched need Ss"
proof
  fix c
  have "filter (has_conj c) Ts = []" using assms by (auto simp: filter_empty_conv has_conj_def)
  moreover have "\<forall>T\<in>set Ts. \<not> has_excl c T" using assms by (auto simp: has_excl_def)
  ultimately show "conj_matched need (Ss @ Ts) c = conj_matched need Ss c"
    by (auto simp: conj_matched_def)
qed

lemma compact_loop_correct:
  assumes "\<forall>fc\<in>set fcs. fc_ok fc" "sorted (map FC_GetCurEntryID fcs)"
    "\<forall>fc\<in>set fcs. FC_GetCurEntryID fc \<noteq> NULLENTRY"
  shows "\<exists>col'. compact_loop add fcs col = Some col' \<and>
    adds_exactly add col col' {c. conj_matched compact_need (map fc_rem fcs) c}"
  using assms
proof (induction "sum_list (map fc_sz fcs)" arbitrary: fcs col rule: less_induct)
  case less
  let ?n = "compact_need (GetConjID (FC_GetCurEntryID (fcs ! 0)))"
  have nm: "1 \<le> compact_need c" for c by (simp add: compact_need_def)
  consider (empty) "fcs = []" | (few) "fcs \<noteq> []" "length fcs < ?n" | (round) "fcs \<noteq> []" "?n \<le> length fcs"
    by linarith
  then show ?case
  proof cases
    case empty
    have "\<not> conj_matched compact_need (map fc_rem fcs) c" for c
      using nm [of c] by (simp add: conj_matched_def empty)
    moreover have "compact_loop add fcs col = Some col" using empty by (subst compact_loop.simps) simp
    ultimately show ?thesis by (intro no_match_returns)
  next
    case few
    have "\<not> conj_matched compact_need (map fc_rem fcs) c" for c
      using less.prems(1,2) compact_need_mono few(2) by (rule fc.none_too_few)
    moreover have "compact_loop add fcs col = Some col"
      using few by (subst compact_loop.simps) (simp add: Let_def)
    ultimately show ?thesis by (intro no_match_returns)
  next
    case round
    obtain fcs' col' where s: "scan_round add ?n fcs col = (fcs', col')" by fastforce
    have "?n - 1 < length fcs" using round nm [of "GetConjID (FC_GetCurEntryID (fcs ! 0))"] by linarith
    then have r: "round_ready compact_need fcs ?n"
      using less.prems round compact_need_mono by (simp add: round_ready_def)
    obtain es where es: "FieldCursors_Sort fcs' = drop_ended (FieldCursors_Sort fcs') @ es"
      "\<forall>fc\<in>set es. FC_GetCurEntryID fc = NULLENTRY"
      "\<forall>fc\<in>set (drop_ended (FieldCursors_Sort fcs')). FC_GetCurEntryID fc \<noteq> NULLENTRY"
      using drop_ended_split [OF FieldCursors_Sort_sorted] by blast
    let ?g = "drop_ended (FieldCursors_Sort fcs')"
    have ok': "\<forall>fc\<in>set (?g @ es). fc_ok fc"
      using scan_round_ok(1) [OF r s] es(1) by (metis set_FieldCursors_Sort)
    then have "\<forall>T\<in>set (map fc_rem es). T = {}" using es(2) fc.cur_NULL_iff by auto
    then have m: "conj_matched compact_need (map fc_rem ?g) = conj_matched compact_need (map fc_rem fcs')"
      by (metis conj_matched_Sort conj_matched_drop_empty es(1) map_append)
    have "sum_list (map fc_sz ?g) \<le> sum_list (map fc_sz fcs')"
      by (metis es(1) le_add1 map_append sum_list_Sort sum_list_append)
    moreover have "sorted (map FC_GetCurEntryID ?g)"
      using FieldCursors_Sort_sorted [of fcs'] es(1) by (metis map_append sorted_append)
    ultimately have "\<exists>col''. compact_loop add ?g col' = Some col'' \<and>
        adds_exactly add col' col'' {c. conj_matched compact_need (map fc_rem ?g) c}"
      using scan_round_progress [OF r s] ok' es(3) by (intro less.hyps) auto
    then obtain col'' where "compact_loop add ?g col' = Some col''"
      "adds_exactly add col' col'' {c. conj_matched compact_need (map fc_rem fcs') c}"
      by (auto simp: m)
    moreover have "compact_loop add fcs col = compact_loop add ?g col'"
      using round s by (subst compact_loop.simps) (simp add: Let_def)
    ultimately show ?thesis using scan_round_adds [OF r s] by simp
  qed
qed

subsection \<open>Properties\<close>

text \<open>
  C8: \<^verbatim>\<open>retrieveK\<close> on well-formed field cursors returns, and it hands the collector exactly the
  conjunctions that occur in at least \<^verbatim>\<open>needMatchCnt\<close> of the fields' posting sets and are
  excluded by none of them.
\<close>

theorem retrieveK_exact:
  assumes "\<forall>fc\<in>set fcs. fc_ok fc" "1 \<le> needMatchCnt"
  shows "\<exists>col'. retrieveK add fcs needMatchCnt col = Some col' \<and>
    adds_exactly add col col' {c. conj_matched (\<lambda>_. needMatchCnt) (map fc_rem fcs) c}"
  using assms by (rule retrieveK_correct)

theorem retrieveK_exact_witness:
  "let ec = NewEntriesCursor (NewQKey ''age'' (QInt 1)) [16, 33, 49];
       ed = NewEntriesCursor (NewQKey ''city'' (QInt 2)) [33, 48];
       fcs = [\<lparr>fc_current = ec, fc_cursorGroup = [ec]\<rparr>, \<lparr>fc_current = ed, fc_cursorGroup = [ed]\<rparr>]
   in (\<forall>fc\<in>set fcs. fc_ok fc) \<and>
      (\<exists>cs. retrieveK (\<lambda>col d c. insert c col) fcs 2 {} = Some cs \<and>
         adds_exactly (\<lambda>col d c. insert c col) {} cs {c. conj_matched (\<lambda>_. 2) (map fc_rem fcs) c})"
proof -
  let ?ec = "NewEntriesCursor (NewQKey ''age'' (QInt 1)) [16, 33, 49]"
  let ?ed = "NewEntriesCursor (NewQKey ''city'' (QInt 2)) [33, 48]"
  let ?fcs = "[\<lparr>fc_current = ?ec, fc_cursorGroup = [?ec]\<rparr>, \<lparr>fc_current = ?ed, fc_cursorGroup = [?ed]\<rparr>]"
  have "ec_ok ?ec" "ec_ok ?ed" by (intro NewEntriesCursor_ok; simp add: valid_eid_def)+
  then have "\<forall>fc\<in>set ?fcs. fc_ok fc" by (simp add: fc_ok_def FC_GetCurEntryID_def)
  with retrieveK_exact [of ?fcs 2 "\<lambda>col d c. insert c col" "{}"] show ?thesis by (simp only: Let_def)
qed

text \<open>
  C9: the single pass of the compact index does the same with every conjunction's own size as
  the number of fields it needs: it returns and adds exactly the matched conjunctions.
\<close>

theorem compact_loop_exact:
  assumes "\<forall>fc\<in>set fcs. fc_ok fc \<and> \<not> FC_ReachEnd fc"
  shows "\<exists>col'. compact_loop add (FieldCursors_Sort fcs) col = Some col' \<and>
    adds_exactly add col col' {c. conj_matched compact_need (map fc_rem fcs) c}"
  using compact_loop_correct [of "FieldCursors_Sort fcs" add col] assms FieldCursors_Sort_sorted
  by (simp add: conj_matched_Sort FC_ReachEnd_def FC_GetCurEntryID_def IsNULLEntry_def)

theorem compact_loop_exact_witness:
  "let ec = NewEntriesCursor (NewQKey ''age'' (QInt 1)) [16, 33, 49];
       fcs = [\<lparr>fc_current = ec, fc_cursorGroup = [ec]\<rparr>]
   in (\<forall>fc\<in>set fcs. fc_ok fc \<and> \<not> FC_ReachEnd fc) \<and>
      (\<exists>cs. compact_loop (\<lambda>col d c. insert c col) (FieldCursors_Sort fcs) {} = Some cs \<and>
         adds_exactly (\<lambda>col d c. insert c col) {} cs {c. conj_matched compact_need (map fc_rem fcs) c})"
proof -
  let ?ec = "NewEntriesCursor (NewQKey ''age'' (QInt 1)) [16, 33, 49]"
  let ?fcs = "[\<lparr>fc_current = ?ec, fc_cursorGroup = [?ec]\<rparr>]"
  have "ec_ok ?ec" by (intro NewEntriesCursor_ok; simp add: valid_eid_def)
  then have "\<forall>fc\<in>set ?fcs. fc_ok fc \<and> \<not> FC_ReachEnd fc"
    by (simp add: fc_ok_def FC_GetCurEntryID_def FC_ReachEnd_def NewEntriesCursor_def IsNULLEntry_def NULLENTRY_def)
  with compact_loop_exact [of ?fcs "\<lambda>col d c. insert c col" "{}"] show ?thesis by (simp only: Let_def)
qed

end
