(* ===== verification/ResultCollector.thy ===== *)
theory ResultCollector
  imports RetrieveLoop
begin

text \<open>
  Model of \<^verbatim>\<open>result_collector.go\<close> and of the collector pool of \<^verbatim>\<open>be_indexer.go\<close>. The bitmap of
  the roaring library is a parameter: a record of its operations, with what the collector
  relies on as the predicate \<open>bitmap_spec\<close>.
\<close>

subsection \<open>The bitmap\<close>

text \<open>\<open>bm_values\<close> is the sequence an iterator yields (\<^verbatim>\<open>HasNext\<close>, \<^verbatim>\<open>Next\<close>).\<close>

record 'b bitmap =
  bm_New :: 'b
  bm_Add :: "'b \<Rightarrow> u64 \<Rightarrow> 'b"
  bm_Clear :: "'b \<Rightarrow> 'b"
  bm_GetCardinality :: "'b \<Rightarrow> nat"
  bm_values :: "'b \<Rightarrow> u64 list"

definition bitmap_spec :: "'b bitmap \<Rightarrow> bool" where
  "bitmap_spec bm \<longleftrightarrow>
     bm_values bm (bm_New bm) = [] \<and>
     (\<forall>b. bm_values bm (bm_Clear bm b) = []) \<and>
     (\<forall>b x. set (bm_values bm (bm_Add bm b x)) = insert x (set (bm_values bm b))) \<and>
     (\<forall>b. sorted (bm_values bm b) \<and> distinct (bm_values bm b)) \<and>
     (\<forall>b. bm_GetCardinality bm b = length (bm_values bm b))"

subsection \<open>The collector\<close>

record 'b DocIDCollector =
  docBits :: 'b

definition NewDocIDCollector :: "'b bitmap \<Rightarrow> 'b DocIDCollector" where
  "NewDocIDCollector bm = \<lparr>docBits = bm_New bm\<rparr>"

definition DocCount :: "'b bitmap \<Rightarrow> 'b DocIDCollector \<Rightarrow> int" where
  "DocCount bm c = int (bm_GetCardinality bm (docBits c))"

definition Collector_Reset :: "'b bitmap \<Rightarrow> 'b DocIDCollector \<Rightarrow> 'b DocIDCollector" where
  "Collector_Reset bm c = c\<lparr>docBits := bm_Clear bm (docBits c)\<rparr>"

definition Collector_Add :: "'b bitmap \<Rightarrow> 'b DocIDCollector \<Rightarrow> DocID \<Rightarrow> ConjID \<Rightarrow> 'b DocIDCollector" where
  "Collector_Add bm c docID _ = c\<lparr>docBits := bm_Add bm (docBits c) (word_of_int docID)\<rparr>"

definition GetDocIDs :: "'b bitmap \<Rightarrow> 'b DocIDCollector \<Rightarrow> DocID list" where
  "GetDocIDs bm c = (if DocCount bm c = 0 then [] else map sint (bm_values bm (docBits c)))"

definition GetDocIDsInto :: "'b bitmap \<Rightarrow> 'b DocIDCollector \<Rightarrow> DocID list \<Rightarrow> DocID list" where
  "GetDocIDsInto bm c ids = (if DocCount bm c = 0 then ids else ids @ map sint (bm_values bm (docBits c)))"

subsection \<open>The pool\<close>

text \<open>
  \<^verbatim>\<open>sync.Pool\<close> may return any collector that was put, or make a new one; \<open>choice\<close> is the index
  of the collector it returns, out of range for a new one.
\<close>

definition PickCollector ::
  "'b bitmap \<Rightarrow> nat \<Rightarrow> 'b DocIDCollector list \<Rightarrow> 'b DocIDCollector \<times> 'b DocIDCollector list"
where
  "PickCollector bm choice pool =
     (if choice < length pool then (pool ! choice, take choice pool @ drop (Suc choice) pool)
      else (NewDocIDCollector bm, pool))"

definition PutCollector ::
  "'b bitmap \<Rightarrow> 'b DocIDCollector option \<Rightarrow> 'b DocIDCollector list \<Rightarrow> 'b DocIDCollector list"
where
  "PutCollector bm c pool =
     (case c of None \<Rightarrow> pool | Some col \<Rightarrow> Collector_Reset bm col # pool)"

subsection \<open>Laws\<close>

definition collected :: "'b bitmap \<Rightarrow> 'b DocIDCollector \<Rightarrow> u64 set" where
  "collected bm c = set (bm_values bm (docBits c))"

definition pool_clean :: "'b bitmap \<Rightarrow> 'b DocIDCollector list \<Rightarrow> bool" where
  "pool_clean bm pool \<longleftrightarrow> (\<forall>c\<in>set pool. collected bm c = {})"

lemma GetDocIDs_values:
  assumes "bitmap_spec bm"
  shows "GetDocIDs bm c = map sint (bm_values bm (docBits c))"
    and "GetDocIDsInto bm c ids = ids @ map sint (bm_values bm (docBits c))"
  using assms by (auto simp: GetDocIDs_def GetDocIDsInto_def DocCount_def bitmap_spec_def)

lemma collected_Add [simp]:
  "bitmap_spec bm \<Longrightarrow> collected bm (Collector_Add bm c d cj) = insert (word_of_int d) (collected bm c)"
  by (simp add: collected_def Collector_Add_def bitmap_spec_def)

lemma collected_New [simp]: "bitmap_spec bm \<Longrightarrow> collected bm (NewDocIDCollector bm) = {}"
  by (simp add: collected_def NewDocIDCollector_def bitmap_spec_def)

lemma collected_Reset [simp]: "bitmap_spec bm \<Longrightarrow> collected bm (Collector_Reset bm c) = {}"
  by (simp add: collected_def Collector_Reset_def bitmap_spec_def)

lemma PickCollector_clean:
  assumes "bitmap_spec bm" "pool_clean bm pool" "PickCollector bm choice pool = (c, pool')"
  shows "collected bm c = {}" "pool_clean bm pool'"
proof -
  have "set pool' \<subseteq> set pool"
    using assms(3) set_take_subset set_drop_subset by (fastforce simp: PickCollector_def split: if_splits)
  then show "pool_clean bm pool'" using assms(2) by (auto simp: pool_clean_def)
  show "collected bm c = {}"
    using assms by (auto simp: PickCollector_def pool_clean_def split: if_splits)
qed

lemma PutCollector_clean:
  "bitmap_spec bm \<Longrightarrow> pool_clean bm pool \<Longrightarrow> pool_clean bm (PutCollector bm c pool)"
  by (cases c) (auto simp: PutCollector_def pool_clean_def)

lemma collected_adds:
  assumes "bitmap_spec bm" "adds_exactly (Collector_Add bm) col col' C"
  shows "collected bm col' = collected bm col \<union> (\<lambda>c. word_of_int (ConjID_DocID c)) ` C"
proof -
  obtain cs where cs: "col' = foldl (\<lambda>a c. Collector_Add bm a (ConjID_DocID c) c) col cs" "set cs = C"
    using assms(2) by (auto simp: adds_exactly_def)
  have "collected bm (foldl (\<lambda>a c. Collector_Add bm a (ConjID_DocID c) c) col cs) =
      collected bm col \<union> (\<lambda>c. word_of_int (ConjID_DocID c)) ` set cs"
    by (induction cs arbitrary: col) (auto simp: assms(1))
  with cs show ?thesis by simp
qed

lemma ConjID_DocID_bounds: "\<bar>ConjID_DocID c\<bar> < 2 ^ 43"
proof -
  have "c AND word_of_int MaxDocID = take_bit 43 c"
    by (simp add: MaxDocID_def take_bit_eq_mask mask_eq_exp_minus_1)
  moreover have "uint (take_bit 43 c) < 2 ^ 43" 
    by (simp only: unsigned_take_bit_eq) (rule take_bit_int_less_exp)
  moreover have "sint w = uint w" if "uint w < 2 ^ 43" for w :: u64
    using that by (simp add: sint_uint signed_take_bit_eq_take_bit_shift)
      (simp add: take_bit_int_eq_self)
  ultimately have "0 \<le> sint (c AND word_of_int MaxDocID)" "sint (c AND word_of_int MaxDocID) < 2 ^ 43" by simp_all
  then show ?thesis by (simp add: ConjID_DocID_def Let_def)
qed

lemma sint_word_of_int: "\<bar>d\<bar> < 2 ^ 43 \<Longrightarrow> sint (word_of_int d :: u64) = d"
  by (simp add: sint_sbintrunc' signed_take_bit_int_eq_self)

lemma GetDocIDs_adds:
  assumes "bitmap_spec bm" "collected bm col = {}" "adds_exactly (Collector_Add bm) col col' C"
  shows "set (GetDocIDs bm col') = ConjID_DocID ` C"
    and "distinct (GetDocIDs bm col')"
    and "sorted (map (word_of_int :: int \<Rightarrow> u64) (GetDocIDs bm col'))"
    and "GetDocIDs bm col' = map sint (sorted_list_of_set ((word_of_int :: int \<Rightarrow> u64) ` ConjID_DocID ` C))"
proof -
  let ?vs = "bm_values bm (docBits col')"
  have vs: "set ?vs = (\<lambda>c. word_of_int (ConjID_DocID c)) ` C"
    using collected_adds [OF assms(1,3)] assms(2) by (simp add: collected_def)
  have g: "GetDocIDs bm col' = map sint ?vs" using GetDocIDs_values [OF assms(1)] by simp
  have sw: "sint (word_of_int (ConjID_DocID c) :: u64) = ConjID_DocID c" for c
    using sint_word_of_int ConjID_DocID_bounds by blast
  show "set (GetDocIDs bm col') = ConjID_DocID ` C" by (simp add: g vs image_image sw)
  have d: "distinct ?vs" "sorted ?vs" using assms(1) by (auto simp: bitmap_spec_def)
  then have "?vs = sorted_list_of_set (set ?vs)" by (simp add: sorted_list_of_set.idem_if_sorted_distinct)
  then show "GetDocIDs bm col' = map sint (sorted_list_of_set ((word_of_int :: int \<Rightarrow> u64) ` ConjID_DocID ` C))"
    by (simp add: g vs image_image)
  note d
  moreover have "inj_on (sint :: u64 \<Rightarrow> int) A" for A by (rule inj_on_inverseI [of _ word_of_int]) simp
  ultimately show "distinct (GetDocIDs bm col')" "sorted (map (word_of_int :: int \<Rightarrow> u64) (GetDocIDs bm col'))"
    by (simp_all add: g distinct_map comp_def)
qed

subsection \<open>Properties\<close>

definition add_hits :: "'b bitmap \<Rightarrow> 'b DocIDCollector \<Rightarrow> (DocID \<times> ConjID) list \<Rightarrow> 'b DocIDCollector" where
  "add_hits bm c hits = foldl (\<lambda>c (d, cj). Collector_Add bm c d cj) c hits"

lemma collected_add_hits:
  "bitmap_spec bm \<Longrightarrow> collected bm (add_hits bm c hits) = collected bm c \<union> (\<lambda>h. word_of_int (fst h)) ` set hits"
  unfolding add_hits_def by (induction hits arbitrary: c) auto

text \<open>
  C23: A collector removes duplicates: after any sequence of hits on valid document ids, also
  negative ones, it counts and returns each id once, and after a reset it is empty.
\<close>

theorem Collector_exact:
  assumes bm: "bitmap_spec bm" and ids: "\<forall>h\<in>set hits. ValidDocID (fst h)"
  shows "set (GetDocIDs bm (add_hits bm (NewDocIDCollector bm) hits)) = fst ` set hits \<and>
    distinct (GetDocIDs bm (add_hits bm (NewDocIDCollector bm) hits)) \<and>
    DocCount bm (add_hits bm (NewDocIDCollector bm) hits) = int (card (fst ` set hits)) \<and>
    GetDocIDs bm (Collector_Reset bm (add_hits bm (NewDocIDCollector bm) hits)) = []"
proof -
  let ?c = "add_hits bm (NewDocIDCollector bm) hits"
  let ?vs = "bm_values bm (docBits ?c)"
  have vs: "set ?vs = (\<lambda>h. word_of_int (fst h)) ` set hits"
    using collected_add_hits [OF bm, of "NewDocIDCollector bm" hits] bm by (simp add: collected_def [symmetric])
  have g: "GetDocIDs bm ?c = map sint ?vs" using GetDocIDs_values [OF bm] by simp
  have "sint (word_of_int (fst h) :: u64) = fst h" if "h \<in> set hits" for h
    using ids that by (intro sint_word_of_int) (auto simp: ValidDocID_def MaxDocID_def abs_less_iff)
  then have s: "set (GetDocIDs bm ?c) = fst ` set hits" by (auto simp: g vs image_image cong: image_cong)
  have "inj_on (sint :: u64 \<Rightarrow> int) A" for A by (rule inj_on_inverseI [of _ word_of_int]) simp
  then have d: "distinct (GetDocIDs bm ?c)" using bm by (simp add: g distinct_map bitmap_spec_def)
  have "DocCount bm ?c = int (length (GetDocIDs bm ?c))" using bm by (simp add: DocCount_def g bitmap_spec_def)
  also have "\<dots> = int (card (fst ` set hits))" using distinct_card [OF d] s by simp
  finally have n: "DocCount bm ?c = int (card (fst ` set hits))" .
  have "GetDocIDs bm (Collector_Reset bm ?c) = []"
    using collected_Reset [OF bm, of ?c] GetDocIDs_values(1) [OF bm, of "Collector_Reset bm ?c"] by (simp add: collected_def)
  then show ?thesis using s d n by blast
qed

theorem Collector_exact_witness:
  "\<exists>bm :: u64 list bitmap. set (GetDocIDs bm (add_hits bm (NewDocIDCollector bm) [(7, 1), (- 8, 2), (7, 3)])) = {7, - 8} \<and>
     DocCount bm (add_hits bm (NewDocIDCollector bm) [(7, 1), (- 8, 2), (7, 3)]) = 2"
proof -
  let ?bm = "\<lparr>bm_New = [], bm_Add = (\<lambda>b x. x # b), bm_Clear = (\<lambda>b. []), bm_GetCardinality = (\<lambda>b. length (remdups b)),
      bm_values = (\<lambda>b. sort (remdups b))\<rparr> :: u64 list bitmap"
  have "bitmap_spec ?bm" by (auto simp: bitmap_spec_def)
  then have "set (GetDocIDs ?bm (add_hits ?bm (NewDocIDCollector ?bm) [(7, 1), (- 8, 2), (7, 3)])) = {7, - 8} \<and>
      DocCount ?bm (add_hits ?bm (NewDocIDCollector ?bm) [(7, 1), (- 8, 2), (7, 3)]) = 2"
    using Collector_exact [of ?bm "[(7, 1), (- 8, 2), (7, 3)]"] by (simp add: ValidDocID_def MaxDocID_def insert_commute)
  then show ?thesis by blast
qed

end
