(* ===== verification/BEIndex.thy ===== *)
theory BEIndex
  imports Holders ResultCollector
begin

text \<open>
  Model of \<^verbatim>\<open>be_indexer.go\<close>, \<^verbatim>\<open>be_indexer_kgroups.go\<close> and \<^verbatim>\<open>be_indexer_compact.go\<close>: the containers
  of holders, the two indexes and their retrieval. The lemmas show that both retrievals
  return and collect exactly the conjunctions that the posting sets of the assigned
  fields match.
\<close>

subsection \<open>Containers\<close>

text \<open>An interface value of the source may be nil, so the default holder is an option.\<close>

record EntriesContainer =
  defaultHolder :: "EntriesHolder option"
  fieldHolder :: "(BEField \<times> EntriesHolder) list"

definition newFieldEntriesContainer :: "HolderFactory \<Rightarrow> EntriesContainer" where
  "newFieldEntriesContainer factory =
     \<lparr>defaultHolder = NewEntriesHolder factory HolderNameDefault, fieldHolder = []\<rparr>"

fun compile_holders :: "(BEField \<times> EntriesHolder) list \<Rightarrow> (BEField \<times> EntriesHolder) list res" where
  "compile_holders [] = Inr []"
| "compile_holders ((f, h) # hs) =
     (case CompileEntries h of
        Inl e \<Rightarrow> Inl e
      | Inr h' \<Rightarrow> (case compile_holders hs of Inl e \<Rightarrow> Inl e | Inr hs' \<Rightarrow> Inr ((f, h') # hs')))"

definition compileEntries :: "EntriesContainer \<Rightarrow> EntriesContainer res" where
  "compileEntries c =
     (case defaultHolder c of
        None \<Rightarrow> Inl (Panic ''nil pointer dereference: defaultHolder'')
      | Some h \<Rightarrow>
          (case CompileEntries h of
             Inl e \<Rightarrow> Inl e
           | Inr h' \<Rightarrow>
               (case compile_holders (fieldHolder c) of
                  Inl e \<Rightarrow> Inl e
                | Inr hs \<Rightarrow> Inr \<lparr>defaultHolder = Some h', fieldHolder = hs\<rparr>)))"

definition getFieldHolder :: "EntriesContainer \<Rightarrow> FieldDesc \<Rightarrow> EntriesHolder option" where
  "getFieldHolder c desc =
     (if Container desc = HolderNameDefault then defaultHolder c
      else map_of (fieldHolder c) (fd_Field desc))"

definition GetHolder :: "EntriesContainer \<Rightarrow> FieldDesc \<Rightarrow> EntriesHolder option" where
  "GetHolder c desc =
     (if Container desc = HolderNameDefault then defaultHolder c
      else map_of (fieldHolder c) (fd_Field desc))"

text \<open>\<open>CreateHolder\<close> returns the container with the holder, and the reference of the holder.\<close>

definition CreateHolder ::
  "HolderFactory \<Rightarrow> nat \<Rightarrow> EntriesContainer \<Rightarrow> FieldDesc \<Rightarrow> (EntriesContainer \<times> holder_ref) res"
where
  "CreateHolder factory k c desc =
     (case GetHolder c desc of
        Some _ \<Rightarrow>
          Inr (c, if Container desc = HolderNameDefault then RefDefault k else RefField k (fd_Field desc))
      | None \<Rightarrow>
          (case NewEntriesHolder factory (Container desc) of
             None \<Rightarrow> Inl (Panic ''container not found, plz register it'')
           | Some holder \<Rightarrow>
               Inr (c\<lparr>fieldHolder := alist_put (fd_Field desc) holder (fieldHolder c)\<rparr>,
                    RefField k (fd_Field desc))))"

subsection \<open>The two indexes\<close>

definition WildcardFieldName :: BEField where "WildcardFieldName = ''_Z_''"

definition wildcardQKey :: QKey where "wildcardQKey = NewQKey WildcardFieldName (QInt 0)"

record indexBase =
  ib_fieldsData :: "(BEField \<times> FieldDesc) list"
  wildcardEntries :: Entries

record KGroupsBEIndex = indexBase +
  kSizeContainers :: "EntriesContainer list"

record CompactBEIndex = indexBase +
  ci_container :: EntriesContainer

datatype BEIndex = KGroups KGroupsBEIndex | Compact CompactBEIndex

definition NewKGroupsBEIndex :: BEIndex where
  "NewKGroupsBEIndex = KGroups \<lparr>ib_fieldsData = [], wildcardEntries = [], kSizeContainers = []\<rparr>"

definition NewCompactedBEIndex :: "HolderFactory \<Rightarrow> BEIndex" where
  "NewCompactedBEIndex factory =
     Compact \<lparr>ib_fieldsData = [], wildcardEntries = [], ci_container = newFieldEntriesContainer factory\<rparr>"

fun setFieldDesc :: "BEIndex \<Rightarrow> (BEField \<times> FieldDesc) list \<Rightarrow> BEIndex" where
  "setFieldDesc (KGroups bi) fieldsData = KGroups (bi\<lparr>ib_fieldsData := fieldsData\<rparr>)"
| "setFieldDesc (Compact bi) fieldsData = Compact (bi\<lparr>ib_fieldsData := fieldsData\<rparr>)"

fun addWildcardEID :: "BEIndex \<Rightarrow> EntryID \<Rightarrow> BEIndex" where
  "addWildcardEID (KGroups bi) eid = KGroups (bi\<lparr>wildcardEntries := wildcardEntries bi @ [eid]\<rparr>)"
| "addWildcardEID (Compact bi) eid = Compact (bi\<lparr>wildcardEntries := wildcardEntries bi @ [eid]\<rparr>)"

text \<open>
  \<open>newContainer\<close> returns a pointer to a container. The model returns the index with the
  container made, and names the container by \<open>k\<close>.
\<close>

function grow_containers :: "HolderFactory \<Rightarrow> nat \<Rightarrow> EntriesContainer list \<Rightarrow> EntriesContainer list" where
  "grow_containers factory k cs =
     (if k \<ge> length cs then grow_containers factory k (cs @ [newFieldEntriesContainer factory]) else cs)"
  by pat_completeness auto
termination by (relation "measure (\<lambda>(f, k, cs). Suc k - length cs)") auto

declare grow_containers.simps [simp del]

fun newContainer :: "HolderFactory \<Rightarrow> BEIndex \<Rightarrow> nat \<Rightarrow> BEIndex" where
  "newContainer factory (KGroups bi) k =
     KGroups (bi\<lparr>kSizeContainers := grow_containers factory k (kSizeContainers bi)\<rparr>)"
| "newContainer factory (Compact bi) k = Compact bi"

fun container_at :: "BEIndex \<Rightarrow> nat \<Rightarrow> EntriesContainer" where
  "container_at (KGroups bi) k = kSizeContainers bi ! k"
| "container_at (Compact bi) k = ci_container bi"

fun put_container :: "BEIndex \<Rightarrow> nat \<Rightarrow> EntriesContainer \<Rightarrow> BEIndex" where
  "put_container (KGroups bi) k c = KGroups (bi\<lparr>kSizeContainers := (kSizeContainers bi)[k := c]\<rparr>)"
| "put_container (Compact bi) k c = Compact (bi\<lparr>ci_container := c\<rparr>)"

definition sort_wildcards :: "Entries \<Rightarrow> Entries" where
  "sort_wildcards es = (if length es > 0 then sort es else es)"

fun compileIndexer :: "BEIndex \<Rightarrow> BEIndex res" where
  "compileIndexer (KGroups bi) =
     (case map_res compileEntries (kSizeContainers bi) of
        Inl e \<Rightarrow> Inl e
      | Inr cs \<Rightarrow>
          Inr (KGroups (bi\<lparr>kSizeContainers := cs, wildcardEntries := sort_wildcards (wildcardEntries bi)\<rparr>)))"
| "compileIndexer (Compact bi) =
     (case compileEntries (ci_container bi) of
        Inl e \<Rightarrow> Inl e
      | Inr c \<Rightarrow>
          Inr (Compact (bi\<lparr>ci_container := c, wildcardEntries := sort_wildcards (wildcardEntries bi)\<rparr>)))"

subsection \<open>Cursors\<close>

text \<open>The wildcard cursor and the loop over the assigned fields, which both indexes have.\<close>

definition wildcard_cursors :: "Entries \<Rightarrow> FieldCursor list res" where
  "wildcard_cursors es =
     (if length es > 0
      then (case NewFieldCursor [NewEntriesCursor wildcardQKey es] of Inl e \<Rightarrow> Inl e | Inr fc \<Rightarrow> Inr [fc])
      else Inr [])"

fun field_cursors ::
  "codec \<Rightarrow> (BEField \<times> FieldDesc) list \<Rightarrow> EntriesContainer \<Rightarrow> Assignments \<Rightarrow> FieldCursor list res"
where
  "field_cursors lib fieldsData c [] = Inr []"
| "field_cursors lib fieldsData c ((field, values) # assigns) =
     (case map_of fieldsData field of
        None \<Rightarrow> field_cursors lib fieldsData c assigns
      | Some desc \<Rightarrow>
          (case getFieldHolder c desc of
             None \<Rightarrow> field_cursors lib fieldsData c assigns
           | Some holder \<Rightarrow>
               (case GetEntries lib holder desc values of
                  Inl e \<Rightarrow> Inl e
                | Inr entriesList \<Rightarrow>
                    (if length entriesList > 0
                     then (case NewFieldCursor entriesList of
                             Inl e \<Rightarrow> Inl e
                           | Inr fc \<Rightarrow>
                               (case field_cursors lib fieldsData c assigns of
                                  Inl e \<Rightarrow> Inl e | Inr fcs \<Rightarrow> Inr (fc # fcs)))
                     else field_cursors lib fieldsData c assigns))))"

definition append_cursors :: "FieldCursor list res \<Rightarrow> FieldCursor list res \<Rightarrow> FieldCursor list res" where
  "append_cursors r s =
     (case r of Inl e \<Rightarrow> Inl e | Inr fcs \<Rightarrow> (case s of Inl e \<Rightarrow> Inl e | Inr gcs \<Rightarrow> Inr (fcs @ gcs)))"

definition getKSizeEntries :: "KGroupsBEIndex \<Rightarrow> nat \<Rightarrow> EntriesContainer res" where
  "getKSizeEntries bi k =
     (if k \<ge> length (kSizeContainers bi) then Inl (Panic ''k out of range'') else Inr (kSizeContainers bi ! k))"

definition KG_initCursors :: "codec \<Rightarrow> KGroupsBEIndex \<Rightarrow> Assignments \<Rightarrow> nat \<Rightarrow> FieldCursor list res" where
  "KG_initCursors lib bi assigns k =
     append_cursors (if k = 0 then wildcard_cursors (wildcardEntries bi) else Inr [])
       (case getKSizeEntries bi k of
          Inl e \<Rightarrow> Inl e
        | Inr c \<Rightarrow> field_cursors lib (ib_fieldsData bi) c assigns)"

definition Compact_initCursors :: "codec \<Rightarrow> CompactBEIndex \<Rightarrow> Assignments \<Rightarrow> FieldCursor list res" where
  "Compact_initCursors lib bi assigns =
     append_cursors (wildcard_cursors (wildcardEntries bi))
       (field_cursors lib (ib_fieldsData bi) (ci_container bi) assigns)"

subsection \<open>Retrieval\<close>

datatype 'col IndexOpt = WithStepDetail | WithDumpEntries | WithCollector 'col

record 'col retrieveContext =
  dumpStepInfo :: bool
  dumpEntriesDetail :: bool
  ctx_collector :: "'col option"
  ctx_assigns :: Assignments

fun apply_opt :: "'col retrieveContext \<Rightarrow> 'col IndexOpt \<Rightarrow> 'col retrieveContext" where
  "apply_opt ctx WithStepDetail = ctx\<lparr>dumpStepInfo := True\<rparr>"
| "apply_opt ctx WithDumpEntries = ctx\<lparr>dumpEntriesDetail := True\<rparr>"
| "apply_opt ctx (WithCollector col) = ctx\<lparr>ctx_collector := Some col\<rparr>"

definition newRetrieveCtx :: "Assignments \<Rightarrow> 'col IndexOpt list \<Rightarrow> 'col retrieveContext" where
  "newRetrieveCtx ass opts =
     foldl apply_opt
       \<lparr>dumpStepInfo = False, dumpEntriesDetail = False, ctx_collector = None, ctx_assigns = ass\<rparr> opts"

text \<open>
  A retrieval returns the collector and the error or panic that ended it, if any; \<open>None\<close> is a
  run that does not end. \<open>KG_rounds n\<close> runs the rounds \<open>n - 1\<close> down to 0.
\<close>

fun KG_rounds ::
  "codec \<Rightarrow> ('col \<Rightarrow> DocID \<Rightarrow> ConjID \<Rightarrow> 'col) \<Rightarrow> KGroupsBEIndex \<Rightarrow> Assignments \<Rightarrow> nat \<Rightarrow> 'col \<Rightarrow>
   ('col \<times> gerr option) option"
where
  "KG_rounds lib add bi assigns 0 col = Some (col, None)"
| "KG_rounds lib add bi assigns (Suc k) col =
     (case KG_initCursors lib bi assigns k of
        Inl e \<Rightarrow> Some (col, Some e)
      | Inr fCursors \<Rightarrow>
          (case retrieveK add fCursors (nat (MaxInt (int k) 1)) col of
             None \<Rightarrow> None
           | Some col' \<Rightarrow> KG_rounds lib add bi assigns k col'))"

definition maxK :: "KGroupsBEIndex \<Rightarrow> int" where
  "maxK bi = int (length (kSizeContainers bi)) - 1"

definition KG_RetrieveWithCollector ::
  "codec \<Rightarrow> ('col \<Rightarrow> DocID \<Rightarrow> ConjID \<Rightarrow> 'col) \<Rightarrow> KGroupsBEIndex \<Rightarrow> Assignments \<Rightarrow> 'col \<Rightarrow> 'col IndexOpt list \<Rightarrow>
   ('col \<times> gerr option) option"
where
  "KG_RetrieveWithCollector lib add bi queries col opts =
     (if ctx_collector (newRetrieveCtx queries opts) \<noteq> None
      then Some (col, Some (Panic ''can't specify collector twice''))
      else (case Assignments_Size queries of
              Inl e \<Rightarrow> Some (col, Some e)
            | Inr n \<Rightarrow> KG_rounds lib add bi queries (nat (MinInt n (maxK bi) + 1)) col))"

definition Compact_RetrieveWithCollector ::
  "codec \<Rightarrow> ('col \<Rightarrow> DocID \<Rightarrow> ConjID \<Rightarrow> 'col) \<Rightarrow> CompactBEIndex \<Rightarrow> Assignments \<Rightarrow> 'col \<Rightarrow> 'col IndexOpt list \<Rightarrow>
   ('col \<times> gerr option) option"
where
  "Compact_RetrieveWithCollector lib add bi queries col opts =
     (if ctx_collector (newRetrieveCtx queries opts) \<noteq> None
      then Some (col, Some (Panic ''can't specify collector twice''))
      else (case Compact_initCursors lib bi queries of
              Inl e \<Rightarrow> Some (col, Some e)
            | Inr fieldCursors \<Rightarrow>
                map_option (\<lambda>col'. (col', None)) (compact_loop add (FieldCursors_Sort fieldCursors) col)))"

fun RetrieveWithCollector ::
  "codec \<Rightarrow> ('col \<Rightarrow> DocID \<Rightarrow> ConjID \<Rightarrow> 'col) \<Rightarrow> BEIndex \<Rightarrow> Assignments \<Rightarrow> 'col \<Rightarrow> 'col IndexOpt list \<Rightarrow>
   ('col \<times> gerr option) option"
where
  "RetrieveWithCollector lib add (KGroups bi) = KG_RetrieveWithCollector lib add bi"
| "RetrieveWithCollector lib add (Compact bi) = Compact_RetrieveWithCollector lib add bi"

text \<open>
  \<open>Retrieve\<close>, the same for both indexes: a collector from the pool, which goes back to it
  whatever happens. The result is the ids or the error, and the pool.
\<close>

definition Retrieve ::
  "codec \<Rightarrow> 'b bitmap \<Rightarrow> BEIndex \<Rightarrow> Assignments \<Rightarrow> 'b DocIDCollector IndexOpt list \<Rightarrow>
   nat \<Rightarrow> 'b DocIDCollector list \<Rightarrow> (DocID list res \<times> 'b DocIDCollector list) option"
where
  "Retrieve lib bm index queries opts choice pool =
     (case PickCollector bm choice pool of
        (collector, pool') \<Rightarrow>
          (case RetrieveWithCollector lib (Collector_Add bm) index queries collector opts of
             None \<Rightarrow> None
           | Some (collector', err) \<Rightarrow>
               Some ((case err of Some e \<Rightarrow> Inl e | None \<Rightarrow> Inr (GetDocIDs bm collector')),
                     PutCollector bm (Some collector') pool')))"

subsection \<open>Cursors show the posting sets\<close>

definition field_posts ::
  "codec \<Rightarrow> (BEField \<times> FieldDesc) list \<Rightarrow> EntriesContainer \<Rightarrow> BEField \<times> Values \<Rightarrow> EntryID set"
where
  "field_posts lib fieldsData c = (\<lambda>(f, v).
     case map_of fieldsData f of
       None \<Rightarrow> {}
     | Some desc \<Rightarrow>
         (case getFieldHolder c desc of None \<Rightarrow> {} | Some h \<Rightarrow> eh_posted lib h desc v))"

definition answerable ::
  "codec \<Rightarrow> (BEField \<times> FieldDesc) list \<Rightarrow> EntriesContainer \<Rightarrow> Assignments \<Rightarrow> bool"
where
  "answerable lib fieldsData c assigns \<longleftrightarrow>
     (\<forall>f v desc h. (f, v) \<in> set assigns \<longrightarrow> map_of fieldsData f = Some desc \<longrightarrow>
        getFieldHolder c desc = Some h \<longrightarrow> (\<exists>cs. GetEntries lib h desc v = Inr cs))"

definition container_ready :: "EntriesContainer \<Rightarrow> bool" where
  "container_ready c \<longleftrightarrow> (\<forall>desc h. getFieldHolder c desc = Some h \<longrightarrow> eh_ready h)"

definition live_cursors :: "FieldCursor list \<Rightarrow> EntryID set list \<Rightarrow> bool" where
  "live_cursors fcs Ss \<longleftrightarrow>
     (\<forall>fc\<in>set fcs. fc_ok fc \<and> \<not> FC_ReachEnd fc) \<and> map fc_rem fcs = filter (\<lambda>S. S \<noteq> {}) Ss"

lemma live_cursors_Nil [simp]: "live_cursors [] []"
  by (simp add: live_cursors_def)

lemma live_cursors_empty: "live_cursors fcs Ss \<Longrightarrow> live_cursors fcs ({} # Ss)"
  by (simp add: live_cursors_def)

lemma live_cursors_append:
  "live_cursors fcs Ss \<Longrightarrow> live_cursors gcs Ts \<Longrightarrow> live_cursors (fcs @ gcs) (Ss @ Ts)"
  by (auto simp: live_cursors_def)

lemma live_cursors_Cons:
  assumes "cs \<noteq> []" "\<forall>c\<in>set cs. ec_ok c \<and> ec_rem c \<noteq> {}" "(\<Union>c\<in>set cs. ec_rem c) = S"
  obtains fc where "NewFieldCursor cs = Inr fc"
    "\<And>fcs Ss. live_cursors fcs Ss \<Longrightarrow> live_cursors (fc # fcs) (S # Ss)"
proof -
  obtain fc where fc: "NewFieldCursor cs = Inr fc" "fc_ok fc" "fc_rem fc = S"
    using NewFieldCursor_ok [OF assms(1)] assms(2,3) by auto
  have "S \<noteq> {}" using assms by (cases cs) auto
  then have "\<not> FC_ReachEnd fc"
    using fc.cur_NULL_iff [OF fc(2)] fc(3) by (simp add: FC_ReachEnd_def FC_GetCurEntryID_def IsNULLEntry_def)
  then show ?thesis using that fc \<open>S \<noteq> {}\<close> by (simp add: live_cursors_def)
qed

lemma conj_matched_live:
  assumes "live_cursors fcs Ss"
  shows "conj_matched need (map fc_rem fcs) = conj_matched need Ss"
proof
  fix c
  have "filter (has_conj c) (filter (\<lambda>S. S \<noteq> {}) Ss) = filter (has_conj c) Ss"
    by (induction Ss) (auto simp: has_conj_def)
  moreover have "\<not> has_excl c {}" by (simp add: has_excl_def)
  ultimately show "conj_matched need (map fc_rem fcs) c = conj_matched need Ss c"
    using assms by (auto simp: live_cursors_def conj_matched_def)
qed

lemma wildcard_cursors_ok:
  assumes "sorted es" "\<forall>e\<in>set es. valid_eid e"
  shows "\<exists>fcs. wildcard_cursors es = Inr fcs \<and> live_cursors fcs [set es]"
proof (cases "es = []")
  case False
  let ?c = "NewEntriesCursor wildcardQKey es"
  have "\<forall>c\<in>set [?c]. ec_ok c \<and> ec_rem c \<noteq> {}"
    using NewEntriesCursor_ok [OF assms] False by simp
  moreover have "(\<Union>c\<in>set [?c]. ec_rem c) = set es" by simp
  ultimately obtain fc where "NewFieldCursor [?c] = Inr fc"
    "\<And>fcs Ss. live_cursors fcs Ss \<Longrightarrow> live_cursors (fc # fcs) (set es # Ss)"
    using live_cursors_Cons [of "[?c]" "set es"] by blast
  then show ?thesis using False by (simp add: wildcard_cursors_def)
qed (simp add: wildcard_cursors_def live_cursors_empty)

lemma field_cursors_ok:
  assumes "container_ready c" "answerable lib fieldsData c assigns"
  shows "\<exists>fcs. field_cursors lib fieldsData c assigns = Inr fcs \<and>
    live_cursors fcs (map (field_posts lib fieldsData c) assigns)"
  using assms(2)
proof (induction assigns)
  case (Cons a assigns)
  obtain f v where a: "a = (f, v)" by fastforce
  have "answerable lib fieldsData c assigns" using Cons.prems by (auto simp: answerable_def)
  then obtain fcs where fcs: "field_cursors lib fieldsData c assigns = Inr fcs"
    "live_cursors fcs (map (field_posts lib fieldsData c) assigns)" using Cons.IH by blast
  show ?case
  proof (cases "map_of fieldsData f")
    case None
    then show ?thesis using fcs by (simp add: a field_posts_def live_cursors_empty)
  next
    case (Some desc)
    show ?thesis
    proof (cases "getFieldHolder c desc")
      case None
      then show ?thesis using fcs Some by (simp add: a field_posts_def live_cursors_empty)
    next
      case (Some h)
      note desc = \<open>map_of fieldsData f = Some desc\<close>
      have "eh_ready h" using assms(1) Some by (simp add: container_ready_def)
      moreover obtain cs where get: "GetEntries lib h desc v = Inr cs"
        using Cons.prems Some desc unfolding answerable_def a by (metis list.set_intros(1))
      ultimately have cs: "GetEntries lib h desc v = Inr cs"
        "\<forall>c\<in>set cs. ec_ok c \<and> ec_rem c \<noteq> {}" "(\<Union>c\<in>set cs. ec_rem c) = eh_posted lib h desc v"
        using eh.get_sound by blast+
      have p: "field_posts lib fieldsData c a = eh_posted lib h desc v"
        using desc Some by (simp add: field_posts_def a)
      show ?thesis
      proof (cases "cs = []")
        case True
        then have "field_posts lib fieldsData c a = {}" using cs(3) p by simp
        then show ?thesis using fcs cs True desc Some by (simp add: a live_cursors_empty)
      next
        case False
        then obtain fc where "NewFieldCursor cs = Inr fc"
          "\<And>fcs Ss. live_cursors fcs Ss \<Longrightarrow> live_cursors (fc # fcs) (eh_posted lib h desc v # Ss)"
          using live_cursors_Cons [OF False cs(2,3)] by blast
        then show ?thesis using fcs cs False desc Some p by (simp add: a)
      qed
    qed
  qed
qed simp

subsection \<open>Retrieval collects the matched conjunctions\<close>

definition kg_sets :: "codec \<Rightarrow> KGroupsBEIndex \<Rightarrow> Assignments \<Rightarrow> nat \<Rightarrow> EntryID set list" where
  "kg_sets lib bi assigns k =
     (if k = 0 then [set (wildcardEntries bi)] else []) @
     map (field_posts lib (ib_fieldsData bi) (kSizeContainers bi ! k)) assigns"

definition compact_sets :: "codec \<Rightarrow> CompactBEIndex \<Rightarrow> Assignments \<Rightarrow> EntryID set list" where
  "compact_sets lib bi assigns =
     set (wildcardEntries bi) # map (field_posts lib (ib_fieldsData bi) (ci_container bi)) assigns"

definition wildcards_ok :: "Entries \<Rightarrow> bool" where
  "wildcards_ok es \<longleftrightarrow> sorted es \<and> (\<forall>e\<in>set es. valid_eid e)"

lemma append_cursors_ok:
  assumes "\<exists>fcs. r = Inr fcs \<and> live_cursors fcs Ss" "\<exists>gcs. s = Inr gcs \<and> live_cursors gcs Ts"
  shows "\<exists>hcs. append_cursors r s = Inr hcs \<and> live_cursors hcs (Ss @ Ts)"
  using assms live_cursors_append by (auto simp: append_cursors_def)

lemma KG_initCursors_ok:
  assumes "wildcards_ok (wildcardEntries bi)" "k < length (kSizeContainers bi)"
    "container_ready (kSizeContainers bi ! k)"
    "answerable lib (ib_fieldsData bi) (kSizeContainers bi ! k) assigns"
  shows "\<exists>fcs. KG_initCursors lib bi assigns k = Inr fcs \<and> live_cursors fcs (kg_sets lib bi assigns k)"
  unfolding KG_initCursors_def kg_sets_def
  using assms wildcard_cursors_ok field_cursors_ok
  by (intro append_cursors_ok) (auto simp: getKSizeEntries_def wildcards_ok_def)

lemma KG_rounds_ok:
  assumes "wildcards_ok (wildcardEntries bi)" "n \<le> length (kSizeContainers bi)"
    "\<And>k. k < n \<Longrightarrow> container_ready (kSizeContainers bi ! k)"
    "\<And>k. k < n \<Longrightarrow> answerable lib (ib_fieldsData bi) (kSizeContainers bi ! k) assigns"
  shows "\<exists>col'. KG_rounds lib add bi assigns n col = Some (col', None) \<and>
    adds_exactly add col col' {c. \<exists>k<n. conj_matched (\<lambda>_. max k 1) (kg_sets lib bi assigns k) c}"
  using assms(2-4)
proof (induction n arbitrary: col)
  case 0
  then show ?case by (simp add: adds_exactly_empty)
next
  case (Suc n)
  have need: "nat (MaxInt (int n) 1) = max n 1" by (simp add: MaxInt_def)
  obtain fcs where fcs: "KG_initCursors lib bi assigns n = Inr fcs" "live_cursors fcs (kg_sets lib bi assigns n)"
    using KG_initCursors_ok [OF assms(1), of n lib assigns] Suc.prems by auto
  then have "\<forall>fc\<in>set fcs. fc_ok fc" by (simp add: live_cursors_def)
  then obtain col1 where col1: "retrieveK add fcs (max n 1) col = Some col1"
    "adds_exactly add col col1 {c. conj_matched (\<lambda>_. max n 1) (kg_sets lib bi assigns n) c}"
    using retrieveK_correct [of fcs "max n 1" add col] conj_matched_live [OF fcs(2)] by auto
  obtain col' where col': "KG_rounds lib add bi assigns n col1 = Some (col', None)"
    "adds_exactly add col1 col' {c. \<exists>k<n. conj_matched (\<lambda>_. max k 1) (kg_sets lib bi assigns k) c}"
    using Suc.IH [of col1] Suc.prems by auto
  have "{c. \<exists>k<Suc n. conj_matched (\<lambda>_. max k 1) (kg_sets lib bi assigns k) c} =
      {c. conj_matched (\<lambda>_. max n 1) (kg_sets lib bi assigns n) c} \<union>
      {c. \<exists>k<n. conj_matched (\<lambda>_. max k 1) (kg_sets lib bi assigns k) c}"
    by (auto simp: less_Suc_eq)
  then show ?case using fcs(1) col1(1) col'(1) adds_exactly_Un [OF col1(2) col'(2)] by (simp add: need)
qed

lemma Compact_initCursors_ok:
  assumes "wildcards_ok (wildcardEntries bi)" "container_ready (ci_container bi)"
    "answerable lib (ib_fieldsData bi) (ci_container bi) assigns"
  shows "\<exists>fcs. Compact_initCursors lib bi assigns = Inr fcs \<and> live_cursors fcs (compact_sets lib bi assigns)"
proof -
  have "\<exists>fcs. Compact_initCursors lib bi assigns = Inr fcs \<and>
      live_cursors fcs ([set (wildcardEntries bi)] @ map (field_posts lib (ib_fieldsData bi) (ci_container bi)) assigns)"
    unfolding Compact_initCursors_def
    using assms wildcard_cursors_ok field_cursors_ok by (intro append_cursors_ok) (auto simp: wildcards_ok_def)
  then show ?thesis by (simp add: compact_sets_def)
qed

lemma newRetrieveCtx_collector:
  "ctx_collector (newRetrieveCtx ass opts) = None \<longleftrightarrow> (\<forall>col. WithCollector col \<notin> set opts)"
proof -
  have "ctx_collector (foldl apply_opt ctx opts) = None \<longleftrightarrow>
      ctx_collector ctx = None \<and> (\<forall>col. WithCollector col \<notin> set opts)" for ctx :: "'a retrieveContext"
  proof (induction opts arbitrary: ctx)
    case (Cons opt opts)
    then show ?case by (cases opt) auto
  qed simp
  then show ?thesis by (simp add: newRetrieveCtx_def)
qed

lemma KG_Retrieve_ok:
  assumes "\<forall>col. WithCollector col \<notin> set opts" "Assignments_Size queries = Inr sz"
    and "wildcards_ok (wildcardEntries bi)" "\<forall>c\<in>set (kSizeContainers bi). container_ready c"
    and "\<forall>c\<in>set (kSizeContainers bi). answerable lib (ib_fieldsData bi) c queries"
  shows "\<exists>col'. KG_RetrieveWithCollector lib add bi queries col opts = Some (col', None) \<and>
    adds_exactly add col col'
      {c. \<exists>k<length (kSizeContainers bi). int k \<le> sz \<and> conj_matched (\<lambda>_. max k 1) (kg_sets lib bi queries k) c}"
proof -
  let ?n = "nat (MinInt sz (maxK bi) + 1)"
  have n: "?n \<le> length (kSizeContainers bi)" by (auto simp: MinInt_def maxK_def)
  obtain col' where "KG_rounds lib add bi queries ?n col = Some (col', None)"
    "adds_exactly add col col' {c. \<exists>k<?n. conj_matched (\<lambda>_. max k 1) (kg_sets lib bi queries k) c}"
    using KG_rounds_ok [OF assms(3) n, of lib queries add col] assms(4,5) n by fastforce
  moreover have "k < ?n \<longleftrightarrow> k < length (kSizeContainers bi) \<and> int k \<le> sz" for k
    by (auto simp: MinInt_def maxK_def)
  ultimately show ?thesis
    using assms(1,2) newRetrieveCtx_collector [of queries opts] by (simp add: KG_RetrieveWithCollector_def conj_assoc)
qed

lemma Compact_Retrieve_ok:
  assumes "\<forall>col. WithCollector col \<notin> set opts"
    and "wildcards_ok (wildcardEntries bi)" "container_ready (ci_container bi)"
    and "answerable lib (ib_fieldsData bi) (ci_container bi) queries"
  shows "\<exists>col'. Compact_RetrieveWithCollector lib add bi queries col opts = Some (col', None) \<and>
    adds_exactly add col col' {c. conj_matched compact_need (compact_sets lib bi queries) c}"
proof -
  obtain fcs where fcs: "Compact_initCursors lib bi queries = Inr fcs" "live_cursors fcs (compact_sets lib bi queries)"
    using Compact_initCursors_ok [OF assms(2-4)] by blast
  then have "\<forall>fc\<in>set fcs. fc_ok fc" "\<forall>fc\<in>set fcs. FC_GetCurEntryID fc \<noteq> NULLENTRY"
    by (auto simp: live_cursors_def FC_ReachEnd_def IsNULLEntry_def FC_GetCurEntryID_def)
  then obtain col' where "compact_loop add (FieldCursors_Sort fcs) col = Some col'"
    "adds_exactly add col col' {c. conj_matched compact_need (compact_sets lib bi queries) c}"
    using compact_loop_correct [of "FieldCursors_Sort fcs" add col] FieldCursors_Sort_sorted
    by (auto simp: conj_matched_Sort conj_matched_live [OF fcs(2)])
  then show ?thesis
    using assms(1) fcs(1) newRetrieveCtx_collector [of queries opts] by (simp add: Compact_RetrieveWithCollector_def)
qed

end
