(* ===== verification/IndexBuilder.thy ===== *)
theory IndexBuilder
  imports BEIndex
begin

text \<open>
  Model of \<^verbatim>\<open>index_builder.go\<close> and \<^verbatim>\<open>doc_idx_cache.go\<close>. An operation of the builder returns the
  builder it leaves behind together with its result, so that what it changed before an
  error stays visible. The document cache is the user's: its operations are a parameter.
\<close>

subsection \<open>The document cache\<close>

record DocCacheKey =
  dck_DocID :: DocID
  dck_Version :: nat

record IdxCacheEntry =
  ice_EID :: EntryID
  ice_DataBytes :: bytes

record FieldIndexes =
  fi_Field :: BEField
  fi_Entries :: "IdxCacheEntry list"

record ConjIdxCache =
  cic_ConjIdx :: int
  cic_ConjSize :: int
  cic_WildcardEID :: EntryID
  cic_FieldCacheIdx :: "FieldIndexes list"

record DocIdxCache =
  dic_DocID :: DocID
  dic_Version :: nat
  dic_SchemaHash :: u64
  dic_ConjIdxCaches :: "ConjIdxCache list"

definition NewDocCacheKey :: "DocID \<Rightarrow> nat \<Rightarrow> DocCacheKey" where
  "NewDocCacheKey docID version = \<lparr>dck_DocID = docID, dck_Version = version\<rparr>"

record 'c DocLevelCache =
  cache_Get :: "'c \<Rightarrow> DocCacheKey \<Rightarrow> DocIdxCache option \<times> 'c"
  cache_Set :: "'c \<Rightarrow> DocCacheKey \<Rightarrow> DocIdxCache \<Rightarrow> 'c"
  cache_Clear :: "'c \<Rightarrow> 'c"

text \<open>What the builder gets from outside: the registry of holders, the codecs and the cache.\<close>

record 'c env =
  env_factory :: HolderFactory
  env_lib :: codec
  env_cache :: "'c DocLevelCache"

subsection \<open>The builder\<close>

definition ErrorBadConj :: int where "ErrorBadConj = 0"
definition SkipBadConj :: int where "SkipBadConj = 1"
definition PanicBadConj :: int where "PanicBadConj = 2"
definition IndexerTypeDefault :: int where "IndexerTypeDefault = 0"
definition IndexerTypeCompact :: int where "IndexerTypeCompact = 1"

record 'c IndexerBuilder =
  indexerType :: int
  badConjBehavior :: int
  docLevelCache :: "'c option"
  indexer :: BEIndex
  fieldsData :: "(BEField \<times> FieldDesc) list"
  schemaHash :: u64

datatype 'c BuilderOpt = WithBadConjBehavior int | WithDocLevelCache 'c | WithIndexerType int

fun apply_builder_opt :: "'c IndexerBuilder \<Rightarrow> 'c BuilderOpt \<Rightarrow> 'c IndexerBuilder" where
  "apply_builder_opt b (WithBadConjBehavior v) = b\<lparr>badConjBehavior := v\<rparr>"
| "apply_builder_opt b (WithDocLevelCache c) = b\<lparr>docLevelCache := Some c\<rparr>"
| "apply_builder_opt b (WithIndexerType t) = b\<lparr>indexerType := t\<rparr>"

definition initIndexer :: "'c env \<Rightarrow> 'c IndexerBuilder \<Rightarrow> 'c IndexerBuilder res" where
  "initIndexer env b =
     (if indexerType b = IndexerTypeDefault then Inr (b\<lparr>indexer := NewKGroupsBEIndex\<rparr>)
      else if indexerType b = IndexerTypeCompact then Inr (b\<lparr>indexer := NewCompactedBEIndex (env_factory env)\<rparr>)
      else Inl (Panic ''type not supported''))"

definition NewIndexerBuilder :: "'c env \<Rightarrow> 'c BuilderOpt list \<Rightarrow> 'c IndexerBuilder res" where
  "NewIndexerBuilder env opts =
     initIndexer env (foldl apply_builder_opt
       \<lparr>indexerType = 0, badConjBehavior = 0, docLevelCache = None, indexer = NewKGroupsBEIndex,
        fieldsData = [], schemaHash = 0\<rparr> opts)"

definition NewCompactIndexerBuilder :: "'c env \<Rightarrow> 'c BuilderOpt list \<Rightarrow> 'c IndexerBuilder res" where
  "NewCompactIndexerBuilder env opts = NewIndexerBuilder env (opts @ [WithIndexerType IndexerTypeCompact])"

definition Builder_Reset :: "'c env \<Rightarrow> 'c IndexerBuilder \<Rightarrow> 'c IndexerBuilder res" where
  "Builder_Reset env b = initIndexer env b"

subsection \<open>Fields\<close>

text \<open>The 64-bit FNV-1a hash (\<^verbatim>\<open>hash/fnv\<close>).\<close>

definition fnv_write :: "u64 \<Rightarrow> string \<Rightarrow> u64" where
  "fnv_write h bs = foldl (\<lambda>h c. (h XOR of_char c) * 1099511628211) h bs"

definition updateSchemaHash :: "'c IndexerBuilder \<Rightarrow> 'c IndexerBuilder" where
  "updateSchemaHash b =
     b\<lparr>schemaHash :=
         foldl (\<lambda>h (field, desc). fnv_write (fnv_write h field) (Container desc))
           14695981039346656037 (fieldsData b)\<rparr>"

definition configureField ::
  "'c env \<Rightarrow> 'c IndexerBuilder \<Rightarrow> BEField \<Rightarrow> FieldOption \<Rightarrow> 'c IndexerBuilder \<times> FieldDesc res"
where
  "configureField env b field option =
     (if map_of (fieldsData b) field \<noteq> None then (b, Inl (Err ''can't configure field twice''))
      else let desc = \<lparr>Container = (if length (Container option) = 0 then HolderNameDefault else Container option),
                       fd_ID = length (fieldsData b), fd_Field = field\<rparr>;
               b1 = updateSchemaHash (b\<lparr>fieldsData := alist_put field desc (fieldsData b)\<rparr>);
               b2 = (case docLevelCache b1 of
                       None \<Rightarrow> b1
                     | Some c \<Rightarrow> b1\<lparr>docLevelCache := Some (cache_Clear (env_cache env) c)\<rparr>)
           in (b2, Inr desc))"

text \<open>\<^verbatim>\<open>util.PanicIfErr\<close>: an error becomes a panic.\<close>

fun PanicIfErr :: "'a res \<Rightarrow> 'a res" where
  "PanicIfErr (Inl (Err m)) = Inl (Panic m)"
| "PanicIfErr r = r"

definition ConfigField ::
  "'c env \<Rightarrow> 'c IndexerBuilder \<Rightarrow> BEField \<Rightarrow> FieldOption \<Rightarrow> 'c IndexerBuilder \<times> unit res"
where
  "ConfigField env b field settings =
     (case configureField env b field settings of (b', r) \<Rightarrow> (b', map_sum id (\<lambda>_. ()) (PanicIfErr r)))"

definition createFieldData :: "'c env \<Rightarrow> 'c IndexerBuilder \<Rightarrow> BEField \<Rightarrow> 'c IndexerBuilder \<times> FieldDesc res" where
  "createFieldData env b field =
     (case map_of (fieldsData b) field of
        Some desc \<Rightarrow> (b, Inr desc)
      | None \<Rightarrow>
          (case configureField env b field \<lparr>Container = HolderNameDefault\<rparr> of (b', r) \<Rightarrow> (b', PanicIfErr r)))"

subsection \<open>Holders by reference\<close>

fun deref :: "BEIndex \<Rightarrow> holder_ref \<Rightarrow> EntriesHolder option" where
  "deref index (RefDefault k) = defaultHolder (container_at index k)"
| "deref index (RefField k f) = map_of (fieldHolder (container_at index k)) f"

fun put_holder :: "BEIndex \<Rightarrow> holder_ref \<Rightarrow> EntriesHolder \<Rightarrow> BEIndex" where
  "put_holder index (RefDefault k) h =
     put_container index k ((container_at index k)\<lparr>defaultHolder := Some h\<rparr>)"
| "put_holder index (RefField k f) h =
     put_container index k ((container_at index k)\<lparr>fieldHolder := alist_put f h (fieldHolder (container_at index k))\<rparr>)"

subsection \<open>Preparing a conjunction\<close>

record ConjIndexingData =
  cd_idx :: int
  cd_incSize :: int
  cd_conjID :: ConjID
  cd_fieldData :: "FieldIndexingData list"

text \<open>One expression: the field's description, its holder in container \<open>k\<close>, and the data.\<close>

definition index_expr ::
  "'c env \<Rightarrow> nat \<Rightarrow> ConjID \<Rightarrow> BEField \<Rightarrow> BoolValues \<Rightarrow> 'c IndexerBuilder \<Rightarrow>
   'c IndexerBuilder \<times> FieldIndexingData res"
where
  "index_expr env k conjID field expr b =
     (case createFieldData env b field of
        (b1, Inl e) \<Rightarrow> (b1, Inl e)
      | (b1, Inr desc) \<Rightarrow>
          (case CreateHolder (env_factory env) k (container_at (indexer b1) k) desc of
             Inl e \<Rightarrow> (b1, Inl e)
           | Inr (c, ref) \<Rightarrow>
               (let b2 = b1\<lparr>indexer := put_container (indexer b1) k c\<rparr>
                in case deref (indexer b2) ref of
                     None \<Rightarrow> (b2, Inl (Panic ''nil pointer dereference: holder''))
                   | Some holder \<Rightarrow>
                       (b2, (case BuildFieldIndexingData (env_lib env) holder desc expr of
                               Inl (Err m) \<Rightarrow> Inl (Err (''indexing field fail:'' @ m))
                             | Inl (Panic m) \<Rightarrow> Inl (Panic m)
                             | Inr txData \<Rightarrow>
                                 Inr \<lparr>tx_field = desc, tx_holder = ref, tx_EID = NewEntryID conjID (Incl expr),
                                      tx_Data = Some txData\<rparr>)))))"

fun index_exprs ::
  "'c env \<Rightarrow> nat \<Rightarrow> ConjID \<Rightarrow> (BEField \<times> BoolValues) list \<Rightarrow> 'c IndexerBuilder \<Rightarrow>
   'c IndexerBuilder \<times> FieldIndexingData list res"
where
  "index_exprs env k conjID [] b = (b, Inr [])"
| "index_exprs env k conjID ((field, expr) # exprs) b =
     (case index_expr env k conjID field expr b of
        (b1, Inl e) \<Rightarrow> (b1, Inl e)
      | (b1, Inr tx) \<Rightarrow>
          (case index_exprs env k conjID exprs b1 of
             (b2, Inl e) \<Rightarrow> (b2, Inl e)
           | (b2, Inr txs) \<Rightarrow> (b2, Inr (tx # txs))))"

text \<open>The expressions of a conjunction in the order of the two nested loops.\<close>

definition flat_exprs :: "Conjunction \<Rightarrow> (BEField \<times> BoolValues) list" where
  "flat_exprs cj = concat (map (\<lambda>(field, exprs). map (Pair field) exprs) (Expressions cj))"

definition indexingConjunction ::
  "'c env \<Rightarrow> 'c IndexerBuilder \<Rightarrow> ConjID \<Rightarrow> Conjunction \<Rightarrow> 'c IndexerBuilder \<times> FieldIndexingData list res"
where
  "indexingConjunction env b conjID cj =
     (let k = nat (ConjID_Size conjID)
      in index_exprs env k conjID (flat_exprs cj)
           (b\<lparr>indexer := newContainer (env_factory env) (indexer b) k\<rparr>))"

subsection \<open>Committing\<close>

fun commit_txs :: "BEIndex \<Rightarrow> FieldIndexingData list \<Rightarrow> BEIndex \<times> unit res" where
  "commit_txs index [] = (index, Inr ())"
| "commit_txs index (tx # txs) =
     (case deref index (tx_holder tx) of
        None \<Rightarrow> (index, Inl (Panic ''nil pointer dereference: holder''))
      | Some holder \<Rightarrow>
          (case PanicIfErr (CommitFieldIndexingData holder tx) of
             Inl e \<Rightarrow> (index, Inl e)
           | Inr holder' \<Rightarrow> commit_txs (put_holder index (tx_holder tx) holder') txs))"

definition commitConjIndexingData :: "'c IndexerBuilder \<Rightarrow> ConjIndexingData \<Rightarrow> 'c IndexerBuilder \<times> unit res" where
  "commitConjIndexingData b cd =
     (let index = (if cd_incSize cd = 0 then addWildcardEID (indexer b) (NewEntryID (cd_conjID cd) True)
                   else indexer b)
      in case commit_txs index (cd_fieldData cd) of (index', r) \<Rightarrow> (b\<lparr>indexer := index'\<rparr>, r))"

subsection \<open>Cache entries\<close>

text \<open>
  The loop of \<open>toCacheResult\<close>: \<open>fieldTxMap\<close> groups the encoded data by field. Data that does
  not encode is logged and left out.
\<close>

fun group_txs ::
  "codec \<Rightarrow> FieldIndexingData list \<Rightarrow> (BEField \<times> IdxCacheEntry list) list \<Rightarrow>
   (BEField \<times> IdxCacheEntry list) list res"
where
  "group_txs lib [] m = Inr m"
| "group_txs lib (tx # txs) m =
     (let field = fd_Field (tx_field tx);
          m1 = alist_modify field (\<lambda>old. case old of None \<Rightarrow> [] | Some es \<Rightarrow> es) m
      in case tx_Data tx of
           None \<Rightarrow> Inl (Panic ''nil pointer dereference: tx.Data'')
         | Some d \<Rightarrow>
             (case IndexingData_Encode lib d of
                Inl (Panic e) \<Rightarrow> Inl (Panic e)
              | Inl (Err _) \<Rightarrow> group_txs lib txs m1
              | Inr data \<Rightarrow>
                  group_txs lib txs
                    (alist_modify field
                       (\<lambda>old. (case old of None \<Rightarrow> [] | Some es \<Rightarrow> es) @ [\<lparr>ice_EID = tx_EID tx, ice_DataBytes = data\<rparr>])
                       m1)))"

definition toCacheResult :: "codec \<Rightarrow> ConjIndexingData \<Rightarrow> ConjIdxCache res" where
  "toCacheResult lib cd =
     (case group_txs lib (cd_fieldData cd) [] of
        Inl e \<Rightarrow> Inl e
      | Inr m \<Rightarrow>
          Inr \<lparr>cic_ConjIdx = cd_idx cd, cic_ConjSize = cd_incSize cd,
               cic_WildcardEID = (if cd_incSize cd = 0 then NewEntryID (cd_conjID cd) True else 0),
               cic_FieldCacheIdx =
                 map (\<lambda>(f, es). \<lparr>fi_Field = f, fi_Entries = es\<rparr>) (filter (\<lambda>(f, es). length es > 0) m)\<rparr>)"

fun decode_entries ::
  "codec \<Rightarrow> EntriesHolder \<Rightarrow> FieldDesc \<Rightarrow> holder_ref \<Rightarrow> IdxCacheEntry list \<Rightarrow> FieldIndexingData list res"
where
  "decode_entries lib holder desc ref [] = Inr []"
| "decode_entries lib holder desc ref (txCache # es) =
     (case DecodeFieldIndexingData lib holder (ice_DataBytes txCache) of
        Inl (Err m) \<Rightarrow> Inl (Err (''decode tx data failed: '' @ m))
      | Inl (Panic m) \<Rightarrow> Inl (Panic m)
      | Inr txData \<Rightarrow>
          (case decode_entries lib holder desc ref es of
             Inl e \<Rightarrow> Inl e
           | Inr txs \<Rightarrow>
               Inr (\<lparr>tx_field = desc, tx_holder = ref, tx_EID = ice_EID txCache, tx_Data = Some txData\<rparr> # txs)))"

fun decode_fields ::
  "'c env \<Rightarrow> nat \<Rightarrow> FieldIndexes list \<Rightarrow> 'c IndexerBuilder \<Rightarrow> 'c IndexerBuilder \<times> FieldIndexingData list res"
where
  "decode_fields env k [] b = (b, Inr [])"
| "decode_fields env k (fieldTx # fs) b =
     (case map_of (fieldsData b) (fi_Field fieldTx) of
        None \<Rightarrow> (b, Inl (Err ''field not configured''))
      | Some desc \<Rightarrow>
          (case CreateHolder (env_factory env) k (container_at (indexer b) k) desc of
             Inl e \<Rightarrow> (b, Inl e)
           | Inr (c, ref) \<Rightarrow>
               (let b1 = b\<lparr>indexer := put_container (indexer b) k c\<rparr>
                in case deref (indexer b1) ref of
                     None \<Rightarrow> (b1, Inl (Panic ''nil pointer dereference: holder''))
                   | Some holder \<Rightarrow>
                       (case decode_entries (env_lib env) holder desc ref (fi_Entries fieldTx) of
                          Inl e \<Rightarrow> (b1, Inl e)
                        | Inr txs \<Rightarrow>
                            (case decode_fields env k fs b1 of
                               (b2, Inl e) \<Rightarrow> (b2, Inl e)
                             | (b2, Inr txs') \<Rightarrow> (b2, Inr (txs @ txs')))))))"

definition toConjIndexingData ::
  "'c env \<Rightarrow> 'c IndexerBuilder \<Rightarrow> DocID \<Rightarrow> ConjIdxCache \<Rightarrow> 'c IndexerBuilder \<times> ConjIndexingData res"
where
  "toConjIndexingData env b docID cr =
     (case NewConjID docID (cic_ConjIdx cr) (cic_ConjSize cr) of
        Inl e \<Rightarrow> (b, Inl e)
      | Inr conjID \<Rightarrow>
          (let k = nat (cic_ConjSize cr);
               b1 = b\<lparr>indexer := newContainer (env_factory env) (indexer b) k\<rparr>
           in case decode_fields env k (cic_FieldCacheIdx cr) b1 of
                (b2, Inl e) \<Rightarrow> (b2, Inl e)
              | (b2, Inr txs) \<Rightarrow>
                  (b2, Inr \<lparr>cd_idx = cic_ConjIdx cr, cd_incSize = cic_ConjSize cr, cd_conjID = conjID,
                           cd_fieldData = txs\<rparr>)))"

fun add_cached_conjs :: "'c env \<Rightarrow> DocID \<Rightarrow> ConjIdxCache list \<Rightarrow> 'c IndexerBuilder \<Rightarrow> 'c IndexerBuilder \<times> unit res" where
  "add_cached_conjs env docID [] b = (b, Inr ())"
| "add_cached_conjs env docID (cr # crs) b =
     (case toConjIndexingData env b docID cr of
        (b1, Inl e) \<Rightarrow> (b1, Inl e)
      | (b1, Inr cd) \<Rightarrow>
          (case commitConjIndexingData b1 cd of
             (b2, Inl e) \<Rightarrow> (b2, Inl e)
           | (b2, Inr _) \<Rightarrow> add_cached_conjs env docID crs b2))"

definition AddDocIndexingData :: "'c env \<Rightarrow> 'c IndexerBuilder \<Rightarrow> DocIdxCache \<Rightarrow> 'c IndexerBuilder \<times> unit res" where
  "AddDocIndexingData env b cached = add_cached_conjs env (dic_DocID cached) (dic_ConjIdxCaches cached) b"

subsection \<open>Documents\<close>

text \<open>Phase 1: prepare the conjunctions from index \<open>idx\<close> on; nothing is committed.\<close>

fun prepare_conjs ::
  "'c env \<Rightarrow> DocID \<Rightarrow> int \<Rightarrow> Conjunction list \<Rightarrow> 'c IndexerBuilder \<Rightarrow> 'c IndexerBuilder \<times> ConjIndexingData list res"
where
  "prepare_conjs env docID idx [] b = (b, Inr [])"
| "prepare_conjs env docID idx (cj # cjs) b =
     (let incSize = CalcConjSize cj
      in case NewConjID docID idx incSize of
           Inl e \<Rightarrow> (b, Inl e)
         | Inr conjID \<Rightarrow>
             (case indexingConjunction env b conjID cj of
                (b1, Inl (Panic m)) \<Rightarrow> (b1, Inl (Panic m))
              | (b1, Inl (Err m)) \<Rightarrow>
                  (if badConjBehavior b1 = SkipBadConj then prepare_conjs env docID (idx + 1) cjs b1
                   else if badConjBehavior b1 = ErrorBadConj then (b1, Inl (Err (''indexing conj fail:'' @ m)))
                   else (b1, Inl (Panic (''indexing conj fail:'' @ m))))
              | (b1, Inr txs) \<Rightarrow>
                  (case prepare_conjs env docID (idx + 1) cjs b1 of
                     (b2, Inl e) \<Rightarrow> (b2, Inl e)
                   | (b2, Inr cds) \<Rightarrow>
                       (b2, Inr (\<lparr>cd_idx = idx, cd_incSize = incSize, cd_conjID = conjID, cd_fieldData = txs\<rparr> # cds)))))"

text \<open>Phase 2: commit, and capture the cache entry when there is one to write.\<close>

fun commit_conjs ::
  "'c env \<Rightarrow> bool \<Rightarrow> ConjIndexingData list \<Rightarrow> 'c IndexerBuilder \<Rightarrow> 'c IndexerBuilder \<times> ConjIdxCache list res"
where
  "commit_conjs env caching [] b = (b, Inr [])"
| "commit_conjs env caching (cd # cds) b =
     (case commitConjIndexingData b cd of
        (b1, Inl e) \<Rightarrow> (b1, Inl e)
      | (b1, Inr _) \<Rightarrow>
          (case (if caching then map_sum id (\<lambda>x. [x]) (toCacheResult (env_lib env) cd) else Inr []) of
             Inl e \<Rightarrow> (b1, Inl e)
           | Inr x \<Rightarrow>
               (case commit_conjs env caching cds b1 of
                  (b2, Inl e) \<Rightarrow> (b2, Inl e)
                | (b2, Inr xs) \<Rightarrow> (b2, Inr (x @ xs)))))"

text \<open>Both phases, after the cache was asked; \<open>hash\<close> is the schema hash at that moment.\<close>

definition build_fresh :: "'c env \<Rightarrow> 'c IndexerBuilder \<Rightarrow> Document \<Rightarrow> 'c IndexerBuilder \<times> unit res" where
  "build_fresh env b doc =
     (let caching = (docLevelCache b \<noteq> None \<and> Version doc > 0)
      in case prepare_conjs env (ID doc) 0 (doc_Cons doc) b of
           (b1, Inl e) \<Rightarrow> (b1, Inl e)
         | (b1, Inr cds) \<Rightarrow>
             (case commit_conjs env caching cds b1 of
                (b2, Inl e) \<Rightarrow> (b2, Inl e)
              | (b2, Inr crs) \<Rightarrow>
                  (case docLevelCache b2 of
                     Some c \<Rightarrow>
                       (if caching \<and> length crs > 0
                        then (b2\<lparr>docLevelCache := Some (cache_Set (env_cache env) c (NewDocCacheKey (ID doc) (Version doc))
                                \<lparr>dic_DocID = ID doc, dic_Version = Version doc, dic_SchemaHash = schemaHash b,
                                 dic_ConjIdxCaches = crs\<rparr>)\<rparr>, Inr ())
                        else (b2, Inr ()))
                   | None \<Rightarrow> (b2, Inr ()))))"

definition buildDocEntries :: "'c env \<Rightarrow> 'c IndexerBuilder \<Rightarrow> Document \<Rightarrow> 'c IndexerBuilder \<times> unit res" where
  "buildDocEntries env b doc =
     (if length (doc_Cons doc) = 0 then (b, Inl (Panic ''no conjunctions in this document''))
      else if length (doc_Cons doc) > 0xFF then (b, Inl (Panic ''number of conjunction need less than 256''))
      else (case docLevelCache b of
              None \<Rightarrow> build_fresh env b doc
            | Some c \<Rightarrow>
                (if Version doc > 0
                 then (case cache_Get (env_cache env) c (NewDocCacheKey (ID doc) (Version doc)) of
                         (hit, c') \<Rightarrow>
                           (let b1 = b\<lparr>docLevelCache := Some c'\<rparr>
                            in case hit of
                                 Some cached \<Rightarrow>
                                   (if dic_SchemaHash cached = schemaHash b1 then AddDocIndexingData env b1 cached
                                    else build_fresh env b1 doc)
                               | None \<Rightarrow> build_fresh env b1 doc))
                 else build_fresh env b doc)))"

definition validDocument :: "Document \<Rightarrow> unit res" where
  "validDocument doc =
     (if length (doc_Cons doc) = 0 then Inl (Err ''no conjunctions in this document'')
      else if length (doc_Cons doc) > 0xFF then Inl (Err ''number of conjunction need less than 256'')
      else Inr ())"

text \<open>A nil document pointer is \<open>None\<close>.\<close>

fun AddDocument :: "'c env \<Rightarrow> 'c IndexerBuilder \<Rightarrow> Document option list \<Rightarrow> 'c IndexerBuilder \<times> unit res" where
  "AddDocument env b [] = (b, Inr ())"
| "AddDocument env b (None # docs) = (b, Inl (Panic ''nil document not be allowed''))"
| "AddDocument env b (Some doc # docs) =
     (case validDocument doc of
        Inl e \<Rightarrow> (b, Inl e)
      | Inr _ \<Rightarrow>
          (case buildDocEntries env b doc of
             (b1, Inl e) \<Rightarrow> (b1, Inl e)
           | (b1, Inr _) \<Rightarrow> AddDocument env b1 docs))"

definition BuildIndex :: "'c IndexerBuilder \<Rightarrow> 'c IndexerBuilder \<times> BEIndex res" where
  "BuildIndex b =
     (let index = setFieldDesc (indexer b) (fieldsData b)
      in case PanicIfErr (compileIndexer index) of
           Inl e \<Rightarrow> (b\<lparr>indexer := index\<rparr>, Inl e)
         | Inr index' \<Rightarrow> (b\<lparr>indexer := index'\<rparr>, Inr index'))"

end
