(* ===== verification/IndexState.thy ===== *)
theory IndexState
  imports IndexBuilder
begin

text \<open>
  The index as a store of holders. A reference names a holder by its container and field;
  the lemmas give the store laws of \<open>deref\<close> and \<open>put_holder\<close>, and the invariant \<open>index_inv\<close>
  says that every holder holds exactly the committed transactions that refer to it. The
  invariant is kept when containers and holders are made and when data is committed.
\<close>

subsection \<open>References\<close>

fun is_KGroups :: "BEIndex \<Rightarrow> bool" where
  "is_KGroups (KGroups bi) = True"
| "is_KGroups (Compact bi) = False"

text \<open>In the compact index the container number of a reference is irrelevant.\<close>

fun norm_ref :: "bool \<Rightarrow> holder_ref \<Rightarrow> holder_ref" where
  "norm_ref kg (RefDefault k) = RefDefault (if kg then k else 0)"
| "norm_ref kg (RefField k f) = RefField (if kg then k else 0) f"

fun ref_container :: "holder_ref \<Rightarrow> nat" where
  "ref_container (RefDefault k) = k"
| "ref_container (RefField k f) = k"

abbreviation same_holder :: "BEIndex \<Rightarrow> holder_ref \<Rightarrow> holder_ref \<Rightarrow> bool" where
  "same_holder index r s \<equiv> norm_ref (is_KGroups index) r = norm_ref (is_KGroups index) s"

fun has_container :: "BEIndex \<Rightarrow> nat \<Rightarrow> bool" where
  "has_container (KGroups bi) k \<longleftrightarrow> k < length (kSizeContainers bi)"
| "has_container (Compact bi) k \<longleftrightarrow> True"

fun index_wildcards :: "BEIndex \<Rightarrow> Entries" where
  "index_wildcards (KGroups bi) = wildcardEntries bi"
| "index_wildcards (Compact bi) = wildcardEntries bi"

definition ref_for :: "nat \<Rightarrow> FieldDesc \<Rightarrow> holder_ref" where
  "ref_for k desc = (if Container desc = HolderNameDefault then RefDefault k else RefField k (fd_Field desc))"

lemma ref_container_ref_for [simp]: "ref_container (ref_for k desc) = k"
  by (simp add: ref_for_def)

lemma deref_ref_for: "deref index (ref_for k desc) = getFieldHolder (container_at index k) desc"
  by (simp add: ref_for_def getFieldHolder_def)

lemma container_at_put:
  "has_container index k \<Longrightarrow>
   container_at (put_container index k c) j =
     (if is_KGroups index \<and> j \<noteq> k then container_at index j else c)"
  by (cases index) auto

lemma put_container_sel [simp]:
  "is_KGroups (put_container index k c) = is_KGroups index"
  "has_container (put_container index k c) = has_container index"
  "index_wildcards (put_container index k c) = index_wildcards index"
  by (cases index; simp add: fun_eq_iff)+

lemma put_holder_sel [simp]:
  "is_KGroups (put_holder index r h) = is_KGroups index"
  "has_container (put_holder index r h) = has_container index"
  "index_wildcards (put_holder index r h) = index_wildcards index"
  by (cases r; simp)+

lemma addWildcardEID_sel [simp]:
  "is_KGroups (addWildcardEID index e) = is_KGroups index"
  "has_container (addWildcardEID index e) = has_container index"
  "container_at (addWildcardEID index e) = container_at index"
  "index_wildcards (addWildcardEID index e) = index_wildcards index @ [e]"
  by (cases index; simp add: fun_eq_iff)+

lemma deref_addWildcardEID [simp]: "deref (addWildcardEID index e) r = deref index r"
  by (cases r) simp_all

lemma deref_put_holder:
  assumes "has_container index (ref_container r)"
  shows "deref (put_holder index r h) s = (if same_holder index s r then Some h else deref index s)"
  using assms by (cases index; cases r; cases s) (auto simp: nth_list_update)

lemma put_holder_distinct:
  assumes "has_container index (ref_container r)" "distinct (map fst (fieldHolder (container_at index k)))"
  shows "distinct (map fst (fieldHolder (container_at (put_holder index r h) k)))"
  using assms by (cases index; cases r) (auto simp: nth_list_update)

lemma deref_cong: "same_holder index r s \<Longrightarrow> deref index r = deref index s"
  by (cases index; cases r; cases s) auto

lemma has_container_cong: "same_holder index r s \<Longrightarrow>
    has_container index (ref_container r) = has_container index (ref_container s)"
  by (cases index; cases r; cases s) auto

subsection \<open>Making containers and holders\<close>

lemma grow_containers_eq:
  "grow_containers factory k cs = cs @ replicate (Suc k - length cs) (newFieldEntriesContainer factory)"
proof (induction factory k cs rule: grow_containers.induct)
  case (1 factory k cs)
  show ?case
  proof (cases "k \<ge> length cs")
    case True
    then have "Suc k - length cs = Suc (Suc k - length (cs @ [newFieldEntriesContainer factory]))" by simp
    then show ?thesis using 1 True by (subst grow_containers.simps) (simp add: replicate_app_Cons_same)
  qed (simp add: grow_containers.simps)
qed

lemma newContainer_sel [simp]:
  "is_KGroups (newContainer factory index k) = is_KGroups index"
  "index_wildcards (newContainer factory index k) = index_wildcards index"
  by (cases index; simp)+

lemma has_container_new:
  "has_container (newContainer factory index k) j \<longleftrightarrow> has_container index j \<or> (is_KGroups index \<and> j \<le> k)"
  by (cases index) (auto simp: grow_containers_eq)

lemma has_container_newI [simp]: "has_container (newContainer factory index k) k"
  by (cases index) (auto simp: grow_containers_eq)

lemma container_at_new:
  assumes "has_container (newContainer factory index k) j"
  shows "container_at (newContainer factory index k) j =
    (if has_container index j then container_at index j else newFieldEntriesContainer factory)"
  using assms by (cases index) (auto simp: grow_containers_eq nth_append)

lemma deref_newContainer:
  assumes "has_container (newContainer factory index k) (ref_container r)"
  shows "deref (newContainer factory index k) r =
    (if has_container index (ref_container r) then deref index r
     else case r of RefDefault _ \<Rightarrow> NewEntriesHolder factory HolderNameDefault | RefField _ _ \<Rightarrow> None)"
  using assms by (cases r) (auto simp: container_at_new newFieldEntriesContainer_def)

lemma CreateHolder_cases:
  assumes "CreateHolder factory k c desc = Inr (c', ref)"
  obtains (old) h where "getFieldHolder c desc = Some h" "c' = c" "ref = ref_for k desc"
  | (new) h where "getFieldHolder c desc = None" "NewEntriesHolder factory (Container desc) = Some h"
      "c' = c\<lparr>fieldHolder := alist_put (fd_Field desc) h (fieldHolder c)\<rparr>" "ref = RefField k (fd_Field desc)"
  using assms
  by (auto simp: CreateHolder_def GetHolder_def getFieldHolder_def ref_for_def split: option.splits if_splits)

text \<open>
  With a default holder in every container, \<open>CreateHolder\<close> puts a new holder under the
  reference of the description, or changes nothing.
\<close>

lemma CreateHolder_put:
  assumes "CreateHolder factory k (container_at index k) desc = Inr (c', ref)"
    and "defaultHolder (container_at index k) \<noteq> None"
  shows "ref = ref_for k desc"
    and "(put_container index k c' = index \<and> deref index ref \<noteq> None) \<or>
      (\<exists>h. deref index ref = None \<and> Container desc \<noteq> HolderNameDefault \<and>
         NewEntriesHolder factory (Container desc) = Some h \<and> put_container index k c' = put_holder index ref h)"
proof -
  have self: "put_container index k (container_at index k) = index" by (cases index) auto
  from assms(1) have "ref = ref_for k desc \<and> ((put_container index k c' = index \<and> deref index ref \<noteq> None) \<or>
      (\<exists>h. deref index ref = None \<and> Container desc \<noteq> HolderNameDefault \<and>
         NewEntriesHolder factory (Container desc) = Some h \<and> put_container index k c' = put_holder index ref h))"
  proof (cases rule: CreateHolder_cases)
    case (old h)
    then show ?thesis by (simp add: deref_ref_for self)
  next
    case (new h)
    then have "Container desc \<noteq> HolderNameDefault" using assms(2) by (auto simp: getFieldHolder_def)
    then show ?thesis using new by (simp add: ref_for_def getFieldHolder_def)
  qed
  then show "ref = ref_for k desc"
    "(put_container index k c' = index \<and> deref index ref \<noteq> None) \<or>
      (\<exists>h. deref index ref = None \<and> Container desc \<noteq> HolderNameDefault \<and>
         NewEntriesHolder factory (Container desc) = Some h \<and> put_container index k c' = put_holder index ref h)"
    by auto
qed

subsection \<open>The invariant\<close>

text \<open>
  \<open>txs\<close> is the set of committed transactions. Every holder of the index comes from the
  registry, is still being built, and shows for every query the transactions that refer
  to it and that the query hits.
\<close>

definition holder_log :: "codec \<Rightarrow> EntriesHolder \<Rightarrow> FieldIndexingData set \<Rightarrow> bool" where
  "holder_log lib h txs \<longleftrightarrow>
     (\<forall>fd v. eh_posted lib h fd v = {tx_EID tx |tx. tx \<in> txs \<and> tx_hits (eh_slot h) (eh_hits lib h) fd tx v})"

definition holder_origin :: "HolderFactory \<Rightarrow> (BEField \<times> FieldDesc) list \<Rightarrow> holder_ref \<Rightarrow> EntriesHolder \<Rightarrow> bool" where
  "holder_origin factory flds r h =
     (case r of
        RefDefault _ \<Rightarrow> NewEntriesHolder factory HolderNameDefault = Some (eh_blank h)
      | RefField _ f \<Rightarrow>
          (\<exists>desc. map_of flds f = Some desc \<and> Container desc \<noteq> HolderNameDefault \<and>
             NewEntriesHolder factory (Container desc) = Some (eh_blank h)))"

definition tx_wf :: "(BEField \<times> FieldDesc) list \<Rightarrow> BEIndex \<Rightarrow> FieldIndexingData \<Rightarrow> bool" where
  "tx_wf flds index tx \<longleftrightarrow>
     map_of flds (fd_Field (tx_field tx)) = Some (tx_field tx) \<and>
     tx_holder tx = ref_for (ref_container (tx_holder tx)) (tx_field tx) \<and>
     has_container index (ref_container (tx_holder tx)) \<and>
     (\<exists>h. deref index (tx_holder tx) = Some h \<and> tx_ok (eh_takes h) tx)"

definition index_inv ::
  "codec \<Rightarrow> HolderFactory \<Rightarrow> (BEField \<times> FieldDesc) list \<Rightarrow> BEIndex \<Rightarrow> FieldIndexingData set \<Rightarrow> bool"
where
  "index_inv lib factory flds index txs \<longleftrightarrow>
     (\<forall>tx\<in>txs. tx_wf flds index tx) \<and>
     (\<forall>k. has_container index k \<longrightarrow>
        defaultHolder (container_at index k) \<noteq> None \<and> distinct (map fst (fieldHolder (container_at index k)))) \<and>
     (\<forall>r h. has_container index (ref_container r) \<longrightarrow> deref index r = Some h \<longrightarrow>
        eh_building h \<and> holder_origin factory flds r h \<and>
        holder_log lib h {tx\<in>txs. same_holder index (tx_holder tx) r})"

lemma index_invD:
  assumes "index_inv lib factory flds index txs" "has_container index (ref_container r)" "deref index r = Some h"
  shows "eh_building h" "holder_origin factory flds r h"
    "holder_log lib h {tx\<in>txs. same_holder index (tx_holder tx) r}"
  using assms by (auto simp: index_inv_def)

lemma map_leD: "m \<subseteq>\<^sub>m m' \<Longrightarrow> m k = Some v \<Longrightarrow> m' k = Some v"
  by (metis domI map_le_def)

text \<open>Between two states of an index, holders stay and keep their configuration.\<close>

definition index_le :: "BEIndex \<Rightarrow> BEIndex \<Rightarrow> bool" where
  "index_le index index' \<longleftrightarrow> is_KGroups index' = is_KGroups index \<and>
     (\<forall>k. has_container index k \<longrightarrow> has_container index' k) \<and>
     (\<forall>r h. has_container index (ref_container r) \<longrightarrow> deref index r = Some h \<longrightarrow>
        (\<exists>h'. deref index' r = Some h' \<and> eh_blank h' = eh_blank h))"

lemma index_le_refl [simp]: "index_le index index"
  by (simp add: index_le_def)

lemma index_leD:
  assumes "index_le index index'" "has_container index (ref_container r)" "deref index r = Some h"
  obtains h' where "deref index' r = Some h'" "eh_blank h' = eh_blank h"
  using assms unfolding index_le_def by blast

lemma index_le_trans:
  assumes le: "index_le i1 i2" "index_le i2 i3"
  shows "index_le i1 i3"
  unfolding index_le_def
proof (intro conjI allI impI)
  show "is_KGroups i3 = is_KGroups i1" using le by (simp add: index_le_def)
  show "has_container i3 k" if "has_container i1 k" for k using le that by (simp add: index_le_def)
  fix r h assume r: "has_container i1 (ref_container r)" "deref i1 r = Some h"
  then have c: "has_container i2 (ref_container r)" using le(1) by (simp add: index_le_def)
  obtain h2 where h2: "deref i2 r = Some h2" "eh_blank h2 = eh_blank h" using index_leD [OF le(1) r] .
  obtain h3 where "deref i3 r = Some h3" "eh_blank h3 = eh_blank h2" using index_leD [OF le(2) c h2(1)] .
  then show "\<exists>h3. deref i3 r = Some h3 \<and> eh_blank h3 = eh_blank h" using h2 by simp
qed

lemma tx_wf_mono:
  assumes "tx_wf flds index tx" "map_of flds \<subseteq>\<^sub>m map_of flds'" "index_le index index'"
  shows "tx_wf flds' index' tx"
proof -
  obtain h where h: "deref index (tx_holder tx) = Some h" "tx_ok (eh_takes h) tx"
    and c: "has_container index (ref_container (tx_holder tx))"
    and f: "map_of flds (fd_Field (tx_field tx)) = Some (tx_field tx)"
    and r: "tx_holder tx = ref_for (ref_container (tx_holder tx)) (tx_field tx)"
    using assms(1) by (auto simp: tx_wf_def)
  obtain h' where h': "has_container index' (ref_container (tx_holder tx))" "deref index' (tx_holder tx) = Some h'"
    "eh_blank h' = eh_blank h" using assms(3) c index_leD [OF assms(3) c h(1)] by (metis index_le_def)
  have "eh_takes h' = eh_takes h" using h'(3) eh.same_blank(3) by blast
  moreover have "map_of flds' (fd_Field (tx_field tx)) = Some (tx_field tx)"
    using map_leD [OF assms(2) f] .
  ultimately show ?thesis using h h' r by (auto simp: tx_wf_def)
qed

lemma holder_origin_mono:
  assumes "holder_origin factory flds r h" "map_of flds \<subseteq>\<^sub>m map_of flds'"
  shows "holder_origin factory flds' r h"
proof (cases r)
  case (RefField k f)
  then show ?thesis using assms(1) map_leD [OF assms(2)] by (auto simp: holder_origin_def)
qed (use assms in \<open>simp add: holder_origin_def\<close>)

lemma index_inv_fields:
  assumes "index_inv lib factory flds index txs" "map_of flds \<subseteq>\<^sub>m map_of flds'"
  shows "index_inv lib factory flds' index txs"
  unfolding index_inv_def
proof (intro conjI ballI allI impI)
  fix tx assume "tx \<in> txs"
  then have "tx_wf flds index tx" using assms(1) by (simp add: index_inv_def)
  then show "tx_wf flds' index tx" by (rule tx_wf_mono [OF _ assms(2) index_le_refl])
next
  fix k assume "has_container index k"
  then show "defaultHolder (container_at index k) \<noteq> None" "distinct (map fst (fieldHolder (container_at index k)))"
    using assms(1) by (simp_all add: index_inv_def)
next
  fix r h assume r: "has_container index (ref_container r)" "deref index r = Some h"
  note I = index_invD [OF assms(1) r]
  show "eh_building h" "holder_log lib h {tx\<in>txs. same_holder index (tx_holder tx) r}" using I by simp_all
  show "holder_origin factory flds' r h" using I(2) assms(2) by (rule holder_origin_mono)
qed

lemma index_inv_addWildcardEID:
  "index_inv lib factory flds index txs \<Longrightarrow> index_inv lib factory flds (addWildcardEID index e) txs"
  by (simp add: index_inv_def tx_wf_def)

lemma fresh_holder_log:
  assumes "fresh h"
  shows "eh_building h" "eh_blank h = h" "holder_log lib h {}"
proof -
  show "eh_building h" and b: "eh_blank h = h" using assms by (auto simp: fresh_def)
  show "holder_log lib h {}" using eh.posted_blank [of lib h] by (simp add: holder_log_def b)
qed

lemma index_le_newContainer: "index_le index (newContainer factory index k)"
  by (simp add: index_le_def has_container_new deref_newContainer)

lemma index_inv_newContainer:
  assumes "index_inv lib factory flds index txs" "factory_ok factory"
  shows "index_inv lib factory flds (newContainer factory index k) txs"
  unfolding index_inv_def
proof (intro conjI ballI allI impI)
  let ?i = "newContainer factory index k"
  fix tx assume "tx \<in> txs"
  then have "tx_wf flds index tx" using assms(1) by (simp add: index_inv_def)
  then show "tx_wf flds ?i tx" by (rule tx_wf_mono [OF _ map_le_refl index_le_newContainer])
next
  let ?i = "newContainer factory index k"
  fix j assume "has_container ?i j"
  then show "defaultHolder (container_at ?i j) \<noteq> None" "distinct (map fst (fieldHolder (container_at ?i j)))"
    using assms by (auto simp: container_at_new index_inv_def newFieldEntriesContainer_def factory_ok_def)
next
  let ?i = "newContainer factory index k"
  fix r h assume r: "has_container ?i (ref_container r)" "deref ?i r = Some h"
  have "eh_building h \<and> holder_origin factory flds r h \<and> holder_log lib h {tx\<in>txs. same_holder ?i (tx_holder tx) r}"
  proof (cases "has_container index (ref_container r)")
    case True
    then show ?thesis using r assms(1) by (simp add: deref_newContainer index_inv_def)
  next
    case False
    then obtain j where j: "r = RefDefault j" "NewEntriesHolder factory HolderNameDefault = Some h"
      using r by (auto simp: deref_newContainer split: holder_ref.splits)
    have fr: "fresh h" using assms(2) j(2) by (auto simp: factory_ok_def)
    have "\<not> same_holder ?i (tx_holder tx) r" if "tx \<in> txs" for tx
    proof -
      have "has_container index (ref_container (tx_holder tx))"
        using assms(1) that by (auto simp: index_inv_def tx_wf_def)
      then show ?thesis using False has_container_cong [of index "tx_holder tx" r] by auto
    qed
    then have e: "{tx\<in>txs. same_holder ?i (tx_holder tx) r} = {}" by blast
    show ?thesis unfolding e using j by (simp add: fresh_holder_log [OF fr] holder_origin_def)
  qed
  then show "eh_building h" "holder_origin factory flds r h"
    "holder_log lib h {tx\<in>txs. same_holder ?i (tx_holder tx) r}" by simp_all
qed

subsection \<open>Replacing a holder\<close>

lemma holder_origin_cong:
  "same_holder index r s \<Longrightarrow> holder_origin factory flds r h = holder_origin factory flds s h"
  by (cases r; cases s) (auto simp: holder_origin_def)

lemma index_le_put:
  assumes "has_container index (ref_container r)" "\<And>h. deref index r = Some h \<Longrightarrow> eh_blank h' = eh_blank h"
  shows "index_le index (put_holder index r h')"
  unfolding index_le_def
proof (intro conjI allI impI)
  fix s h assume s: "deref index s = Some h"
  show "\<exists>g. deref (put_holder index r h') s = Some g \<and> eh_blank g = eh_blank h"
  proof (cases "same_holder index s r")
    case True
    then show ?thesis using assms(2) deref_cong [OF True] s by (simp add: deref_put_holder [OF assms(1)])
  qed (simp add: deref_put_holder [OF assms(1)] s)
qed simp_all

lemma index_inv_put:
  assumes inv: "index_inv lib factory flds index txs"
    and c: "has_container index (ref_container r)"
    and b: "\<And>h. deref index r = Some h \<Longrightarrow> eh_blank h' = eh_blank h"
    and h': "eh_building h'" "holder_origin factory flds r h'"
      "holder_log lib h' {tx\<in>txs \<union> N. same_holder index (tx_holder tx) r}"
    and N: "\<And>tx. tx \<in> N \<Longrightarrow> tx_wf flds (put_holder index r h') tx \<and> same_holder index (tx_holder tx) r"
  shows "index_inv lib factory flds (put_holder index r h') (txs \<union> N)"
  unfolding index_inv_def
proof (intro conjI ballI allI impI)
  fix tx assume "tx \<in> txs \<union> N"
  then show "tx_wf flds (put_holder index r h') tx"
  proof
    assume "tx \<in> txs"
    then have "tx_wf flds index tx" using inv by (simp add: index_inv_def)
    then show ?thesis by (rule tx_wf_mono [OF _ map_le_refl index_le_put [OF c b]])
  qed (simp add: N)
next
  fix k assume k: "has_container (put_holder index r h') k"
  then have "distinct (map fst (fieldHolder (container_at index k)))" using inv by (simp add: index_inv_def)
  then show "distinct (map fst (fieldHolder (container_at (put_holder index r h') k)))"
    using put_holder_distinct [OF c] by blast
  have "deref index (RefDefault k) \<noteq> None" using inv k by (simp add: index_inv_def)
  then have "deref (put_holder index r h') (RefDefault k) \<noteq> None"
    by (simp only: deref_put_holder [OF c]) simp
  then show "defaultHolder (container_at (put_holder index r h') k) \<noteq> None" by simp
next
  fix s h assume s: "has_container (put_holder index r h') (ref_container s)" "deref (put_holder index r h') s = Some h"
  have "eh_building h \<and> holder_origin factory flds s h \<and>
      holder_log lib h {tx\<in>txs \<union> N. same_holder index (tx_holder tx) s}"
  proof (cases "same_holder index s r")
    case True
    then have h: "h = h'" using s(2) by (simp add: deref_put_holder [OF c])
    have o': "holder_origin factory flds s h'" using h'(2) holder_origin_cong [OF True] by blast
    show ?thesis unfolding h True by (intro conjI h'(1,3) o')
  next
    case False
    then have d: "deref index s = Some h" using s(2) by (simp add: deref_put_holder [OF c])
    have cs: "has_container index (ref_container s)" using s(1) by simp
    have e: "{tx\<in>txs \<union> N. same_holder index (tx_holder tx) s} =
        {tx\<in>txs. same_holder index (tx_holder tx) s}" using False N by (metis (mono_tags, lifting) Un_iff)
    show ?thesis unfolding e using index_invD [OF inv cs d] by blast
  qed
  then show "eh_building h" "holder_origin factory flds s h"
    "holder_log lib h {tx\<in>txs \<union> N. same_holder (put_holder index r h') (tx_holder tx) s}"
    by (simp_all only: put_holder_sel)
qed

lemma no_tx_without_holder:
  assumes "index_inv lib factory flds index txs" "deref index r = None"
  shows "{tx\<in>txs. same_holder index (tx_holder tx) r} = {}"
proof -
  have "\<not> same_holder index (tx_holder tx) r" if "tx \<in> txs" for tx
  proof
    assume "same_holder index (tx_holder tx) r"
    then have "deref index (tx_holder tx) = None" using assms(2) deref_cong by metis
    then show False using assms(1) that by (auto simp: index_inv_def tx_wf_def)
  qed
  then show ?thesis by blast
qed

text \<open>Making a holder for a described field.\<close>

lemma index_inv_CreateHolder:
  assumes inv: "index_inv lib factory flds index txs" and ok: "factory_ok factory"
    and c: "has_container index k" and d: "map_of flds (fd_Field desc) = Some desc"
    and cr: "CreateHolder factory k (container_at index k) desc = Inr (c', ref)"
  shows "ref = ref_for k desc" "index_le index (put_container index k c')"
    "index_inv lib factory flds (put_container index k c') txs"
    "\<exists>h. deref (put_container index k c') ref = Some h \<and> NewEntriesHolder factory (Container desc) = Some (eh_blank h)"
proof -
  have dh: "defaultHolder (container_at index k) \<noteq> None" using inv c by (simp add: index_inv_def)
  note P = CreateHolder_put [OF cr dh]
  show ref: "ref = ref_for k desc" by (rule P(1))
  have rc: "has_container index (ref_container ref)" by (simp add: ref c)
  have org: "NewEntriesHolder factory (Container desc) = Some (eh_blank h)" if "holder_origin factory flds ref h" for h
    using that d by (auto simp: ref ref_for_def holder_origin_def split: if_splits)
  from P(2) have "index_le index (put_container index k c') \<and>
      index_inv lib factory flds (put_container index k c') txs \<and>
      (\<exists>h. deref (put_container index k c') ref = Some h \<and> NewEntriesHolder factory (Container desc) = Some (eh_blank h))"
  proof (elim disjE exE conjE)
    assume same: "put_container index k c' = index" "deref index ref \<noteq> None"
    then obtain h where "deref index ref = Some h" by auto
    then show ?thesis using same inv org index_invD(2) [OF inv rc] by auto
  next
    fix h assume new: "deref index ref = None" "Container desc \<noteq> HolderNameDefault"
      "NewEntriesHolder factory (Container desc) = Some h" "put_container index k c' = put_holder index ref h"
    have fr: "fresh h" using ok new(3) by (auto simp: factory_ok_def)
    have o': "holder_origin factory flds ref h"
      using new(2,3) d fresh_holder_log(2) [OF fr] by (simp add: ref ref_for_def holder_origin_def)
    have "holder_log lib h {tx\<in>txs \<union> {}. same_holder index (tx_holder tx) ref}"
      unfolding Un_empty_right no_tx_without_holder [OF inv new(1)] by (rule fresh_holder_log(3) [OF fr])
    then have "index_inv lib factory flds (put_holder index ref h) (txs \<union> {})"
      using fresh_holder_log(1) [OF fr] new(1) o' by (intro index_inv_put [OF inv rc]) simp_all
    moreover have "index_le index (put_holder index ref h)" using new(1) by (intro index_le_put [OF rc]) simp
    moreover have "deref (put_holder index ref h) ref = Some h" by (simp add: deref_put_holder [OF rc])
    ultimately show ?thesis using new(4) org [OF o'] by simp
  qed
  then show "index_le index (put_container index k c')" "index_inv lib factory flds (put_container index k c') txs"
    "\<exists>h. deref (put_container index k c') ref = Some h \<and> NewEntriesHolder factory (Container desc) = Some (eh_blank h)"
    by simp_all
qed

subsection \<open>Committing transactions\<close>

lemma holder_log_commit:
  assumes "holder_log lib h txs" "eh_building h" "tx_ok (eh_takes h) tx"
  shows "\<exists>h'. CommitFieldIndexingData h tx = Inr h' \<and> eh_building h' \<and> eh_blank h' = eh_blank h \<and>
    holder_log lib h' (insert tx txs)"
proof -
  obtain h' where h': "CommitFieldIndexingData h tx = Inr h'" "eh_building h'" "eh_blank h' = eh_blank h"
    "\<And>fd v. eh_posted lib h' fd v = eh_posted lib h fd v \<union> {e. e = tx_EID tx \<and> tx_hits (eh_slot h) (eh_hits lib h) fd tx v}"
    using eh.commit_tx [OF assms(2,3), of lib] by blast
  have "eh_slot h' = eh_slot h" "eh_hits lib h' = eh_hits lib h" using eh.same_blank h'(3) by blast+
  then have "holder_log lib h' (insert tx txs)"
    using assms(1) by (auto simp: holder_log_def h'(4))
  then show ?thesis using h' by blast
qed

lemma commit_tx_inv:
  assumes inv: "index_inv lib factory flds index txs" and wf: "tx_wf flds index tx"
  shows "\<exists>h h'. deref index (tx_holder tx) = Some h \<and> CommitFieldIndexingData h tx = Inr h' \<and>
    index_le index (put_holder index (tx_holder tx) h') \<and>
    index_inv lib factory flds (put_holder index (tx_holder tx) h') (insert tx txs)"
proof -
  let ?r = "tx_holder tx"
  obtain h where h: "deref index ?r = Some h" "tx_ok (eh_takes h) tx" and c: "has_container index (ref_container ?r)"
    using wf by (auto simp: tx_wf_def)
  note I = index_invD [OF inv c h(1)]
  obtain h' where h': "CommitFieldIndexingData h tx = Inr h'" "eh_building h'" "eh_blank h' = eh_blank h"
    "holder_log lib h' (insert tx {t\<in>txs. same_holder index (tx_holder t) ?r})"
    using holder_log_commit [OF I(3,1) h(2)] by blast
  have le: "index_le index (put_holder index ?r h')" using h(1) h'(3) by (intro index_le_put [OF c]) simp
  have "insert tx {t\<in>txs. same_holder index (tx_holder t) ?r} =
      {t\<in>txs \<union> {tx}. same_holder index (tx_holder t) ?r}" by auto
  then have log: "holder_log lib h' {t\<in>txs \<union> {tx}. same_holder index (tx_holder t) ?r}" using h'(4) by simp
  have "tx_wf flds (put_holder index ?r h') tx" by (rule tx_wf_mono [OF wf map_le_refl le])
  moreover have "holder_origin factory flds ?r h'"
    using I(2) h'(3) by (auto simp: holder_origin_def split: holder_ref.splits)
  ultimately have "index_inv lib factory flds (put_holder index ?r h') (txs \<union> {tx})"
    using h(1) h'(2,3) log by (intro index_inv_put [OF inv c]) auto
  then show ?thesis using h(1) h'(1) le by auto
qed

lemma commit_txs_inv:
  assumes "index_inv lib factory flds index txs" "\<forall>tx\<in>set l. tx_wf flds index tx"
  shows "\<exists>index'. commit_txs index l = (index', Inr ()) \<and> index_le index index' \<and>
    index_inv lib factory flds index' (txs \<union> set l) \<and> index_wildcards index' = index_wildcards index"
  using assms
proof (induction l arbitrary: index txs)
  case (Cons tx l)
  obtain h h' where h: "deref index (tx_holder tx) = Some h" "CommitFieldIndexingData h tx = Inr h'"
    and le: "index_le index (put_holder index (tx_holder tx) h')"
    and inv: "index_inv lib factory flds (put_holder index (tx_holder tx) h') (insert tx txs)"
    using commit_tx_inv [OF Cons.prems(1), of tx] Cons.prems(2) by auto
  have "\<forall>t\<in>set l. tx_wf flds (put_holder index (tx_holder tx) h') t"
    using Cons.prems(2) tx_wf_mono [OF _ map_le_refl le] by simp
  then obtain index' where i: "commit_txs (put_holder index (tx_holder tx) h') l = (index', Inr ())"
    "index_le (put_holder index (tx_holder tx) h') index'"
    "index_inv lib factory flds index' (insert tx txs \<union> set l)" "index_wildcards index' = index_wildcards index"
    using Cons.IH [OF inv] by auto
  then show ?case using h index_le_trans [OF le i(2)] by simp
qed simp

end
