(* ===== verification/BuilderCorrect.thy ===== *)
theory BuilderCorrect
  imports IndexState
begin

text \<open>
  What the builder does to the index. \<open>builder_inv env b cds\<close> says that the builder is well
  formed and that its index holds exactly the conjunctions of the log \<open>cds\<close>. Preparing keeps
  the log, committing extends it, and a successful \<open>AddDocument\<close> extends it by the prepared
  conjunctions of its documents.
\<close>

subsection \<open>Field descriptions\<close>

definition fields_ok :: "(BEField \<times> FieldDesc) list \<Rightarrow> bool" where
  "fields_ok flds \<longleftrightarrow> distinct (map fst flds) \<and>
     (\<forall>i<length flds. fd_ID (snd (flds ! i)) = i \<and> fd_Field (snd (flds ! i)) = fst (flds ! i))"

lemma fields_okD:
  assumes "fields_ok flds" "map_of flds f = Some desc"
  shows "fd_Field desc = f" "\<exists>i<length flds. flds ! i = (f, desc) \<and> fd_ID desc = i"
proof -
  have "(f, desc) \<in> set flds" using assms(2) by (rule map_of_SomeD)
  then obtain i where i: "i < length flds" "flds ! i = (f, desc)" by (auto simp: in_set_conv_nth)
  then have "fd_ID desc = i \<and> fd_Field desc = f" using assms(1) by (fastforce simp: fields_ok_def)
  then show "fd_Field desc = f" "\<exists>i<length flds. flds ! i = (f, desc) \<and> fd_ID desc = i" using i by auto
qed

lemma fields_ok_ID:
  assumes "fields_ok flds" "map_of flds f = Some d" "map_of flds g = Some e" "fd_ID d = fd_ID e"
  shows "d = e"
  using fields_okD(2) [OF assms(1,2)] fields_okD(2) [OF assms(1,3)] assms(4) by auto

lemma alist_put_new: "map_of m k = None \<Longrightarrow> alist_put k v m = m @ [(k, v)]"
  by (induction m) (auto simp: alist_put_def split: if_splits)

lemma fields_ok_put:
  assumes "fields_ok flds" "map_of flds f = None" "fd_ID desc = length flds" "fd_Field desc = f"
  shows "fields_ok (alist_put f desc flds)"
  using assms by (auto simp: fields_ok_def alist_put_new nth_append map_of_eq_None_iff less_Suc_eq)

lemma map_le_put_new: "map_of m k = None \<Longrightarrow> map_of m \<subseteq>\<^sub>m map_of (alist_put k v m)"
  by (auto simp: map_le_def)

text \<open>
  \<open>builder_ext b b'\<close>: the builder \<open>b'\<close> follows \<open>b\<close>. Descriptions and holders stay, the options
  are unchanged, and a builder without a cache stays without one.
\<close>

definition builder_ext :: "'c IndexerBuilder \<Rightarrow> 'c IndexerBuilder \<Rightarrow> bool" where
  "builder_ext b b' \<longleftrightarrow>
     map_of (fieldsData b) \<subseteq>\<^sub>m map_of (fieldsData b') \<and> index_le (indexer b) (indexer b') \<and>
     badConjBehavior b' = badConjBehavior b \<and> indexerType b' = indexerType b \<and>
     (docLevelCache b' = None \<longleftrightarrow> docLevelCache b = None)"

lemma builder_ext_refl [simp]: "builder_ext b b"
  by (simp add: builder_ext_def)

lemma builder_ext_trans: "builder_ext a b \<Longrightarrow> builder_ext b c \<Longrightarrow> builder_ext a c"
  unfolding builder_ext_def by (elim conjE, intro conjI, erule (1) map_le_trans, erule (1) index_le_trans) simp_all

definition cd_wf :: "BEIndex \<Rightarrow> ConjIndexingData \<Rightarrow> bool" where
  "cd_wf index cd \<longleftrightarrow>
     uint (cd_conjID cd) < 2 ^ 60 \<and> ConjID_Size (cd_conjID cd) = cd_incSize cd \<and> 0 \<le> cd_incSize cd \<and>
     has_container index (nat (cd_incSize cd)) \<and>
     (\<forall>tx\<in>set (cd_fieldData cd). ref_container (tx_holder tx) = nat (cd_incSize cd) \<and>
        (\<exists>incl. tx_EID tx = NewEntryID (cd_conjID cd) incl))"

definition all_txs :: "ConjIndexingData list \<Rightarrow> FieldIndexingData set" where
  "all_txs cds = (\<Union>cd\<in>set cds. set (cd_fieldData cd))"

definition builder_inv :: "'c env \<Rightarrow> 'c IndexerBuilder \<Rightarrow> ConjIndexingData list \<Rightarrow> bool" where
  "builder_inv env b cds \<longleftrightarrow>
     fields_ok (fieldsData b) \<and>
     index_inv (env_lib env) (env_factory env) (fieldsData b) (indexer b) (all_txs cds) \<and>
     (\<forall>cd\<in>set cds. cd_wf (indexer b) cd) \<and>
     set (index_wildcards (indexer b)) = {NewEntryID (cd_conjID cd) True |cd. cd \<in> set cds \<and> cd_incSize cd = 0}"

lemma cd_wf_mono: "cd_wf index cd \<Longrightarrow> index_le index index' \<Longrightarrow> cd_wf index' cd"
  by (auto simp: cd_wf_def index_le_def)

text \<open>A change of the index that keeps the log.\<close>

lemma builder_inv_index:
  assumes "builder_inv env b cds" "index_le (indexer b) index"
    "index_inv (env_lib env) (env_factory env) (fieldsData b) index (all_txs cds)"
    "index_wildcards index = index_wildcards (indexer b)"
  shows "builder_inv env (b\<lparr>indexer := index\<rparr>) cds" "builder_ext b (b\<lparr>indexer := index\<rparr>)"
  using assms cd_wf_mono by (auto simp: builder_inv_def builder_ext_def)

subsection \<open>Configuring fields\<close>

lemma updateSchemaHash_sel [simp]:
  "fieldsData (updateSchemaHash b) = fieldsData b" "indexer (updateSchemaHash b) = indexer b"
  "badConjBehavior (updateSchemaHash b) = badConjBehavior b" "indexerType (updateSchemaHash b) = indexerType b"
  "docLevelCache (updateSchemaHash b) = docLevelCache b"
  by (simp_all add: updateSchemaHash_def)

lemma configureField_new:
  assumes "map_of (fieldsData b) field = None" "configureField env b field opt = (b', r)"
  shows "\<exists>desc. r = Inr desc \<and> fd_ID desc = length (fieldsData b) \<and> fd_Field desc = field \<and>
    Container desc = (if Container opt = [] then HolderNameDefault else Container opt) \<and>
    fieldsData b' = alist_put field desc (fieldsData b) \<and> indexer b' = indexer b \<and>
    badConjBehavior b' = badConjBehavior b \<and> indexerType b' = indexerType b \<and>
    (docLevelCache b' = None \<longleftrightarrow> docLevelCache b = None)"
  using assms by (auto simp: configureField_def Let_def split: option.splits)

lemma builder_inv_fields:
  assumes inv: "builder_inv env b cds" and new: "map_of (fieldsData b) field = None"
    and desc: "fd_ID desc = length (fieldsData b)" "fd_Field desc = field"
    and b': "fieldsData b' = alist_put field desc (fieldsData b)" "indexer b' = indexer b"
      "badConjBehavior b' = badConjBehavior b" "indexerType b' = indexerType b"
      "docLevelCache b' = None \<longleftrightarrow> docLevelCache b = None"
  shows "builder_inv env b' cds" "builder_ext b b'"
proof -
  note le = map_le_put_new [OF new, of desc]
  have "fields_ok (alist_put field desc (fieldsData b))"
    using inv new desc by (intro fields_ok_put) (auto simp: builder_inv_def)
  then show "builder_inv env b' cds"
    using inv index_inv_fields [OF _ le] by (simp add: builder_inv_def b')
  show "builder_ext b b'" using le by (simp add: builder_ext_def b')
qed

lemma configureField_inv:
  assumes inv: "builder_inv env b cds" and c: "configureField env b field opt = (b', r)"
  shows "builder_inv env b' cds" "builder_ext b b'"
    "r = Inr desc \<Longrightarrow> map_of (fieldsData b') field = Some desc \<and> fd_Field desc = field"
proof -
  have "builder_inv env b' cds \<and> builder_ext b b' \<and>
      (r = Inr desc \<longrightarrow> map_of (fieldsData b') field = Some desc \<and> fd_Field desc = field)"
  proof (cases "map_of (fieldsData b) field")
    case None
    obtain d where d: "r = Inr d" "fd_ID d = length (fieldsData b)" "fd_Field d = field"
      "fieldsData b' = alist_put field d (fieldsData b)" "indexer b' = indexer b"
      "badConjBehavior b' = badConjBehavior b" "indexerType b' = indexerType b"
      "docLevelCache b' = None \<longleftrightarrow> docLevelCache b = None"
      using configureField_new [OF None c] by (elim exE conjE) rule
    show ?thesis using builder_inv_fields [OF inv None d(2-8)] d(1,3,4) by auto
  next
    case (Some d)
    then have "b' = b" "r \<noteq> Inr desc" using c by (auto simp: configureField_def)
    then show ?thesis using inv by simp
  qed
  then show "builder_inv env b' cds" "builder_ext b b'"
    "r = Inr desc \<Longrightarrow> map_of (fieldsData b') field = Some desc \<and> fd_Field desc = field" by auto
qed

lemma PanicIfErr_Inr [simp]: "PanicIfErr r = Inr x \<longleftrightarrow> r = Inr x"
  by (cases r rule: PanicIfErr.cases) auto

lemma createFieldData_inv:
  assumes inv: "builder_inv env b cds" and c: "createFieldData env b field = (b', r)"
  shows "builder_inv env b' cds" "builder_ext b b'"
    "\<exists>desc. r = Inr desc \<and> map_of (fieldsData b') field = Some desc \<and> fd_Field desc = field"
proof -
  have "builder_inv env b' cds \<and> builder_ext b b' \<and>
      (\<exists>desc. r = Inr desc \<and> map_of (fieldsData b') field = Some desc \<and> fd_Field desc = field)"
  proof (cases "map_of (fieldsData b) field")
    case None
    obtain r' where conf: "configureField env b field \<lparr>Container = HolderNameDefault\<rparr> = (b', r')" "r = PanicIfErr r'"
      using c None by (auto simp: createFieldData_def split: prod.splits)
    obtain d where "r' = Inr d" using configureField_new [OF None conf(1)] by (elim exE conjE)
    then show ?thesis using configureField_inv [OF inv conf(1)] conf(2) by simp
  next
    case (Some d)
    then have "b' = b" "r = Inr d" using c by (auto simp: createFieldData_def)
    moreover have "fd_Field d = field" using inv Some fields_okD(1) by (auto simp: builder_inv_def)
    ultimately show ?thesis using inv Some by simp
  qed
  then show "builder_inv env b' cds" "builder_ext b b'"
    "\<exists>desc. r = Inr desc \<and> map_of (fieldsData b') field = Some desc \<and> fd_Field desc = field" by auto
qed

subsection \<open>Preparing\<close>

text \<open>
  The transaction an expression of a conjunction becomes, and the data of a conjunction,
  for given descriptions. They only depend on fresh holders of the registry.
\<close>

definition build_expr ::
  "'c env \<Rightarrow> (BEField \<times> FieldDesc) list \<Rightarrow> BEField \<Rightarrow> BoolValues \<Rightarrow> (FieldDesc \<times> IndexingData res) option"
where
  "build_expr env flds f bv =
     (case map_of flds f of
        None \<Rightarrow> None
      | Some desc \<Rightarrow>
          (case NewEntriesHolder (env_factory env) (Container desc) of
             None \<Rightarrow> None
           | Some h \<Rightarrow> Some (desc, BuildFieldIndexingData (env_lib env) h desc bv)))"

definition expr_tx ::
  "'c env \<Rightarrow> (BEField \<times> FieldDesc) list \<Rightarrow> nat \<Rightarrow> ConjID \<Rightarrow> BEField \<times> BoolValues \<Rightarrow> FieldIndexingData \<Rightarrow> bool"
where
  "expr_tx env flds k conjID = (\<lambda>(f, bv) tx.
     \<exists>desc d. build_expr env flds f bv = Some (desc, Inr d) \<and>
       tx = \<lparr>tx_field = desc, tx_holder = ref_for k desc, tx_EID = NewEntryID conjID (Incl bv), tx_Data = Some d\<rparr>)"

definition conj_data ::
  "'c env \<Rightarrow> (BEField \<times> FieldDesc) list \<Rightarrow> DocID \<Rightarrow> int \<Rightarrow> Conjunction \<Rightarrow> ConjIndexingData \<Rightarrow> bool"
where
  "conj_data env flds docID idx cj cd \<longleftrightarrow>
     NewConjID docID idx (CalcConjSize cj) = Inr (cd_conjID cd) \<and> cd_idx cd = idx \<and>
     cd_incSize cd = CalcConjSize cj \<and>
     list_all2 (expr_tx env flds (nat (CalcConjSize cj)) (cd_conjID cd)) (flat_exprs cj) (cd_fieldData cd)"

text \<open>A conjunction that cannot be indexed: one of its expressions is rejected with an error.\<close>

definition bad_conj :: "'c env \<Rightarrow> (BEField \<times> FieldDesc) list \<Rightarrow> Conjunction \<Rightarrow> bool" where
  "bad_conj env flds cj \<longleftrightarrow>
     (\<exists>(f, bv)\<in>set (flat_exprs cj). \<exists>desc m. build_expr env flds f bv = Some (desc, Inl (Err m)))"

lemma build_expr_mono:
  "map_of flds \<subseteq>\<^sub>m map_of flds' \<Longrightarrow> build_expr env flds f bv = Some x \<Longrightarrow> build_expr env flds' f bv = Some x"
  by (cases "map_of flds f") (auto simp: build_expr_def dest: map_leD)

lemma expr_tx_mono:
  "map_of flds \<subseteq>\<^sub>m map_of flds' \<Longrightarrow> expr_tx env flds k c e tx \<Longrightarrow> expr_tx env flds' k c e tx"
  using build_expr_mono by (fastforce simp: expr_tx_def split: prod.splits)

lemma conj_data_mono:
  assumes "map_of flds \<subseteq>\<^sub>m map_of flds'" "conj_data env flds docID idx cj cd"
  shows "conj_data env flds' docID idx cj cd"
proof -
  have "list_all2 (expr_tx env flds' k c) es txs" if "list_all2 (expr_tx env flds k c) es txs" for k c es txs
    using that by (rule list_all2_mono) (rule expr_tx_mono [OF assms(1)])
  then show ?thesis using assms(2) by (simp add: conj_data_def)
qed

lemma bad_conj_mono: "map_of flds \<subseteq>\<^sub>m map_of flds' \<Longrightarrow> bad_conj env flds cj \<Longrightarrow> bad_conj env flds' cj"
  using build_expr_mono by (fastforce simp: bad_conj_def)

lemma index_expr_inv:
  assumes inv: "builder_inv env b cds" and ok: "factory_ok (env_factory env)"
    and k: "has_container (indexer b) k" and c: "uint conjID < 2 ^ 60"
    and ix: "index_expr env k conjID field expr b = (b', r)"
  shows "builder_inv env b' cds" "builder_ext b b'"
    "r = Inr tx \<Longrightarrow> tx_wf (fieldsData b') (indexer b') tx \<and> expr_tx env (fieldsData b') k conjID (field, expr) tx"
    "r = Inl (Err m) \<Longrightarrow> \<exists>desc m'. build_expr env (fieldsData b') field expr = Some (desc, Inl (Err m'))"
proof -
  obtain b1 desc where cf: "createFieldData env b field = (b1, Inr desc)"
    and b1: "builder_inv env b1 cds" "builder_ext b b1" "map_of (fieldsData b1) field = Some desc" "fd_Field desc = field"
    using createFieldData_inv [OF inv] by (metis surj_pair)
  have k1: "has_container (indexer b1) k" using b1(2) k by (auto simp: builder_ext_def index_le_def)
  have inv1: "index_inv (env_lib env) (env_factory env) (fieldsData b1) (indexer b1) (all_txs cds)"
    using b1(1) by (simp add: builder_inv_def)
  have "builder_inv env b' cds \<and> builder_ext b b' \<and>
    (r = Inr tx \<longrightarrow> tx_wf (fieldsData b') (indexer b') tx \<and> expr_tx env (fieldsData b') k conjID (field, expr) tx) \<and>
    (r = Inl (Err m) \<longrightarrow> (\<exists>desc m'. build_expr env (fieldsData b') field expr = Some (desc, Inl (Err m'))))"
  proof (cases "CreateHolder (env_factory env) k (container_at (indexer b1) k) desc")
    case (Inl e)
    then have "e \<noteq> Err m" by (auto simp: CreateHolder_def split: option.splits)
    moreover have "b' = b1" "r = Inl e" using ix Inl by (auto simp: index_expr_def cf)
    ultimately show ?thesis using b1 by auto
  next
    case (Inr p)
    then obtain c' ref where cr: "CreateHolder (env_factory env) k (container_at (indexer b1) k) desc = Inr (c', ref)"
      by (cases p) simp
    let ?i = "put_container (indexer b1) k c'"
    have d: "map_of (fieldsData b1) (fd_Field desc) = Some desc" using b1 by simp
    note H = index_inv_CreateHolder [OF inv1 ok k1 d cr]
    obtain h where h: "deref ?i ref = Some h" "NewEntriesHolder (env_factory env) (Container desc) = Some (eh_blank h)"
      using H(4) by blast
    let ?b2 = "b1\<lparr>indexer := ?i\<rparr>"
    have b2: "builder_inv env ?b2 cds" "builder_ext b ?b2"
      using builder_inv_index [OF b1(1) H(2,3)] builder_ext_trans [OF b1(2)] by simp_all
    let ?res = "BuildFieldIndexingData (env_lib env) h desc expr"
    have be: "build_expr env (fieldsData ?b2) field expr = Some (desc, ?res)"
      using b1(3) h(2) eh.build_blank by (simp add: build_expr_def)
    have ix': "b' = ?b2" "r = (case ?res of Inl (Err m) \<Rightarrow> Inl (Err (''indexing field fail:'' @ m))
        | Inl (Panic m) \<Rightarrow> Inl (Panic m)
        | Inr txData \<Rightarrow> Inr \<lparr>tx_field = desc, tx_holder = ref, tx_EID = NewEntryID conjID (Incl expr), tx_Data = Some txData\<rparr>)"
      using ix h(1) by (auto simp: index_expr_def cf cr Let_def)
    have "tx_wf (fieldsData ?b2) ?i tx \<and> expr_tx env (fieldsData ?b2) k conjID (field, expr) tx" if r: "r = Inr tx"
    proof -
      obtain data where data: "?res = Inr data"
        "tx = \<lparr>tx_field = desc, tx_holder = ref_for k desc, tx_EID = NewEntryID conjID (Incl expr), tx_Data = Some data\<rparr>"
        using r ix'(2) H(1) by (auto split: sum.splits gerr.splits)
      have "tx_ok (eh_takes h) tx"
        using eh.build_takes [OF data(1)] valid_NewEntryID [OF c] by (simp add: tx_ok_def data(2))
      moreover have "has_container ?i k" using k1 by simp
      ultimately have "tx_wf (fieldsData ?b2) ?i tx" using d h(1) by (simp add: tx_wf_def data(2) H(1))
      moreover have "expr_tx env (fieldsData ?b2) k conjID (field, expr) tx"
        using be data by (simp add: expr_tx_def)
      ultimately show ?thesis by simp
    qed
    moreover have "\<exists>desc m'. build_expr env (fieldsData ?b2) field expr = Some (desc, Inl (Err m'))" if "r = Inl (Err m)"
      using that ix'(2) be by (auto split: sum.splits gerr.splits)
    ultimately show ?thesis using b2 ix'(1) by simp
  qed
  then show "builder_inv env b' cds" "builder_ext b b'"
    "r = Inr tx \<Longrightarrow> tx_wf (fieldsData b') (indexer b') tx \<and> expr_tx env (fieldsData b') k conjID (field, expr) tx"
    "r = Inl (Err m) \<Longrightarrow> \<exists>desc m'. build_expr env (fieldsData b') field expr = Some (desc, Inl (Err m'))" by auto
qed

lemma index_exprs_inv:
  assumes "builder_inv env b cds" "factory_ok (env_factory env)"
    "has_container (indexer b) k" "uint conjID < 2 ^ 60"
    "index_exprs env k conjID es b = (b', r)"
  shows "builder_inv env b' cds \<and> builder_ext b b' \<and>
    (\<forall>txs. r = Inr txs \<longrightarrow> (\<forall>tx\<in>set txs. tx_wf (fieldsData b') (indexer b') tx) \<and>
       list_all2 (expr_tx env (fieldsData b') k conjID) es txs) \<and>
    (\<forall>m. r = Inl (Err m) \<longrightarrow>
       (\<exists>(f, bv)\<in>set es. \<exists>desc m'. build_expr env (fieldsData b') f bv = Some (desc, Inl (Err m'))))"
  using assms
proof (induction es arbitrary: b b' r)
  case (Cons e es)
  obtain f bv where e: "e = (f, bv)" by (cases e)
  obtain b1 r1 where ix: "index_expr env k conjID f bv b = (b1, r1)" by fastforce
  note H = index_expr_inv [OF Cons.prems(1-4) ix]
  show ?case
  proof (cases r1)
    case (Inl er)
    then have r: "b' = b1" "r = Inl er" using Cons.prems(5) ix by (simp_all add: e)
    have "\<exists>(f, bv)\<in>set (e # es). \<exists>desc m'. build_expr env (fieldsData b') f bv = Some (desc, Inl (Err m'))"
      if "r = Inl (Err m)" for m
      using H(4) [of m] that r Inl by (auto simp: e)
    then show ?thesis using H(1,2) r by auto
  next
    case (Inr tx)
    have tx: "tx_wf (fieldsData b1) (indexer b1) tx" "expr_tx env (fieldsData b1) k conjID (f, bv) tx"
      using H(3) [OF Inr] by auto
    have k1: "has_container (indexer b1) k" using H(2) Cons.prems(3) by (auto simp: builder_ext_def index_le_def)
    obtain r2 where ix2: "index_exprs env k conjID es b1 = (b', r2)"
      "r = (case r2 of Inl e \<Rightarrow> Inl e | Inr txs \<Rightarrow> Inr (tx # txs))"
      using Cons.prems(5) ix Inr by (auto simp: e split: prod.splits sum.splits)
    note IH = Cons.IH [OF H(1) Cons.prems(2) k1 Cons.prems(4) ix2(1)]
    have ext: "map_of (fieldsData b1) \<subseteq>\<^sub>m map_of (fieldsData b')" "index_le (indexer b1) (indexer b')"
      using IH by (auto simp: builder_ext_def)
    have tx': "tx_wf (fieldsData b') (indexer b') tx" "expr_tx env (fieldsData b') k conjID (f, bv) tx"
      using tx_wf_mono [OF tx(1) ext] expr_tx_mono [OF ext(1) tx(2)] by auto
    show ?thesis
    proof (intro conjI allI impI)
      show "builder_inv env b' cds" "builder_ext b b'" using IH builder_ext_trans [OF H(2)] by auto
      fix m assume "r = Inl (Err m)"
      then have "r2 = Inl (Err m)" using ix2(2) by (simp split: sum.splits)
      then have "\<exists>(f, bv)\<in>set es. \<exists>desc m'. build_expr env (fieldsData b') f bv = Some (desc, Inl (Err m'))"
        using IH by blast
      then show "\<exists>(f, bv)\<in>set (e # es). \<exists>desc m'. build_expr env (fieldsData b') f bv = Some (desc, Inl (Err m'))"
        by auto
    next
      fix txs assume "r = Inr txs"
      then obtain txs' where t: "r2 = Inr txs'" "txs = tx # txs'" using ix2(2) by (auto split: sum.splits)
      then show "\<forall>tx\<in>set txs. tx_wf (fieldsData b') (indexer b') tx"
        "list_all2 (expr_tx env (fieldsData b') k conjID) (e # es) txs" using IH tx' by (auto simp: e)
    qed
  qed
qed simp

text \<open>Data that is prepared but not committed.\<close>

definition pending :: "'c IndexerBuilder \<Rightarrow> ConjIndexingData \<Rightarrow> bool" where
  "pending b cd \<longleftrightarrow> cd_wf (indexer b) cd \<and> (\<forall>tx\<in>set (cd_fieldData cd). tx_wf (fieldsData b) (indexer b) tx)"

lemma pending_ext: "pending b cd \<Longrightarrow> builder_ext b b' \<Longrightarrow> pending b' cd"
  using cd_wf_mono tx_wf_mono by (fastforce simp: pending_def builder_ext_def)

lemma list_all2_expr_tx:
  assumes "list_all2 (expr_tx env flds k c) es txs" "tx \<in> set txs"
  shows "\<exists>f bv desc d. (f, bv) \<in> set es \<and> build_expr env flds f bv = Some (desc, Inr d) \<and>
    tx = \<lparr>tx_field = desc, tx_holder = ref_for k desc, tx_EID = NewEntryID c (Incl bv), tx_Data = Some d\<rparr>"
  using assms by (induction rule: list_all2_induct) (auto simp: expr_tx_def)

lemma indexingConjunction_inv:
  assumes inv: "builder_inv env b cds" and ok: "factory_ok (env_factory env)"
    and id: "NewConjID docID idx (CalcConjSize cj) = Inr conjID"
    and ix: "indexingConjunction env b conjID cj = (b', r)"
  shows "builder_inv env b' cds" "builder_ext b b'"
    "r = Inr txs \<Longrightarrow>
       pending b' \<lparr>cd_idx = idx, cd_incSize = CalcConjSize cj, cd_conjID = conjID, cd_fieldData = txs\<rparr> \<and>
       conj_data env (fieldsData b') docID idx cj
         \<lparr>cd_idx = idx, cd_incSize = CalcConjSize cj, cd_conjID = conjID, cd_fieldData = txs\<rparr>"
    "r = Inl (Err m) \<Longrightarrow> bad_conj env (fieldsData b') cj"
proof -
  let ?k = "nat (CalcConjSize cj)"
  let ?i = "newContainer (env_factory env) (indexer b) ?k"
  note F = NewConjID_fields [OF id] and c = NewConjID_less_2p60 [OF id]
  have sz: "0 \<le> CalcConjSize cj" using NewConjID_valid [OF id] by simp
  have inv1: "builder_inv env (b\<lparr>indexer := ?i\<rparr>) cds" and ext1: "builder_ext b (b\<lparr>indexer := ?i\<rparr>)"
    using builder_inv_index [OF inv index_le_newContainer index_inv_newContainer [OF _ ok]] inv
    by (simp_all add: builder_inv_def)
  have ix': "index_exprs env ?k conjID (flat_exprs cj) (b\<lparr>indexer := ?i\<rparr>) = (b', r)"
    using ix by (simp add: indexingConjunction_def F Let_def)
  have "has_container (indexer (b\<lparr>indexer := ?i\<rparr>)) ?k" by simp
  note H = index_exprs_inv [OF inv1 ok this c ix']
  then show "builder_inv env b' cds" and ext: "builder_ext b b'" using builder_ext_trans [OF ext1] by blast+
  have k: "has_container (indexer b') ?k" using H by (auto simp: builder_ext_def index_le_def)
  show "bad_conj env (fieldsData b') cj" if "r = Inl (Err m)" using H that by (auto simp: bad_conj_def)
  assume "r = Inr txs"
  then have t: "\<forall>tx\<in>set txs. tx_wf (fieldsData b') (indexer b') tx"
    "list_all2 (expr_tx env (fieldsData b') ?k conjID) (flat_exprs cj) txs" using H by auto
  have "ref_container (tx_holder tx) = ?k \<and> (\<exists>incl. tx_EID tx = NewEntryID conjID incl)" if "tx \<in> set txs" for tx
    using list_all2_expr_tx [OF t(2) that] by (elim exE conjE) auto
  then show "pending b' \<lparr>cd_idx = idx, cd_incSize = CalcConjSize cj, cd_conjID = conjID, cd_fieldData = txs\<rparr> \<and>
       conj_data env (fieldsData b') docID idx cj
         \<lparr>cd_idx = idx, cd_incSize = CalcConjSize cj, cd_conjID = conjID, cd_fieldData = txs\<rparr>"
    using t id k sz c
    by (simp add: pending_def conj_data_def cd_wf_def F)
qed

text \<open>
  The data a document contributes: each of its conjunctions is prepared, or left out when it
  is bad and the builder skips bad conjunctions.
\<close>

inductive prepared ::
  "'c env \<Rightarrow> (BEField \<times> FieldDesc) list \<Rightarrow> bool \<Rightarrow> DocID \<Rightarrow> int \<Rightarrow> Conjunction list \<Rightarrow> ConjIndexingData list \<Rightarrow> bool"
  for env flds skip docID
where
  prepared_Nil: "prepared env flds skip docID idx [] []"
| prepared_Cons: "conj_data env flds docID idx cj cd \<Longrightarrow> prepared env flds skip docID (idx + 1) cjs cds \<Longrightarrow>
    prepared env flds skip docID idx (cj # cjs) (cd # cds)"
| prepared_skip: "skip \<Longrightarrow> bad_conj env flds cj \<Longrightarrow> prepared env flds skip docID (idx + 1) cjs cds \<Longrightarrow>
    prepared env flds skip docID idx (cj # cjs) cds"

lemma prepared_mono:
  assumes "prepared env flds skip docID idx cjs cds" "map_of flds \<subseteq>\<^sub>m map_of flds'"
  shows "prepared env flds' skip docID idx cjs cds"
  using assms
  by (induction) (auto intro: prepared.intros conj_data_mono bad_conj_mono)

definition skips :: "'c IndexerBuilder \<Rightarrow> bool" where
  "skips b \<longleftrightarrow> badConjBehavior b = SkipBadConj"

lemma builder_ext_skips: "builder_ext b b' \<Longrightarrow> skips b' = skips b"
  by (simp add: builder_ext_def skips_def)

lemma prepare_conjs_inv:
  assumes "builder_inv env b cds" "factory_ok (env_factory env)"
    "prepare_conjs env docID idx cjs b = (b', r)"
  shows "builder_inv env b' cds \<and> builder_ext b b' \<and>
    (\<forall>new. r = Inr new \<longrightarrow> (\<forall>cd\<in>set new. pending b' cd) \<and>
       prepared env (fieldsData b') (skips b) docID idx cjs new) \<and>
    (\<forall>m. r = Inl (Err m) \<longrightarrow> (\<exists>cj\<in>set cjs. bad_conj env (fieldsData b') cj) \<and> badConjBehavior b = ErrorBadConj)"
  using assms
proof (induction cjs arbitrary: idx b b' r)
  case Nil
  then show ?case by (auto intro: prepared_Nil)
next
  case (Cons cj cjs)
  show ?case
  proof (cases "NewConjID docID idx (CalcConjSize cj)")
    case (Inl e)
    then have "\<forall>m. e \<noteq> Err m" by (auto simp: NewConjID_def Let_def split: if_splits)
    then show ?thesis using Cons.prems Inl by (auto simp: Let_def)
  next
    case id: (Inr conjID)
    obtain b1 r1 where ix: "indexingConjunction env b conjID cj = (b1, r1)" by fastforce
    note H = indexingConjunction_inv [OF Cons.prems(1,2) id ix]
    have ext: "builder_ext b b1" "skips b1 = skips b" "badConjBehavior b1 = badConjBehavior b"
      using H(2) by (simp_all add: builder_ext_skips) (simp add: builder_ext_def)
    have run: "prepare_conjs env docID idx (cj # cjs) b =
        (case r1 of
           Inl (Panic m) \<Rightarrow> (b1, Inl (Panic m))
         | Inl (Err m) \<Rightarrow>
             (if badConjBehavior b = SkipBadConj then prepare_conjs env docID (idx + 1) cjs b1
              else if badConjBehavior b = ErrorBadConj then (b1, Inl (Err (''indexing conj fail:'' @ m)))
              else (b1, Inl (Panic (''indexing conj fail:'' @ m))))
         | Inr txs \<Rightarrow>
             (case prepare_conjs env docID (idx + 1) cjs b1 of
                (b2, Inl e) \<Rightarrow> (b2, Inl e)
              | (b2, Inr cds) \<Rightarrow>
                  (b2, Inr (\<lparr>cd_idx = idx, cd_incSize = CalcConjSize cj, cd_conjID = conjID, cd_fieldData = txs\<rparr> # cds))))"
      by (simp add: Let_def id ix ext split: sum.split gerr.split)
    obtain b2 r2 where rest: "prepare_conjs env docID (idx + 1) cjs b1 = (b2, r2)" by fastforce
    note IH = Cons.IH [OF H(1) Cons.prems(2) rest]
    have ext2: "builder_ext b1 b2" "map_of (fieldsData b1) \<subseteq>\<^sub>m map_of (fieldsData b2)"
      using IH by (auto simp: builder_ext_def)
    note step = builder_ext_trans [OF ext(1) ext2(1)]
    consider (panic) m where "r1 = Inl (Panic m)" | (err) m where "r1 = Inl (Err m)" | (ok) txs where "r1 = Inr txs"
      by (metis gerr.exhaust sum.exhaust)
    then show ?thesis
    proof cases
      case panic
      then show ?thesis using Cons.prems(3) H(1,2) unfolding run by auto
    next
      case err
      have bad: "bad_conj env (fieldsData b1) cj" by (rule H(4) [OF err])
      show ?thesis
      proof (cases "badConjBehavior b = SkipBadConj")
        case True
        then have "b' = b2" "r = r2" using Cons.prems(3) unfolding run err rest by simp_all
        moreover have "prepared env (fieldsData b2) (skips b) docID idx (cj # cjs) new" if "r2 = Inr new" for new
          using IH that True bad_conj_mono [OF ext2(2) bad] ext(2) by (auto intro: prepared_skip simp: skips_def)
        ultimately show ?thesis using IH step ext(3) by auto
      next
        case False
        then have "b' = b1 \<and> (\<forall>new. r \<noteq> Inr new) \<and> (\<forall>m. r = Inl (Err m) \<longrightarrow> badConjBehavior b = ErrorBadConj)"
          using Cons.prems(3) unfolding run err by (auto split: if_splits)
        then show ?thesis using H(1,2) bad by auto
      qed
    next
      case ok
      let ?cd = "\<lparr>cd_idx = idx, cd_incSize = CalcConjSize cj, cd_conjID = conjID, cd_fieldData = txs\<rparr>"
      have r: "b' = b2" "r = (case r2 of Inl e \<Rightarrow> Inl e | Inr cds \<Rightarrow> Inr (?cd # cds))"
        using Cons.prems(3) unfolding run ok rest by (auto split: sum.splits)
      have cd: "pending b2 ?cd" "conj_data env (fieldsData b2) docID idx cj ?cd"
        using H(3) [OF ok] pending_ext [OF _ ext2(1)] conj_data_mono [OF ext2(2)] by auto
      have "(\<forall>cd\<in>set new. pending b2 cd) \<and> prepared env (fieldsData b2) (skips b) docID idx (cj # cjs) new"
        if new: "r = Inr new" for new
      proof -
        obtain cds' where "r2 = Inr cds'" "new = ?cd # cds'" using new r(2) by (auto split: sum.splits)
        then show ?thesis using IH cd ext(2) by (auto intro: prepared_Cons)
      qed
      moreover have "r2 = Inl (Err m)" if "r = Inl (Err m)" for m using that r(2) by (simp split: sum.splits)
      ultimately show ?thesis using IH step ext(3) r(1) by auto
    qed
  qed
qed

subsection \<open>Committing\<close>

lemma all_txs_simps [simp]:
  "all_txs [] = {}" "all_txs (cds @ cds') = all_txs cds \<union> all_txs cds'" "all_txs [cd] = set (cd_fieldData cd)"
  by (auto simp: all_txs_def)

lemma index_wildcards_add [simp]: "set (index_wildcards (addWildcardEID index e)) = insert e (set (index_wildcards index))"
  by (cases index) auto

lemma commitConjIndexingData_inv:
  assumes inv: "builder_inv env b cds" and pend: "pending b cd"
  shows "\<exists>b'. commitConjIndexingData b cd = (b', Inr ()) \<and> builder_inv env b' (cds @ [cd]) \<and> builder_ext b b' \<and>
    fieldsData b' = fieldsData b"
proof -
  let ?e = "NewEntryID (cd_conjID cd) True"
  define i where "i = (if cd_incSize cd = 0 then addWildcardEID (indexer b) ?e else indexer b)"
  have le: "index_le (indexer b) i" by (auto simp: i_def index_le_def)
  have ii: "index_inv (env_lib env) (env_factory env) (fieldsData b) i (all_txs cds)"
    using inv index_inv_addWildcardEID by (auto simp: i_def builder_inv_def)
  have wf: "\<forall>tx\<in>set (cd_fieldData cd). tx_wf (fieldsData b) i tx"
    using pend tx_wf_mono [OF _ map_le_refl le] by (auto simp: pending_def)
  have w: "set (index_wildcards i) = {NewEntryID (cd_conjID c) True |c. c \<in> set (cds @ [cd]) \<and> cd_incSize c = 0}"
    using inv by (auto simp: i_def builder_inv_def)
  obtain i' where i': "commit_txs i (cd_fieldData cd) = (i', Inr ())" "index_le i i'"
    "index_inv (env_lib env) (env_factory env) (fieldsData b) i' (all_txs cds \<union> set (cd_fieldData cd))"
    "index_wildcards i' = index_wildcards i"
    using commit_txs_inv [OF ii wf] by blast
  have le': "index_le (indexer b) i'" by (rule index_le_trans [OF le i'(2)])
  have "builder_inv env (b\<lparr>indexer := i'\<rparr>) (cds @ [cd])"
    using inv pend i'(3,4) w cd_wf_mono [OF _ le'] by (simp add: builder_inv_def pending_def)
  moreover have "builder_ext b (b\<lparr>indexer := i'\<rparr>)" using le' by (simp add: builder_ext_def)
  ultimately show ?thesis using i'(1) by (simp add: commitConjIndexingData_def flip: i_def)
qed

lemma commit_conjs_inv:
  assumes "builder_inv env b cds" "\<forall>cd\<in>set new. pending b cd"
  shows "\<exists>b'. commit_conjs env False new b = (b', Inr []) \<and> builder_inv env b' (cds @ new) \<and> builder_ext b b' \<and>
    fieldsData b' = fieldsData b"
  using assms
proof (induction new arbitrary: b cds)
  case (Cons cd new)
  obtain b1 where b1: "commitConjIndexingData b cd = (b1, Inr ())" "builder_inv env b1 (cds @ [cd])" "builder_ext b b1"
    "fieldsData b1 = fieldsData b"
    using commitConjIndexingData_inv [OF Cons.prems(1)] Cons.prems(2) by auto
  have "\<forall>cd\<in>set new. pending b1 cd" using Cons.prems(2) pending_ext [OF _ b1(3)] by simp
  then obtain b' where "commit_conjs env False new b1 = (b', Inr [])" "builder_inv env b' ((cds @ [cd]) @ new)"
    "builder_ext b1 b'" "fieldsData b' = fieldsData b1"
    using Cons.IH [OF b1(2)] by blast
  then show ?case using b1(1,4) builder_ext_trans [OF b1(3)] by simp
qed simp

subsection \<open>Documents\<close>

definition doc_data ::
  "'c env \<Rightarrow> (BEField \<times> FieldDesc) list \<Rightarrow> bool \<Rightarrow> Document \<Rightarrow> ConjIndexingData list \<Rightarrow> bool"
where
  "doc_data env flds skip doc cds \<longleftrightarrow> prepared env flds skip (ID doc) 0 (doc_Cons doc) cds"

fun docs_data ::
  "'c env \<Rightarrow> (BEField \<times> FieldDesc) list \<Rightarrow> bool \<Rightarrow> Document list \<Rightarrow> ConjIndexingData list \<Rightarrow> bool"
where
  "docs_data env flds skip [] cds \<longleftrightarrow> cds = []"
| "docs_data env flds skip (doc # docs) cds \<longleftrightarrow>
     (\<exists>c1 c2. cds = c1 @ c2 \<and> doc_data env flds skip doc c1 \<and> docs_data env flds skip docs c2)"

lemma docs_data_append:
  "docs_data env flds skip d1 c1 \<Longrightarrow> docs_data env flds skip d2 c2 \<Longrightarrow> docs_data env flds skip (d1 @ d2) (c1 @ c2)"
  by (induction d1 arbitrary: c1) (auto, metis append_assoc)

lemma docs_data_mono:
  "docs_data env flds skip docs cds \<Longrightarrow> map_of flds \<subseteq>\<^sub>m map_of flds' \<Longrightarrow> docs_data env flds' skip docs cds"
  by (induction docs arbitrary: cds) (fastforce simp: doc_data_def intro: prepared_mono)+

lemma buildDocEntries_inv:
  assumes inv: "builder_inv env b cds" and ok: "factory_ok (env_factory env)" and nc: "docLevelCache b = None"
    and run: "buildDocEntries env b doc = (b', r)"
  shows "builder_ext b b' \<and>
    (case r of
       Inl e \<Rightarrow> builder_inv env b' cds \<and>
         (\<forall>m. e = Err m \<longrightarrow> badConjBehavior b = ErrorBadConj \<and> (\<exists>cj\<in>set (doc_Cons doc). bad_conj env (fieldsData b') cj))
     | Inr _ \<Rightarrow> \<exists>new. builder_inv env b' (cds @ new) \<and> doc_data env (fieldsData b') (skips b) doc new)"
proof (cases "length (doc_Cons doc) = 0 \<or> length (doc_Cons doc) > 0xFF")
  case True
  then have "b' = b" "\<exists>m. r = Inl (Panic m)" using run by (auto simp: buildDocEntries_def split: if_splits)
  then show ?thesis using inv by auto
next
  case False
  then have run': "build_fresh env b doc = (b', r)" using run nc by (auto simp: buildDocEntries_def)
  obtain b1 r1 where p: "prepare_conjs env (ID doc) 0 (doc_Cons doc) b = (b1, r1)" by fastforce
  note P = prepare_conjs_inv [OF inv ok p]
  show ?thesis
  proof (cases r1)
    case (Inl e)
    then have "b' = b1" "r = Inl e" using run' by (simp_all add: build_fresh_def p Let_def)
    then show ?thesis using P Inl by auto
  next
    case (Inr new)
    obtain b2 where b2: "commit_conjs env False new b1 = (b2, Inr [])" "builder_inv env b2 (cds @ new)" "builder_ext b1 b2"
      "fieldsData b2 = fieldsData b1"
      using commit_conjs_inv [of env b1 cds new] P Inr by blast
    have "docLevelCache b2 = None" using nc P b2(3) by (auto simp: builder_ext_def)
    then have "b' = b2" "r = Inr ()" using run' nc b2(1) by (simp_all add: build_fresh_def p Inr)
    moreover have "builder_ext b b2" using P builder_ext_trans [OF _ b2(3)] by blast
    ultimately show ?thesis using P Inr b2 by (auto simp: doc_data_def)
  qed
qed

lemma AddDocument_inv:
  assumes "builder_inv env b cds" "factory_ok (env_factory env)" "docLevelCache b = None"
    "AddDocument env b docs = (b', r)"
  shows "builder_ext b b' \<and>
    (\<exists>done new. builder_inv env b' (cds @ new) \<and> docs_data env (fieldsData b') (skips b) done new \<and>
       (case r of Inl _ \<Rightarrow> \<exists>rest. map Some done @ rest = docs | Inr _ \<Rightarrow> map Some done = docs))"
  using assms
proof (induction env b docs arbitrary: cds b' r rule: AddDocument.induct)
  case (1 env b)
  then have "builder_inv env b' (cds @ [])" "docs_data env (fieldsData b') (skips b) [] []" "r = Inr ()" "b' = b" by auto
  then show ?case by fastforce
next
  case (2 env b docs)
  then have "builder_inv env b' (cds @ [])" "docs_data env (fieldsData b') (skips b) [] []" "\<exists>e. r = Inl e" "b' = b" by auto
  then show ?case by fastforce
next
  case (3 env b doc docs)
  have stop: ?case if "builder_ext b b'" "builder_inv env b' cds" "r = Inl e" for e
    using that by (intro conjI exI [of _ "[]"]) auto
  show ?case
  proof (cases "validDocument doc")
    case (Inl e)
    then have "b' = b" "r = Inl e" using 3(5) by simp_all
    then show ?thesis using 3(2) stop by simp
  next
    case v: (Inr u)
    obtain b1 r1 where bd: "buildDocEntries env b doc = (b1, r1)" by fastforce
    note B = buildDocEntries_inv [OF 3(2-4) bd]
    show ?thesis
    proof (cases r1)
      case (Inl e)
      then show ?thesis using 3(5) B by (intro stop) (auto simp: v bd)
    next
      case (Inr x)
      obtain new1 where n1: "builder_inv env b1 (cds @ new1)" "doc_data env (fieldsData b1) (skips b) doc new1"
        and e1: "builder_ext b b1" using B Inr by auto
      have nc: "docLevelCache b1 = None" using 3(4) e1 by (auto simp: builder_ext_def)
      have run: "AddDocument env b1 docs = (b', r)" using 3(5) by (simp add: v bd Inr)
      obtain dn new where IH: "builder_ext b1 b'" "builder_inv env b' ((cds @ new1) @ new)"
        "docs_data env (fieldsData b') (skips b1) dn new"
        "case r of Inl _ \<Rightarrow> \<exists>rest. map Some dn @ rest = docs | Inr _ \<Rightarrow> map Some dn = docs"
        using 3(1) [OF v bd [symmetric] Inr n1(1) 3(3) nc run] by blast
      have "doc_data env (fieldsData b') (skips b) doc new1"
        using n1(2) IH(1) prepared_mono by (auto simp: doc_data_def builder_ext_def)
      then have "docs_data env (fieldsData b') (skips b) (doc # dn) (new1 @ new)"
        using IH(3) builder_ext_skips [OF e1] by auto
      then show ?thesis using IH(2,4) builder_ext_trans [OF e1 IH(1)]
        by (intro conjI exI [of _ "doc # dn"] exI [of _ "new1 @ new"]) (auto split: sum.splits)
    qed
  qed
qed

subsection \<open>Properties\<close>


end
