(* ===== verification/IndexCorrect.thy ===== *)
theory IndexCorrect
  imports BuilderCorrect
begin

text \<open>
  The index that \<open>BuildIndex\<close> returns. Compiling succeeds and keeps what the holders hold, so
  the posting sets of a query are the committed entries it hits (\<open>built\<close>). From this,
  retrieval on either index collects exactly the satisfied conjunctions of the log.
\<close>

subsection \<open>Compiling\<close>

definition compiled_from :: "codec \<Rightarrow> EntriesHolder \<Rightarrow> EntriesHolder \<Rightarrow> bool" where
  "compiled_from lib h h' \<longleftrightarrow> eh_ready h' \<and> eh_blank h' = eh_blank h \<and> eh_posted lib h' = eh_posted lib h"

definition container_compiled :: "codec \<Rightarrow> EntriesContainer \<Rightarrow> EntriesContainer \<Rightarrow> bool" where
  "container_compiled lib c c' \<longleftrightarrow>
     (\<forall>desc. rel_option (compiled_from lib) (getFieldHolder c desc) (getFieldHolder c' desc))"

lemma container_compiledD:
  assumes "container_compiled lib c c'" "getFieldHolder c' desc = Some h'"
  shows "\<exists>h. getFieldHolder c desc = Some h \<and> compiled_from lib h h'"
proof -
  have "rel_option (compiled_from lib) (getFieldHolder c desc) (getFieldHolder c' desc)"
    using assms(1) by (simp add: container_compiled_def)
  then show ?thesis using assms(2) by (auto simp: option_rel_Some2)
qed

lemma CompileEntries_ok:
  assumes "eh_building h"
  obtains h' where "CompileEntries h = Inr h'" "compiled_from lib h h'"
  using eh.compile_ok [OF assms, of lib] by (auto simp: compiled_from_def)

lemma compile_holders_ok:
  assumes "\<forall>(f, h)\<in>set hs. eh_building h"
  shows "\<exists>hs'. compile_holders hs = Inr hs' \<and>
    (\<forall>f. rel_option (compiled_from lib) (map_of hs f) (map_of hs' f))"
  using assms
proof (induction hs)
  case (Cons p hs)
  obtain f h where p: "p = (f, h)" by fastforce
  obtain h' where h': "CompileEntries h = Inr h'" "compiled_from lib h h'"
    using CompileEntries_ok [of h lib] Cons.prems p by auto
  obtain hs' where "compile_holders hs = Inr hs'" "\<forall>f. rel_option (compiled_from lib) (map_of hs f) (map_of hs' f)"
    using Cons by auto
  then show ?case using h' by (simp add: p)
qed simp

lemma compileEntries_ok:
  assumes "defaultHolder c = Some h" "eh_building h" "\<forall>(f, h)\<in>set (fieldHolder c). eh_building h"
  shows "\<exists>c'. compileEntries c = Inr c' \<and> container_compiled lib c c'"
proof -
  obtain h' where "CompileEntries h = Inr h'" "compiled_from lib h h'" using CompileEntries_ok [OF assms(2)] .
  moreover obtain hs where "compile_holders (fieldHolder c) = Inr hs"
    "\<forall>f. rel_option (compiled_from lib) (map_of (fieldHolder c) f) (map_of hs f)"
    using compile_holders_ok [OF assms(3)] by blast
  ultimately show ?thesis using assms(1)
    by (simp add: compileEntries_def container_compiled_def getFieldHolder_def)
qed

lemma container_building:
  assumes inv: "index_inv lib factory flds index txs" and k: "has_container index k"
  shows "\<exists>h. defaultHolder (container_at index k) = Some h \<and> eh_building h"
    "\<forall>(f, h)\<in>set (fieldHolder (container_at index k)). eh_building h"
proof -
  obtain h where h: "defaultHolder (container_at index k) = Some h" using inv k by (auto simp: index_inv_def)
  then show "\<exists>h. defaultHolder (container_at index k) = Some h \<and> eh_building h"
    using index_invD(1) [OF inv, of "RefDefault k"] k by simp
  have "eh_building h" if "(f, h) \<in> set (fieldHolder (container_at index k))" for f h
  proof -
    have "map_of (fieldHolder (container_at index k)) f = Some h"
      using that inv k by (intro map_of_is_SomeI) (auto simp: index_inv_def)
    then show ?thesis using index_invD(1) [OF inv, of "RefField k f"] k by simp
  qed
  then show "\<forall>(f, h)\<in>set (fieldHolder (container_at index k)). eh_building h" by auto
qed

fun index_fields :: "BEIndex \<Rightarrow> (BEField \<times> FieldDesc) list" where
  "index_fields (KGroups bi) = ib_fieldsData bi"
| "index_fields (Compact bi) = ib_fieldsData bi"

lemma compileIndexer_ok:
  assumes inv: "index_inv lib factory flds index txs"
  shows "\<exists>index'. compileIndexer (setFieldDesc index flds') = Inr index' \<and>
    is_KGroups index' = is_KGroups index \<and> has_container index' = has_container index \<and>
    index_fields index' = flds' \<and> index_wildcards index' = sort (index_wildcards index) \<and>
    (\<forall>k. has_container index k \<longrightarrow> container_compiled lib (container_at index k) (container_at index' k))"
proof -
  have ok: "\<exists>c'. compileEntries (container_at index k) = Inr c' \<and> container_compiled lib (container_at index k) c'"
    if k: "has_container index k" for k
    using container_building [OF inv k] compileEntries_ok by blast
  have w: "sort_wildcards es = sort es" for es by (simp add: sort_wildcards_def)
  show ?thesis
  proof (cases index)
    case (KGroups bi)
    have "\<exists>c'. compileEntries c = Inr c'" if "c \<in> set (kSizeContainers bi)" for c
      using that ok KGroups by (auto simp: in_set_conv_nth)
    then obtain cs where cs: "map_res compileEntries (kSizeContainers bi) = Inr cs" using map_res_total by blast
    then have l: "length cs = length (kSizeContainers bi)"
      and n: "\<And>k. k < length cs \<Longrightarrow> compileEntries (kSizeContainers bi ! k) = Inr (cs ! k)"
      by (auto simp: map_res_Inr list_all2_conv_all_nth)
    have "container_compiled lib (kSizeContainers bi ! k) (cs ! k)" if "k < length cs" for k
      using ok [of k] n [OF that] that l KGroups by auto
    then show ?thesis using KGroups cs l by (simp add: w fun_eq_iff)
  next
    case (Compact bi)
    then show ?thesis using ok [of 0] by (auto simp: w fun_eq_iff)
  qed
qed

subsection \<open>The posting sets of a built index\<close>

text \<open>A query value hits a transaction: judged by the (empty) holder of the registry.\<close>

definition tx_hit :: "'c env \<Rightarrow> FieldIndexingData \<Rightarrow> Values \<Rightarrow> bool" where
  "tx_hit env tx v \<longleftrightarrow>
     (\<exists>h d. NewEntriesHolder (env_factory env) (Container (tx_field tx)) = Some h \<and> tx_Data tx = Some d \<and>
        eh_hits (env_lib env) h (tx_field tx) d v)"

definition posts :: "'c env \<Rightarrow> ConjIndexingData list \<Rightarrow> BEField \<Rightarrow> Values \<Rightarrow> EntryID set" where
  "posts env cds f v =
     {tx_EID tx |tx. tx \<in> all_txs cds \<and> fd_Field (tx_field tx) = f \<and> tx_hit env tx v}"

definition in_container :: "BEIndex \<Rightarrow> nat \<Rightarrow> ConjIndexingData list \<Rightarrow> ConjIndexingData list" where
  "in_container index k cds = filter (\<lambda>cd. is_KGroups index \<longrightarrow> nat (cd_incSize cd) = k) cds"

lemma same_holder_ref_for:
  assumes "same_holder index (ref_for j d) (ref_for k desc)"
  shows "is_KGroups index \<longrightarrow> j = k"
    and "Container d = HolderNameDefault \<longleftrightarrow> Container desc = HolderNameDefault"
    and "Container desc \<noteq> HolderNameDefault \<Longrightarrow> fd_Field d = fd_Field desc"
  using assms by (auto simp: ref_for_def split: if_splits)

lemma same_holder_refl_for: "(is_KGroups index \<longrightarrow> j = k) \<Longrightarrow> same_holder index (ref_for j desc) (ref_for k desc)"
  by (auto simp: ref_for_def)

text \<open>Only transactions of the queried field meet the queried slot of a holder.\<close>

lemma slot_field:
  assumes flds: "fields_ok flds" "map_of flds f = Some desc" "map_of flds (fd_Field d) = Some d"
    and same: "same_holder index (ref_for j d) (ref_for k desc)"
    and fac: "factory_ok factory" "NewEntriesHolder factory (Container desc) = Some (eh_blank h)"
    and slot: "eh_slot h desc = eh_slot h d"
  shows "d = desc"
proof (cases "Container desc = HolderNameDefault")
  case True
  then obtain g where "eh_blank h = HDefault g" using fac by (auto simp: factory_ok_def)
  then obtain g' where "h = HDefault g'" by (cases h) auto
  then have "fd_ID d = fd_ID desc" using slot by (simp add: dh_slot_def)
  then show ?thesis using fields_ok_ID [OF flds(1,3,2)] by simp
next
  case False
  then have "fd_Field d = fd_Field desc" using same_holder_ref_for(3) [OF same] by simp
  then show ?thesis using flds fields_okD(1) [OF flds(1,2)] by simp
qed

lemma holder_factory:
  assumes inv: "builder_inv env b cds" and k: "has_container (indexer b) k"
    and desc: "map_of (fieldsData b) f = Some desc" and h: "getFieldHolder (container_at (indexer b) k) desc = Some h"
  shows "NewEntriesHolder (env_factory env) (Container desc) = Some (eh_blank h)"
proof -
  have "holder_origin (env_factory env) (fieldsData b) (ref_for k desc) h"
    using inv k h by (intro index_invD(2)) (auto simp: builder_inv_def deref_ref_for)
  moreover have "fd_Field desc = f" using inv desc fields_okD(1) by (auto simp: builder_inv_def)
  ultimately show ?thesis using desc by (auto simp: holder_origin_def ref_for_def split: if_splits)
qed

lemma field_posts_built:
  assumes inv: "builder_inv env b cds" and ok: "factory_ok (env_factory env)"
    and k: "has_container (indexer b) k" and c: "container_compiled (env_lib env) (container_at (indexer b) k) c"
  shows "field_posts (env_lib env) (fieldsData b) c (f, v) = posts env (in_container (indexer b) k cds) f v"
proof (cases "map_of (fieldsData b) f")
  case None
  then have "fd_Field (tx_field tx) \<noteq> f" if "tx \<in> all_txs cds" for tx
    using inv that by (auto simp: builder_inv_def index_inv_def tx_wf_def)
  then have "posts env (in_container (indexer b) k cds) f v = {}"
    by (auto simp: posts_def in_container_def all_txs_def)
  then show ?thesis using None by (simp add: field_posts_def)
next
  case (Some desc)
  let ?i = "indexer b" and ?lib = "env_lib env"
  have ii: "index_inv ?lib (env_factory env) (fieldsData b) ?i (all_txs cds)" and fo: "fields_ok (fieldsData b)"
    and cw: "\<forall>cd\<in>set cds. cd_wf ?i cd"
    using inv by (auto simp: builder_inv_def)
  have fd: "fd_Field desc = f" using fields_okD(1) [OF fo Some] .
  have wf: "map_of (fieldsData b) (fd_Field (tx_field tx)) = Some (tx_field tx)"
    "tx_holder tx = ref_for (ref_container (tx_holder tx)) (tx_field tx)"
    "\<exists>h. deref ?i (tx_holder tx) = Some h" if "tx \<in> all_txs cds" for tx
    using ii that by (auto simp: index_inv_def tx_wf_def)
  have ic: "tx \<in> all_txs (in_container ?i k cds) \<longleftrightarrow>
      tx \<in> all_txs cds \<and> (is_KGroups ?i \<longrightarrow> ref_container (tx_holder tx) = k)" for tx
    using cw by (auto simp: all_txs_def in_container_def cd_wf_def)
  have rel: "rel_option (compiled_from ?lib) (getFieldHolder (container_at ?i k) desc) (getFieldHolder c desc)"
    using c by (simp add: container_compiled_def)
  have field: "tx_field tx = desc" if "tx \<in> all_txs cds" "fd_Field (tx_field tx) = f" for tx
    using wf(1) [OF that(1)] that(2) Some by simp
  show ?thesis
  proof (cases "getFieldHolder (container_at ?i k) desc")
    case None
    have "\<not> (tx \<in> all_txs (in_container ?i k cds) \<and> fd_Field (tx_field tx) = f)" for tx
    proof
      assume tx: "tx \<in> all_txs (in_container ?i k cds) \<and> fd_Field (tx_field tx) = f"
      then have t: "tx \<in> all_txs cds" "is_KGroups ?i \<longrightarrow> ref_container (tx_holder tx) = k" using ic by auto
      have "same_holder ?i (tx_holder tx) (ref_for k desc)"
        using wf(2) [OF t(1)] field [OF t(1)] tx t(2) same_holder_refl_for by metis
      then have "deref ?i (tx_holder tx) = None" using deref_cong None by (metis deref_ref_for)
      then show False using wf(3) [OF t(1)] by simp
    qed
    then have "posts env (in_container ?i k cds) f v = {}" by (auto simp: posts_def)
    moreover have "getFieldHolder c desc = None" using rel None by simp
    ultimately show ?thesis using Some by (simp add: field_posts_def)
  next
    case h: (Some h)
    then obtain h' where h': "getFieldHolder c desc = Some h'" "compiled_from ?lib h h'"
      using rel by (auto simp: option_rel_Some1)
    have r: "has_container ?i (ref_container (ref_for k desc))" "deref ?i (ref_for k desc) = Some h"
      using k h by (simp_all add: deref_ref_for)
    note org = holder_factory [OF inv k Some h]
    have log: "eh_posted ?lib h desc v =
        {tx_EID tx |tx. tx \<in> all_txs cds \<and> same_holder ?i (tx_holder tx) (ref_for k desc) \<and>
           tx_hits (eh_slot h) (eh_hits ?lib h) desc tx v}"
      using index_invD(3) [OF ii r] by (simp add: holder_log_def conj_assoc)
    have "(tx \<in> all_txs cds \<and> same_holder ?i (tx_holder tx) (ref_for k desc) \<and>
           tx_hits (eh_slot h) (eh_hits ?lib h) desc tx v) \<longleftrightarrow>
        (tx \<in> all_txs (in_container ?i k cds) \<and> fd_Field (tx_field tx) = f \<and> tx_hit env tx v)" for tx
    proof
      assume L: "tx \<in> all_txs cds \<and> same_holder ?i (tx_holder tx) (ref_for k desc) \<and>
           tx_hits (eh_slot h) (eh_hits ?lib h) desc tx v"
      then have same: "same_holder ?i (ref_for (ref_container (tx_holder tx)) (tx_field tx)) (ref_for k desc)"
        using wf(2) by metis
      have "eh_slot h desc = eh_slot h (tx_field tx)" using L by (simp add: tx_hits_def)
      then have "tx_field tx = desc"
        using slot_field [OF fo Some wf(1) same ok org] L by simp
      then show "tx \<in> all_txs (in_container ?i k cds) \<and> fd_Field (tx_field tx) = f \<and> tx_hit env tx v"
        using L same_holder_ref_for(1) [OF same] ic fd org
        by (auto simp: tx_hits_def tx_hit_def eh.hits_blank)
    next
      assume R: "tx \<in> all_txs (in_container ?i k cds) \<and> fd_Field (tx_field tx) = f \<and> tx_hit env tx v"
      then have t: "tx \<in> all_txs cds" "is_KGroups ?i \<longrightarrow> ref_container (tx_holder tx) = k" using ic by auto
      have td: "tx_field tx = desc" using field [OF t(1)] R by simp
      have "same_holder ?i (tx_holder tx) (ref_for k desc)"
        using wf(2) [OF t(1)] td t(2) same_holder_refl_for by metis
      then show "tx \<in> all_txs cds \<and> same_holder ?i (tx_holder tx) (ref_for k desc) \<and>
           tx_hits (eh_slot h) (eh_hits ?lib h) desc tx v"
        using R t(1) td org by (auto simp: tx_hits_def tx_hit_def eh.hits_blank)
    qed
    then have "eh_posted ?lib h desc v = posts env (in_container ?i k cds) f v" unfolding log posts_def by simp
    then show ?thesis using Some h' by (simp add: field_posts_def compiled_from_def)
  qed
qed

definition wildcard_set :: "ConjIndexingData list \<Rightarrow> EntryID set" where
  "wildcard_set cds = {NewEntryID (cd_conjID cd) True |cd. cd \<in> set cds \<and> cd_incSize cd = 0}"

definition built ::
  "'c env \<Rightarrow> (BEField \<times> FieldDesc) list \<Rightarrow> BEIndex \<Rightarrow> ConjIndexingData list \<Rightarrow> bool"
where
  "built env flds index cds \<longleftrightarrow>
     index_fields index = flds \<and> wildcards_ok (index_wildcards index) \<and>
     set (index_wildcards index) = wildcard_set cds \<and> (\<forall>cd\<in>set cds. cd_wf index cd) \<and>
     (\<forall>k. has_container index k \<longrightarrow>
        container_ready (container_at index k) \<and>
        (\<forall>f desc h. map_of flds f = Some desc \<longrightarrow> getFieldHolder (container_at index k) desc = Some h \<longrightarrow>
           NewEntriesHolder (env_factory env) (Container desc) = Some (eh_blank h)) \<and>
        (\<forall>f v. field_posts (env_lib env) flds (container_at index k) (f, v) = posts env (in_container index k cds) f v))"

lemma BuildIndex_built:
  assumes inv: "builder_inv env b cds" and ok: "factory_ok (env_factory env)"
  shows "\<exists>index. BuildIndex b = (b\<lparr>indexer := index\<rparr>, Inr index) \<and> built env (fieldsData b) index cds \<and>
    is_KGroups index = is_KGroups (indexer b)"
proof -
  have ii: "index_inv (env_lib env) (env_factory env) (fieldsData b) (indexer b) (all_txs cds)"
    using inv by (simp add: builder_inv_def)
  obtain index where i: "compileIndexer (setFieldDesc (indexer b) (fieldsData b)) = Inr index"
    "is_KGroups index = is_KGroups (indexer b)" "has_container index = has_container (indexer b)"
    "index_fields index = fieldsData b" "index_wildcards index = sort (index_wildcards (indexer b))"
    and c: "\<And>k. has_container (indexer b) k \<Longrightarrow>
      container_compiled (env_lib env) (container_at (indexer b) k) (container_at index k)"
    using compileIndexer_ok [OF ii, of "fieldsData b"] by blast
  have "valid_eid e" if "e \<in> wildcard_set cds" for e
    using that inv valid_NewEntryID by (auto simp: wildcard_set_def builder_inv_def cd_wf_def)
  then have w: "wildcards_ok (index_wildcards index)" "set (index_wildcards index) = wildcard_set cds"
    using inv i(5) by (auto simp: wildcards_ok_def builder_inv_def wildcard_set_def)
  have cd: "\<forall>cd\<in>set cds. cd_wf index cd" using inv i(3) by (simp add: builder_inv_def cd_wf_def)
  have ready: "container_ready (container_at index k)" if "has_container index k" for k
    using container_compiledD [OF c] that i(3) by (fastforce simp: container_ready_def compiled_from_def)
  have org: "NewEntriesHolder (env_factory env) (Container desc) = Some (eh_blank h)"
    if hyps: "has_container index k" "map_of (fieldsData b) f = Some desc" "getFieldHolder (container_at index k) desc = Some h"
    for k f desc h
  proof -
    obtain g where g: "getFieldHolder (container_at (indexer b) k) desc = Some g" "compiled_from (env_lib env) g h"
      using container_compiledD [OF c hyps(3)] hyps(1) i(3) by auto
    then show ?thesis using holder_factory [OF inv _ hyps(2) g(1)] hyps(1) i(3) by (simp add: compiled_from_def)
  qed
  have "in_container index = in_container (indexer b)" by (simp add: in_container_def i(2) fun_eq_iff)
  then have "field_posts (env_lib env) (fieldsData b) (container_at index k) (f, v) = posts env (in_container index k cds) f v"
    if "has_container index k" for k f v
    using field_posts_built [OF inv ok _ c] that i(3) by simp
  then have "built env (fieldsData b) index cds"
    unfolding built_def using i(4) w cd ready org by blast
  then show ?thesis using i(1,2) by (simp add: BuildIndex_def)
qed

subsection \<open>Satisfied conjunctions\<close>

definition cd_hit :: "'c env \<Rightarrow> ConjIndexingData \<Rightarrow> bool \<Rightarrow> BEField \<times> Values \<Rightarrow> bool" where
  "cd_hit env cd incl = (\<lambda>(f, v). \<exists>tx\<in>set (cd_fieldData cd).
     fd_Field (tx_field tx) = f \<and> tx_EID tx = NewEntryID (cd_conjID cd) incl \<and> tx_hit env tx v)"

definition cd_sat :: "'c env \<Rightarrow> ConjIndexingData \<Rightarrow> Assignments \<Rightarrow> bool" where
  "cd_sat env cd ass \<longleftrightarrow>
     (\<forall>a\<in>set ass. \<not> cd_hit env cd False a) \<and> cd_incSize cd \<le> int (length (filter (cd_hit env cd True) ass))"

text \<open>Conjunction ids tell the logged conjunctions apart.\<close>

definition ids_distinct :: "ConjIndexingData list \<Rightarrow> bool" where
  "ids_distinct cds \<longleftrightarrow> inj_on cd_conjID (set cds)"

lemma posts_conj:
  assumes wf: "\<forall>cd\<in>set cds. cd_wf index cd" and ids: "ids_distinct cds" and cd: "cd \<in> set cds"
  shows "has_conj (cd_conjID cd) (posts env cds f v) \<longleftrightarrow> cd_hit env cd True (f, v) \<or> cd_hit env cd False (f, v)"
    and "has_excl (cd_conjID cd) (posts env cds f v) \<longleftrightarrow> cd_hit env cd False (f, v)"
proof -
  have c: "uint (cd_conjID cd') < 2 ^ 60" if "cd' \<in> set cds" for cd' using wf that by (simp add: cd_wf_def)
  have eid: "\<exists>incl. tx_EID tx = NewEntryID (cd_conjID cd') incl" if "cd' \<in> set cds" "tx \<in> set (cd_fieldData cd')" for cd' tx
    using wf that by (auto simp: cd_wf_def)
  have e: "e \<in> posts env cds f v \<and> GetConjID e = cd_conjID cd \<longleftrightarrow>
      (\<exists>incl. e = NewEntryID (cd_conjID cd) incl \<and> cd_hit env cd incl (f, v))" for e
  proof
    assume "e \<in> posts env cds f v \<and> GetConjID e = cd_conjID cd"
    then obtain tx cd' where t: "e = tx_EID tx" "cd' \<in> set cds" "tx \<in> set (cd_fieldData cd')"
      "fd_Field (tx_field tx) = f" "tx_hit env tx v" "GetConjID e = cd_conjID cd"
      by (auto simp: posts_def all_txs_def)
    obtain incl where i: "tx_EID tx = NewEntryID (cd_conjID cd') incl" using eid t(2,3) by blast
    then have "cd_conjID cd' = cd_conjID cd" using GetConjID_NewEntryID [OF c [OF t(2)]] t(1,6) by simp
    then have "cd' = cd" using ids cd t(2) by (auto simp: ids_distinct_def inj_on_def)
    then show "\<exists>incl. e = NewEntryID (cd_conjID cd) incl \<and> cd_hit env cd incl (f, v)"
      using i t by (auto simp: cd_hit_def)
  next
    assume "\<exists>incl. e = NewEntryID (cd_conjID cd) incl \<and> cd_hit env cd incl (f, v)"
    then obtain incl tx where t: "e = NewEntryID (cd_conjID cd) incl" "tx \<in> set (cd_fieldData cd)"
      "fd_Field (tx_field tx) = f" "tx_EID tx = e" "tx_hit env tx v" by (auto simp: cd_hit_def)
    have "tx \<in> all_txs cds" using t(2) cd by (auto simp: all_txs_def)
    then have "e \<in> posts env cds f v" unfolding posts_def mem_Collect_eq using t by (intro exI [of _ tx]) simp
    then show "e \<in> posts env cds f v \<and> GetConjID e = cd_conjID cd"
      using GetConjID_NewEntryID [OF c [OF cd]] t(1) by simp
  qed
  have x: "IsExclude (NewEntryID (cd_conjID cd) incl) \<longleftrightarrow> \<not> incl" for incl
    using IsInclude_NewEntryID [OF c [OF cd]] by (simp add: IsExclude_iff)
  have "has_conj (cd_conjID cd) (posts env cds f v) \<longleftrightarrow> (\<exists>incl. cd_hit env cd incl (f, v))"
    unfolding has_conj_def using e by blast
  then show "has_conj (cd_conjID cd) (posts env cds f v) \<longleftrightarrow> cd_hit env cd True (f, v) \<or> cd_hit env cd False (f, v)"
    by (metis (full_types))
  show "has_excl (cd_conjID cd) (posts env cds f v) \<longleftrightarrow> cd_hit env cd False (f, v)"
    unfolding has_excl_def using e x by (metis (full_types))
qed

lemma has_conj_posts:
  assumes "\<forall>cd\<in>set cds. cd_wf index cd" "has_conj c (posts env cds f v)"
  shows "\<exists>cd\<in>set cds. c = cd_conjID cd"
  using assms GetConjID_NewEntryID by (fastforce simp: has_conj_def posts_def all_txs_def cd_wf_def)

lemma has_conj_wildcards:
  assumes "\<forall>cd\<in>set cds. cd_wf index cd" "ids_distinct cds"
  shows "has_conj c (wildcard_set cds) \<longleftrightarrow> (\<exists>cd\<in>set cds. c = cd_conjID cd \<and> cd_incSize cd = 0)"
    and "\<not> has_excl c (wildcard_set cds)"
  using assms GetConjID_NewEntryID IsInclude_NewEntryID
  by (fastforce simp: has_conj_def has_excl_def wildcard_set_def cd_wf_def IsExclude_iff)+

lemma conj_matched_posts:
  assumes wf: "\<forall>cd\<in>set cds. cd_wf index cd" and ids: "ids_distinct cds"
    and need: "\<forall>cd\<in>set cds. need (cd_conjID cd) = nat (max 1 (cd_incSize cd))" "1 \<le> need c"
  shows "conj_matched need (wildcard_set cds # map (\<lambda>(f, v). posts env cds f v) ass) c \<longleftrightarrow>
    (\<exists>cd\<in>set cds. c = cd_conjID cd \<and> cd_sat env cd ass)"
proof -
  let ?Ss = "map (\<lambda>(f, v). posts env cds f v) ass"
  have excl: "(\<forall>S\<in>set (wildcard_set cds # ?Ss). \<not> has_excl (cd_conjID cd) S) \<longleftrightarrow> (\<forall>a\<in>set ass. \<not> cd_hit env cd False a)"
    if "cd \<in> set cds" for cd
    by (auto simp: posts_conj(2) [OF wf ids that] has_conj_wildcards(2) [OF wf ids])
  have count: "length (filter (has_conj (cd_conjID cd)) (wildcard_set cds # ?Ss)) =
      (if cd_incSize cd = 0 then 1 else 0) + length (filter (cd_hit env cd True) ass)"
    if cd: "cd \<in> set cds" and no: "\<forall>a\<in>set ass. \<not> cd_hit env cd False a" for cd
  proof -
    have "has_conj (cd_conjID cd) (posts env cds f v) \<longleftrightarrow> cd_hit env cd True (f, v)" if "(f, v) \<in> set ass" for f v
      using posts_conj(1) [OF wf ids cd] no that by blast
    then have "filter (\<lambda>(f, v). has_conj (cd_conjID cd) (posts env cds f v)) ass = filter (cd_hit env cd True) ass"
      by (intro filter_cong) auto
    moreover have "has_conj (cd_conjID cd) (wildcard_set cds) \<longleftrightarrow> cd_incSize cd = 0"
      using has_conj_wildcards(1) [OF wf ids] cd ids by (auto simp: ids_distinct_def inj_on_def)
    ultimately show ?thesis by (simp add: filter_map comp_def case_prod_unfold)
  qed
  show ?thesis
  proof
    assume m: "conj_matched need (wildcard_set cds # ?Ss) c"
    have "filter (has_conj c) (wildcard_set cds # ?Ss) \<noteq> []"
      using m need(2) by (auto simp: conj_matched_def simp del: filter.simps)
    then have "\<exists>S\<in>set (wildcard_set cds # ?Ss). has_conj c S" by (metis filter_False)
    then obtain cd where cd: "cd \<in> set cds" "c = cd_conjID cd"
      by (auto simp: has_conj_wildcards(1) [OF wf ids] dest: has_conj_posts [OF wf])
    have no: "\<forall>a\<in>set ass. \<not> cd_hit env cd False a" using m excl [OF cd(1)] cd(2) by (auto simp: conj_matched_def)
    have "need c \<le> length (filter (has_conj c) (wildcard_set cds # ?Ss))" using m by (simp only: conj_matched_def)
    then have "cd_incSize cd \<le> int (length (filter (cd_hit env cd True) ass))"
      unfolding cd(2) count [OF cd(1) no] using need(1) cd(1) by (auto split: if_splits)
    then show "\<exists>cd\<in>set cds. c = cd_conjID cd \<and> cd_sat env cd ass" using cd no by (auto simp: cd_sat_def)
  next
    assume "\<exists>cd\<in>set cds. c = cd_conjID cd \<and> cd_sat env cd ass"
    then obtain cd where cd: "cd \<in> set cds" "c = cd_conjID cd" and no: "\<forall>a\<in>set ass. \<not> cd_hit env cd False a"
      and sz: "cd_incSize cd \<le> int (length (filter (cd_hit env cd True) ass))" by (auto simp: cd_sat_def)
    have "0 \<le> cd_incSize cd" using wf cd(1) by (simp add: cd_wf_def)
    then have "need c \<le> length (filter (has_conj c) (wildcard_set cds # ?Ss))"
      unfolding cd(2) count [OF cd(1) no] using need(1) cd(1) sz by (auto split: if_splits)
    then show "conj_matched need (wildcard_set cds # ?Ss) c"
      using excl [OF cd(1)] no cd(2) by (simp only: conj_matched_def)
  qed
qed

lemma conj_matched_Cons_empty: "conj_matched need ({} # Ss) = conj_matched need Ss"
  by (simp add: fun_eq_iff conj_matched_def has_conj_def has_excl_def)

subsection \<open>Retrieval from a built index\<close>

text \<open>
  The holders can parse the values of a query. Holders answer by their configuration, which is
  that of the registry.
\<close>

definition query_ok :: "'c env \<Rightarrow> (BEField \<times> FieldDesc) list \<Rightarrow> Assignments \<Rightarrow> bool" where
  "query_ok env flds ass \<longleftrightarrow>
     (\<forall>(f, v)\<in>set ass. \<forall>desc h. map_of flds f = Some desc \<longrightarrow>
        NewEntriesHolder (env_factory env) (Container desc) = Some h \<longrightarrow> eh_answers (env_lib env) h desc v)"

lemma query_ok_answerable:
  assumes "built env flds index cds" "query_ok env flds ass" "has_container index k"
  shows "answerable (env_lib env) flds (container_at index k) ass"
  unfolding answerable_def
proof (intro allI impI)
  fix f v desc h
  assume a: "(f, v) \<in> set ass" "map_of flds f = Some desc" "getFieldHolder (container_at index k) desc = Some h"
  then have "NewEntriesHolder (env_factory env) (Container desc) = Some (eh_blank h)" and r: "eh_ready h"
    using assms(1,3) by (auto simp: built_def container_ready_def)
  then have "eh_answers (env_lib env) (eh_blank h) desc v" using assms(2) a by (auto simp: query_ok_def)
  then have "eh_answers (env_lib env) h desc v" by (simp add: eh.answers_blank)
  then show "\<exists>cs. GetEntries (env_lib env) h desc v = Inr cs" using eh.get_answers r by blast
qed

definition sat_ids :: "'c env \<Rightarrow> ConjIndexingData list \<Rightarrow> Assignments \<Rightarrow> ConjID set" where
  "sat_ids env cds ass = {cd_conjID cd |cd. cd \<in> set cds \<and> cd_sat env cd ass}"

lemma in_container_sub:
  assumes "built env flds index cds" "ids_distinct cds"
  shows "\<forall>cd\<in>set (in_container index k cds). cd_wf index cd" "ids_distinct (in_container index k cds)"
  using assms by (auto simp: built_def in_container_def ids_distinct_def intro: inj_on_subset)

lemma built_posts:
  assumes "built env flds index cds" "has_container index k"
  shows "map (field_posts (env_lib env) (index_fields index) (container_at index k)) ass =
    map (\<lambda>(f, v). posts env (in_container index k cds) f v) ass"
  using assms by (intro map_cong) (auto simp: built_def)

lemma Compact_matched:
  assumes b: "built env flds (Compact bi) cds" and ids: "ids_distinct cds"
  shows "{c. conj_matched compact_need (compact_sets (env_lib env) bi ass) c} = sat_ids env cds ass"
proof -
  have "in_container (Compact bi) 0 cds = cds" by (simp add: in_container_def)
  then have "compact_sets (env_lib env) bi ass = wildcard_set cds # map (\<lambda>(f, v). posts env cds f v) ass"
    using b built_posts [OF b, of 0 ass] by (simp add: compact_sets_def built_def)
  moreover have "compact_need (cd_conjID cd) = nat (max 1 (cd_incSize cd))" if "cd \<in> set cds" for cd
    using b that by (simp add: compact_need_def built_def cd_wf_def)
  ultimately show ?thesis
    using conj_matched_posts [of cds "Compact bi" compact_need _ env ass] b ids
    by (auto simp: built_def sat_ids_def compact_need_def)
qed

lemma KGroups_matched:
  assumes b: "built env flds (KGroups bi) cds" and ids: "ids_distinct cds" and k: "k < length (kSizeContainers bi)"
  shows "{c. conj_matched (\<lambda>_. max k 1) (kg_sets (env_lib env) bi ass k) c} =
    sat_ids env (in_container (KGroups bi) k cds) ass"
proof -
  let ?cds = "in_container (KGroups bi) k cds"
  let ?Ss = "map (\<lambda>(f, v). posts env ?cds f v) ass"
  have pos: "0 \<le> cd_incSize cd" if "cd \<in> set cds" for cd using b that by (simp add: built_def cd_wf_def)
  have p: "map (field_posts (env_lib env) (ib_fieldsData bi) (kSizeContainers bi ! k)) ass = ?Ss"
    using built_posts [OF b, of k ass] k by simp
  have "conj_matched (\<lambda>_. max k 1) (kg_sets (env_lib env) bi ass k) =
      conj_matched (\<lambda>_. max k 1) (wildcard_set ?cds # ?Ss)"
  proof (cases "k = 0")
    case True
    have "wildcard_set ?cds = wildcard_set cds"
      using pos True by (auto simp: wildcard_set_def in_container_def)
    then show ?thesis using b True unfolding kg_sets_def p by (simp add: built_def)
  next
    case False
    then have "wildcard_set ?cds = {}" by (auto simp: wildcard_set_def in_container_def)
    then show ?thesis using False unfolding kg_sets_def p by (simp add: conj_matched_Cons_empty)
  qed
  moreover have "max k 1 = nat (max 1 (cd_incSize cd))" if "cd \<in> set ?cds" for cd
    using that pos by (auto simp: in_container_def)
  ultimately show ?thesis
    using conj_matched_posts [OF in_container_sub [OF b ids], of k "\<lambda>_. max k 1" _ env ass] by (auto simp: sat_ids_def)
qed

text \<open>
  The grouped index only runs the rounds up to the number of assigned values that are not nil,
  so values of a custom tokenizer that make tokens of a nil value would be lost.
\<close>

definition nil_misses :: "'c env \<Rightarrow> ConjIndexingData list \<Rightarrow> Assignments \<Rightarrow> bool" where
  "nil_misses env cds ass \<longleftrightarrow>
     (\<forall>cd\<in>set cds. \<forall>(f, v)\<in>set ass. NilInterface v = Inr True \<longrightarrow> \<not> cd_hit env cd True (f, v))"

lemma Assignments_Size_eq:
  "Assignments_Size ass = Inr sz \<Longrightarrow> sz = int (length (filter (\<lambda>(f, v). NilInterface v \<noteq> Inr True) ass))"
proof (induction ass arbitrary: sz)
  case (Cons a ass)
  then show ?case by (cases a) (auto split: sum.splits)
qed simp

lemma cd_sat_size:
  assumes "nil_misses env cds ass" "Assignments_Size ass = Inr sz" "cd \<in> set cds" "cd_sat env cd ass"
  shows "cd_incSize cd \<le> sz"
proof -
  have "length (filter (cd_hit env cd True) ass) \<le> length (filter (\<lambda>(f, v). NilInterface v \<noteq> Inr True) ass)"
  proof -
    have "filter (cd_hit env cd True) ass = filter (cd_hit env cd True) (filter (\<lambda>(f, v). NilInterface v \<noteq> Inr True) ass)"
      using assms(1,3) by (auto simp: nil_misses_def intro!: filter_cong)
    then show ?thesis by (metis length_filter_le)
  qed
  then show ?thesis using assms(4) Assignments_Size_eq [OF assms(2)] by (auto simp: cd_sat_def)
qed

lemma Retrieve_built:
  assumes b: "built env flds index cds" and ids: "ids_distinct cds" and q: "query_ok env flds ass"
    and opts: "\<forall>col. WithCollector col \<notin> set opts"
    and kg: "is_KGroups index \<Longrightarrow> Assignments_Size ass = Inr sz \<and> nil_misses env cds ass"
  shows "\<exists>col'. RetrieveWithCollector (env_lib env) add index ass col opts = Some (col', None) \<and>
    adds_exactly add col col' (sat_ids env cds ass)"
proof (cases index)
  case (Compact bi)
  have "wildcards_ok (wildcardEntries bi)" "container_ready (ci_container bi)" "ib_fieldsData bi = flds"
    using b by (auto simp: built_def Compact)
  moreover have "answerable (env_lib env) flds (ci_container bi) ass"
    using query_ok_answerable [OF b q, of 0] by (simp add: Compact)
  ultimately show ?thesis
    using Compact_Retrieve_ok [OF opts, of bi "env_lib env" ass add col] Compact_matched [of env flds bi cds ass] b ids
    by (simp add: Compact)
next
  case (KGroups bi)
  let ?n = "length (kSizeContainers bi)"
  have sz: "Assignments_Size ass = Inr sz" and nil: "nil_misses env cds ass" using kg by (auto simp: KGroups)
  have w: "wildcards_ok (wildcardEntries bi)" and f: "ib_fieldsData bi = flds" using b by (auto simp: built_def KGroups)
  have c: "\<forall>c\<in>set (kSizeContainers bi). container_ready c"
    using b by (auto simp: built_def KGroups in_set_conv_nth)
  have a: "\<forall>c\<in>set (kSizeContainers bi). answerable (env_lib env) (ib_fieldsData bi) c ass"
    using query_ok_answerable [OF b q] f by (auto simp: KGroups in_set_conv_nth)
  have m: "conj_matched (\<lambda>_. max k 1) (kg_sets (env_lib env) bi ass k) c \<longleftrightarrow>
      c \<in> sat_ids env (in_container (KGroups bi) k cds) ass" if "k < ?n" for k c
    using KGroups_matched [OF _ ids that, of env flds ass] b by (auto simp: KGroups)
  have "{c. \<exists>k<?n. int k \<le> sz \<and> conj_matched (\<lambda>_. max k 1) (kg_sets (env_lib env) bi ass k) c} =
      {c. \<exists>k<?n. int k \<le> sz \<and> c \<in> sat_ids env (in_container (KGroups bi) k cds) ass}"
    using m by blast
  also have "\<dots> = sat_ids env cds ass"
  proof (intro set_eqI iffI)
    fix c assume "c \<in> sat_ids env cds ass"
    then obtain cd where cd: "c = cd_conjID cd" "cd \<in> set cds" "cd_sat env cd ass" by (auto simp: sat_ids_def)
    have "nat (cd_incSize cd) < ?n" "0 \<le> cd_incSize cd"
      using b cd(2) by (auto simp: built_def cd_wf_def KGroups)
    moreover have "cd_incSize cd \<le> sz" by (rule cd_sat_size [OF nil sz cd(2,3)])
    ultimately show "c \<in> {c. \<exists>k<?n. int k \<le> sz \<and> c \<in> sat_ids env (in_container (KGroups bi) k cds) ass}"
      using cd by (auto simp: sat_ids_def in_container_def intro!: exI [of _ "nat (cd_incSize cd)"])
  qed (auto simp: sat_ids_def in_container_def)
  finally show ?thesis
    using KG_Retrieve_ok [OF opts sz w c a, of add col] by (simp add: KGroups)
qed

text \<open>Whatever the query, retrieval from a built index returns.\<close>

lemma field_cursors_answerable:
  "field_cursors lib flds c ass = Inr fcs \<Longrightarrow> answerable lib flds c ass"
proof (induction ass arbitrary: fcs)
  case (Cons a ass)
  obtain f v where a: "a = (f, v)" by fastforce
  have "\<exists>fcs. field_cursors lib flds c ass = Inr fcs"
    using Cons.prems by (auto simp: a split: option.splits sum.splits if_splits)
  then have rest: "answerable lib flds c ass" using Cons.IH by blast
  have "\<exists>cs. GetEntries lib h desc v = Inr cs" if "map_of flds f = Some desc" "getFieldHolder c desc = Some h" for desc h
    using Cons.prems that by (cases "GetEntries lib h desc v") (auto simp: a)
  then show ?case using rest by (auto simp: answerable_def a)
qed (simp add: answerable_def)

lemma KG_rounds_returns:
  assumes b: "built env flds (KGroups bi) cds" and n: "n \<le> length (kSizeContainers bi)"
  shows "\<exists>r. KG_rounds (env_lib env) add bi ass n col = Some r"
  using n
proof (induction n arbitrary: col)
  case (Suc n)
  let ?c = "kSizeContainers bi ! n" and ?lib = "env_lib env"
  show ?case
  proof (cases "KG_initCursors ?lib bi ass n")
    case (Inr fcs)
    then have "\<exists>gcs. field_cursors ?lib (ib_fieldsData bi) ?c ass = Inr gcs"
      using Suc.prems by (auto simp: KG_initCursors_def append_cursors_def getKSizeEntries_def split: sum.splits)
    then have "answerable ?lib (ib_fieldsData bi) ?c ass" using field_cursors_answerable by blast
    moreover have "wildcards_ok (wildcardEntries bi)" "container_ready ?c"
      using b Suc.prems by (auto simp: built_def)
    ultimately have "\<forall>fc\<in>set fcs. fc_ok fc"
      using KG_initCursors_ok [of bi n ?lib ass] Inr Suc.prems by (auto simp: live_cursors_def)
    moreover have "1 \<le> nat (MaxInt (int n) 1)" by (simp add: MaxInt_def)
    ultimately obtain col' where "retrieveK add fcs (nat (MaxInt (int n) 1)) col = Some col'"
      using retrieveK_correct [of fcs "nat (MaxInt (int n) 1)" add col] by blast
    then show ?thesis using Suc by (simp add: Inr)
  qed simp
qed simp

lemma RetrieveWithCollector_returns:
  assumes b: "built env flds index cds"
  shows "\<exists>r. RetrieveWithCollector (env_lib env) add index ass col opts = Some r"
proof (cases index)
  case (KGroups bi)
  have "nat (MinInt sz (maxK bi) + 1) \<le> length (kSizeContainers bi)" for sz by (auto simp: MinInt_def maxK_def)
  then have "\<exists>r. KG_rounds (env_lib env) add bi ass (nat (MinInt sz (maxK bi) + 1)) col = Some r" for sz
    using b unfolding KGroups by (rule KG_rounds_returns [rotated])
  then show ?thesis by (simp add: KGroups KG_RetrieveWithCollector_def split: sum.split)
next
  case (Compact bi)
  let ?lib = "env_lib env"
  show ?thesis
  proof (cases "Compact_initCursors ?lib bi ass")
    case (Inr fcs)
    then have "\<exists>gcs. field_cursors ?lib (ib_fieldsData bi) (ci_container bi) ass = Inr gcs"
      by (auto simp: Compact_initCursors_def append_cursors_def split: sum.splits)
    then have "answerable ?lib (ib_fieldsData bi) (ci_container bi) ass" using field_cursors_answerable by blast
    moreover have "wildcards_ok (wildcardEntries bi)" "container_ready (ci_container bi)"
      using b by (auto simp: built_def Compact)
    ultimately obtain col' where "Compact_RetrieveWithCollector ?lib add bi ass col [] = Some (col', None)"
      using Compact_Retrieve_ok [of "[]" bi ?lib ass add col] by auto
    then have "\<exists>x. compact_loop add (FieldCursors_Sort fcs) col = Some x"
      using Inr by (auto simp: Compact_RetrieveWithCollector_def newRetrieveCtx_def)
    then show ?thesis using Inr by (auto simp: Compact Compact_RetrieveWithCollector_def)
  qed (simp add: Compact Compact_RetrieveWithCollector_def)
qed

end
