(* ===== verification/Semantics.thy ===== *)
theory Semantics
  imports IndexCorrect
begin

text \<open>
  What a document means: a query satisfies a conjunction when every including field has an
  assigned value that hits one of its including expressions and no assigned value hits an
  excluding one. The lemmas relate this to the data the builder prepares, and \<open>builder_run\<close>
  is the relation of the builder states a client can reach.
\<close>

subsection \<open>Satisfaction\<close>

definition expr_hit :: "'c env \<Rightarrow> (BEField \<times> FieldDesc) list \<Rightarrow> BEField \<Rightarrow> BoolValues \<Rightarrow> Values \<Rightarrow> bool" where
  "expr_hit env flds f bv v \<longleftrightarrow>
     (\<exists>desc h d. map_of flds f = Some desc \<and> NewEntriesHolder (env_factory env) (Container desc) = Some h \<and>
        BuildFieldIndexingData (env_lib env) h desc bv = Inr d \<and> eh_hits (env_lib env) h desc d v)"

definition conj_sat :: "'c env \<Rightarrow> (BEField \<times> FieldDesc) list \<Rightarrow> Conjunction \<Rightarrow> Assignments \<Rightarrow> bool" where
  "conj_sat env flds cj ass \<longleftrightarrow>
     (\<forall>f\<in>incl_fields cj. \<exists>v bv. (f, v) \<in> set ass \<and> (f, bv) \<in> set (flat_exprs cj) \<and> Incl bv \<and> expr_hit env flds f bv v) \<and>
     (\<forall>f v bv. (f, v) \<in> set ass \<longrightarrow> (f, bv) \<in> set (flat_exprs cj) \<longrightarrow> \<not> Incl bv \<longrightarrow> \<not> expr_hit env flds f bv v)"

definition doc_sat :: "'c env \<Rightarrow> (BEField \<times> FieldDesc) list \<Rightarrow> Document \<Rightarrow> Assignments \<Rightarrow> bool" where
  "doc_sat env flds doc ass \<longleftrightarrow>
     (\<exists>cj\<in>set (doc_Cons doc). \<not> bad_conj env flds cj \<and> conj_sat env flds cj ass)"

lemma set_flat_exprs:
  "(f, bv) \<in> set (flat_exprs cj) \<longleftrightarrow> (\<exists>bvs. (f, bvs) \<in> set (Expressions cj) \<and> bv \<in> set bvs)"
  by (fastforce simp: flat_exprs_def)

lemma incl_fields_flat: "f \<in> incl_fields cj \<longleftrightarrow> (\<exists>bv. (f, bv) \<in> set (flat_exprs cj) \<and> Incl bv)"
  by (auto simp: incl_fields_def set_flat_exprs)

lemma NewEntryID_inj: "uint c < 2 ^ 60 \<Longrightarrow> NewEntryID c b = NewEntryID c b' \<longleftrightarrow> b = b'"
  using IsInclude_NewEntryID [of c b] IsInclude_NewEntryID [of c b'] by auto

lemma ids_distinct_append:
  assumes "ids_distinct c1" "ids_distinct c2"
    "\<And>cd1 cd2. cd1 \<in> set c1 \<Longrightarrow> cd2 \<in> set c2 \<Longrightarrow> cd_conjID cd1 \<noteq> cd_conjID cd2"
  shows "ids_distinct (c1 @ c2)"
  using assms by (auto simp: ids_distinct_def inj_on_Un)

lemma cd_hit_conj:
  assumes fo: "fields_ok flds" and cd: "conj_data env flds docID idx cj cd"
  shows "cd_hit env cd incl (f, v) \<longleftrightarrow> (\<exists>bv. (f, bv) \<in> set (flat_exprs cj) \<and> Incl bv = incl \<and> expr_hit env flds f bv v)"
proof -
  have c: "uint (cd_conjID cd) < 2 ^ 60" using cd NewConjID_less_2p60 by (auto simp: conj_data_def)
  have l: "list_all2 (expr_tx env flds (nat (CalcConjSize cj)) (cd_conjID cd)) (flat_exprs cj) (cd_fieldData cd)"
    using cd by (simp add: conj_data_def)
  show ?thesis
  proof
    assume "cd_hit env cd incl (f, v)"
    then obtain tx where tx: "tx \<in> set (cd_fieldData cd)" "fd_Field (tx_field tx) = f"
      "tx_EID tx = NewEntryID (cd_conjID cd) incl" "tx_hit env tx v" by (auto simp: cd_hit_def)
    obtain f' bv desc d where e: "(f', bv) \<in> set (flat_exprs cj)" "build_expr env flds f' bv = Some (desc, Inr d)"
      "tx = \<lparr>tx_field = desc, tx_holder = ref_for (nat (CalcConjSize cj)) desc,
        tx_EID = NewEntryID (cd_conjID cd) (Incl bv), tx_Data = Some d\<rparr>"
      using list_all2_expr_tx [OF l tx(1)] by blast
    have desc: "map_of flds f' = Some desc" using e(2) by (auto simp: build_expr_def split: option.splits)
    then have "f' = f" using fields_okD(1) [OF fo desc] tx(2) e(3) by simp
    moreover have "Incl bv = incl" using tx(3) e(3) NewEntryID_inj [OF c] by simp
    moreover have "expr_hit env flds f' bv v"
      using desc e(2,3) tx(4) by (auto simp: expr_hit_def build_expr_def tx_hit_def split: option.splits)
    ultimately show "\<exists>bv. (f, bv) \<in> set (flat_exprs cj) \<and> Incl bv = incl \<and> expr_hit env flds f bv v" using e(1) by blast
  next
    assume "\<exists>bv. (f, bv) \<in> set (flat_exprs cj) \<and> Incl bv = incl \<and> expr_hit env flds f bv v"
    then obtain bv where bv: "(f, bv) \<in> set (flat_exprs cj)" "Incl bv = incl" "expr_hit env flds f bv v" by blast
    then obtain tx where tx: "tx \<in> set (cd_fieldData cd)" "expr_tx env flds (nat (CalcConjSize cj)) (cd_conjID cd) (f, bv) tx"
      using l by (metis in_set_conv_nth list_all2_conv_all_nth)
    then obtain desc d where t: "build_expr env flds f bv = Some (desc, Inr d)" "tx_field tx = desc"
      "tx_EID tx = NewEntryID (cd_conjID cd) (Incl bv)" "tx_Data tx = Some d" by (auto simp: expr_tx_def)
    have desc: "map_of flds f = Some desc" using t(1) by (auto simp: build_expr_def split: option.splits)
    then have "tx_hit env tx v" using bv(3) t
      by (auto simp: expr_hit_def build_expr_def tx_hit_def)
    then show "cd_hit env cd incl (f, v)"
      using tx(1) t(2,3) bv(2) fields_okD(1) [OF fo desc] by (auto simp: cd_hit_def)
  qed
qed

lemma length_filter_keys:
  assumes "distinct (map fst ass)"
  shows "length (filter P ass) = card {f. \<exists>v. (f, v) \<in> set ass \<and> P (f, v)}"
proof -
  have "{f. \<exists>v. (f, v) \<in> set ass \<and> P (f, v)} = set (map fst (filter P ass))" by force
  moreover have "distinct (map fst (filter P ass))" using assms by (rule distinct_map_filter)
  ultimately show ?thesis by (metis distinct_card length_map)
qed

lemma cd_sat_conj:
  assumes fo: "fields_ok flds" and cd: "conj_data env flds docID idx cj cd"
    and wf: "conj_wf cj" and ass: "distinct (map fst ass)"
  shows "cd_sat env cd ass \<longleftrightarrow> conj_sat env flds cj ass"
proof -
  note hit = cd_hit_conj [OF fo cd]
  let ?H = "{f. \<exists>v. (f, v) \<in> set ass \<and> cd_hit env cd True (f, v)}"
  have sub: "?H \<subseteq> incl_fields cj" by (auto simp: hit incl_fields_flat)
  have "cd_incSize cd = int (card (incl_fields cj))" using cd CalcConjSize_card [OF wf] by (simp add: conj_data_def)
  then have "cd_incSize cd \<le> int (length (filter (cd_hit env cd True) ass)) \<longleftrightarrow> card (incl_fields cj) \<le> card ?H"
    using length_filter_keys [OF ass, of "cd_hit env cd True"] by simp
  also have "\<dots> \<longleftrightarrow> ?H = incl_fields cj"
    using card_seteq [OF finite_incl_fields sub] by auto
  also have "\<dots> \<longleftrightarrow> incl_fields cj \<subseteq> ?H" using sub by blast
  also have "\<dots> \<longleftrightarrow> (\<forall>f\<in>incl_fields cj. \<exists>v bv. (f, v) \<in> set ass \<and> (f, bv) \<in> set (flat_exprs cj) \<and> Incl bv \<and>
      expr_hit env flds f bv v)"
    by (auto simp: hit subset_iff)
  finally show ?thesis unfolding cd_sat_def conj_sat_def by (simp add: Ball_def split_paired_All hit) blast
qed

subsection \<open>Documents\<close>

lemma conj_data_not_bad:
  assumes "conj_data env flds docID idx cj cd"
  shows "\<not> bad_conj env flds cj"
proof
  assume "bad_conj env flds cj"
  then obtain f bv desc m where b: "(f, bv) \<in> set (flat_exprs cj)" "build_expr env flds f bv = Some (desc, Inl (Err m))"
    by (auto simp: bad_conj_def)
  have "list_all2 (expr_tx env flds (nat (CalcConjSize cj)) (cd_conjID cd)) (flat_exprs cj) (cd_fieldData cd)"
    using assms by (simp add: conj_data_def)
  then obtain tx where "expr_tx env flds (nat (CalcConjSize cj)) (cd_conjID cd) (f, bv) tx"
    using b(1) by (metis in_set_conv_nth list_all2_conv_all_nth)
  then show False using b(2) by (auto simp: expr_tx_def)
qed

lemma conj_data_ids:
  assumes "conj_data env flds docID idx cj cd"
  shows "ConjID_DocID (cd_conjID cd) = docID" "ConjID_Index (cd_conjID cd) = idx"
  using assms NewConjID_fields by (auto simp: conj_data_def)

lemma prepared_conjs:
  assumes "prepared env flds skip docID idx cjs cds"
  shows "(\<forall>cd\<in>set cds. \<exists>cj\<in>set cjs. \<exists>i\<ge>idx. conj_data env flds docID i cj cd) \<and>
    (\<forall>cj\<in>set cjs. \<not> bad_conj env flds cj \<longrightarrow> (\<exists>cd\<in>set cds. \<exists>i. conj_data env flds docID i cj cd)) \<and>
    ids_distinct cds"
  using assms
proof (induction)
  case (prepared_Cons idx cj cd cjs cds)
  have "cd_conjID cd' \<noteq> cd_conjID cd" if "cd' \<in> set cds" for cd'
    using prepared_Cons.IH that conj_data_ids(2) [OF prepared_Cons.hyps(1)] conj_data_ids(2) by fastforce
  then have "ids_distinct (cd # cds)"
    using prepared_Cons.IH ids_distinct_append [of "[cd]" cds] by (force simp: ids_distinct_def)
  moreover have "\<exists>cj\<in>set (cj # cjs). \<exists>i\<ge>idx. conj_data env flds docID i cj cd'" if "cd' \<in> set (cd # cds)" for cd'
    using that prepared_Cons.IH prepared_Cons.hyps(1) by (fastforce intro: order_trans)
  ultimately show ?case using prepared_Cons.IH prepared_Cons.hyps(1) by auto
next
  case (prepared_skip cj idx cjs cds)
  then show ?case by (fastforce intro: order_trans)
qed (simp add: ids_distinct_def)

lemma docs_data_conjs:
  assumes "docs_data env flds skip docs cds"
  shows "(\<forall>cd\<in>set cds. \<exists>doc\<in>set docs. \<exists>cj\<in>set (doc_Cons doc). \<exists>i. conj_data env flds (ID doc) i cj cd) \<and>
    (\<forall>doc\<in>set docs. \<forall>cj\<in>set (doc_Cons doc). \<not> bad_conj env flds cj \<longrightarrow>
       (\<exists>cd\<in>set cds. \<exists>i. conj_data env flds (ID doc) i cj cd))"
  using assms
proof (induction docs arbitrary: cds)
  case (Cons doc docs)
  then obtain c1 c2 where c: "cds = c1 @ c2" "doc_data env flds skip doc c1" "docs_data env flds skip docs c2" by auto
  note P = prepared_conjs [OF c(2) [unfolded doc_data_def]]
  show ?case using P Cons.IH [OF c(3)] by (simp add: c(1) ball_Un) blast
qed simp

lemma docs_data_distinct:
  assumes "docs_data env flds skip docs cds" "distinct (map ID docs)"
  shows "ids_distinct cds"
  using assms
proof (induction docs arbitrary: cds)
  case (Cons doc docs)
  then obtain c1 c2 where c: "cds = c1 @ c2" "doc_data env flds skip doc c1" "docs_data env flds skip docs c2" by auto
  note P = prepared_conjs [OF c(2) [unfolded doc_data_def]]
  have "cd_conjID cd1 \<noteq> cd_conjID cd2" if cds: "cd1 \<in> set c1" "cd2 \<in> set c2" for cd1 cd2
  proof -
    obtain cj i where 1: "conj_data env flds (ID doc) i cj cd1" using P cds(1) by blast
    obtain doc' cj' j where 2: "doc' \<in> set docs" "conj_data env flds (ID doc') j cj' cd2"
      using docs_data_conjs [OF c(3)] cds(2) by blast
    have "ID doc \<noteq> ID doc'" using Cons.prems(2) 2(1) by auto
    then show ?thesis using conj_data_ids(1) [OF 1] conj_data_ids(1) [OF 2(2)] by auto
  qed
  then show ?case using P Cons.IH [OF c(3)] Cons.prems(2) unfolding c(1) by (intro ids_distinct_append) auto
qed (simp add: ids_distinct_def)

lemma sat_ids_docs:
  assumes d: "docs_data env flds skip docs cds" and fo: "fields_ok flds"
    and wf: "\<forall>doc\<in>set docs. \<forall>cj\<in>set (doc_Cons doc). conj_wf cj" and ass: "distinct (map fst ass)"
  shows "ConjID_DocID ` sat_ids env cds ass = {ID doc |doc. doc \<in> set docs \<and> doc_sat env flds doc ass}"
proof (intro set_eqI iffI)
  fix i assume "i \<in> ConjID_DocID ` sat_ids env cds ass"
  then obtain cd where cd: "cd \<in> set cds" "cd_sat env cd ass" "i = ConjID_DocID (cd_conjID cd)" by (auto simp: sat_ids_def)
  obtain doc cj j where dc: "doc \<in> set docs" "cj \<in> set (doc_Cons doc)" "conj_data env flds (ID doc) j cj cd"
    using docs_data_conjs [OF d] cd(1) by blast
  have "conj_sat env flds cj ass" using cd_sat_conj [OF fo dc(3) _ ass] wf dc(1,2) cd(2) by blast
  then have "doc_sat env flds doc ass" using dc conj_data_not_bad [OF dc(3)] by (auto simp: doc_sat_def)
  then show "i \<in> {ID doc |doc. doc \<in> set docs \<and> doc_sat env flds doc ass}"
    using cd(3) conj_data_ids(1) [OF dc(3)] dc(1) by auto
next
  fix i assume "i \<in> {ID doc |doc. doc \<in> set docs \<and> doc_sat env flds doc ass}"
  then obtain doc cj where dc: "i = ID doc" "doc \<in> set docs" "cj \<in> set (doc_Cons doc)" "\<not> bad_conj env flds cj"
    "conj_sat env flds cj ass" by (auto simp: doc_sat_def)
  then obtain cd j where cd: "cd \<in> set cds" "conj_data env flds (ID doc) j cj cd" using docs_data_conjs [OF d] by blast
  then have "cd_sat env cd ass" using cd_sat_conj [OF fo cd(2) _ ass] wf dc by blast
  then have "cd_conjID cd \<in> sat_ids env cds ass" using cd(1) by (auto simp: sat_ids_def)
  then show "i \<in> ConjID_DocID ` sat_ids env cds ass"
    using conj_data_ids(1) [OF cd(2)] dc(1) by (metis imageI)
qed

subsection \<open>Reachable builders\<close>

text \<open>
  The states of a builder: a new one, then any sequence of field configurations, documents
  added (by a call that succeeds, or a single document whose call fails), and resets, also
  after an index was built.
\<close>

inductive builder_run :: "'c env \<Rightarrow> 'c BuilderOpt list \<Rightarrow> Document list \<Rightarrow> 'c IndexerBuilder \<Rightarrow> bool"
  for env opts
where
  run_new: "NewIndexerBuilder env opts = Inr b \<Longrightarrow> builder_run env opts [] b"
| run_config: "builder_run env opts docs b \<Longrightarrow> ConfigField env b f settings = (b', r) \<Longrightarrow> builder_run env opts docs b'"
| run_add: "builder_run env opts docs b \<Longrightarrow> AddDocument env b (map Some new) = (b', Inr ()) \<Longrightarrow>
    builder_run env opts (docs @ new) b'"
| run_fail: "builder_run env opts docs b \<Longrightarrow> AddDocument env b [doc] = (b', Inl e) \<Longrightarrow> builder_run env opts docs b'"
| run_reset: "builder_run env opts docs b \<Longrightarrow> Builder_Reset env b = Inr b' \<Longrightarrow> builder_run env opts [] b'"
| run_build_reset: "builder_run env opts docs b \<Longrightarrow> BuildIndex b = (b1, r) \<Longrightarrow> Builder_Reset env b1 = Inr b' \<Longrightarrow>
    builder_run env opts [] b'"

inductive_cases builder_run_emptyE: "builder_run env opts [] b"

lemma index_inv_NewKGroups: "index_inv lib factory flds NewKGroupsBEIndex {}"
  by (simp add: index_inv_def NewKGroupsBEIndex_def)

lemma index_inv_NewCompacted:
  assumes ok: "factory_ok factory"
  shows "index_inv lib factory flds (NewCompactedBEIndex factory) {}"
proof -
  obtain h where h: "NewEntriesHolder factory HolderNameDefault = Some h" "fresh h"
    using ok by (auto simp: factory_ok_def)
  have "eh_building g \<and> holder_origin factory flds r g \<and> holder_log lib g {}"
    if "deref (NewCompactedBEIndex factory) r = Some g" for r g
    using that h(1) fresh_holder_log [OF h(2)]
    by (cases r) (auto simp: NewCompactedBEIndex_def newFieldEntriesContainer_def holder_origin_def)
  moreover have "defaultHolder (container_at (NewCompactedBEIndex factory) k) = Some h \<and>
      fieldHolder (container_at (NewCompactedBEIndex factory) k) = []" for k
    using h(1) by (simp add: NewCompactedBEIndex_def newFieldEntriesContainer_def)
  ultimately show ?thesis by (simp add: index_inv_def)
qed

lemma initIndexer_inv:
  assumes ok: "factory_ok (env_factory env)" and init: "initIndexer env b = Inr b'" and f: "fields_ok (fieldsData b)"
  shows "builder_inv env b' []" "docLevelCache b' = docLevelCache b" "fieldsData b' = fieldsData b"
    "indexerType b' = indexerType b" "badConjBehavior b' = badConjBehavior b"
    "is_KGroups (indexer b') \<longleftrightarrow> indexerType b = IndexerTypeDefault"
  using init f index_inv_NewKGroups index_inv_NewCompacted [OF ok]
  by (auto simp: initIndexer_def builder_inv_def NewKGroupsBEIndex_def NewCompactedBEIndex_def split: if_splits)

lemma AddDocument_fail_inv:
  assumes inv: "builder_inv env b cds" and ok: "factory_ok (env_factory env)" and nc: "docLevelCache b = None"
    and run: "AddDocument env b [doc] = (b', Inl e)"
  shows "builder_ext b b'" "builder_inv env b' cds"
    "e = Err m \<Longrightarrow> \<exists>d. doc = Some d \<and>
      (validDocument d = Inl (Err m) \<or>
       badConjBehavior b = ErrorBadConj \<and> (\<exists>cj\<in>set (doc_Cons d). bad_conj env (fieldsData b') cj))"
proof -
  have "builder_ext b b' \<and> builder_inv env b' cds \<and> (e = Err m \<longrightarrow> (\<exists>d. doc = Some d \<and>
      (validDocument d = Inl (Err m) \<or>
       badConjBehavior b = ErrorBadConj \<and> (\<exists>cj\<in>set (doc_Cons d). bad_conj env (fieldsData b') cj))))"
  proof (cases doc)
    case (Some d)
    show ?thesis
    proof (cases "validDocument d")
      case (Inr u)
      then have "buildDocEntries env b d = (b', Inl e)"
        using run by (auto simp: Some split: prod.splits sum.splits)
      then show ?thesis using buildDocEntries_inv [OF inv ok nc] Some by fastforce
    qed (use run inv Some in auto)
  qed (use run inv in auto)
  then show "builder_ext b b'" "builder_inv env b' cds"
    "e = Err m \<Longrightarrow> \<exists>d. doc = Some d \<and>
      (validDocument d = Inl (Err m) \<or>
       badConjBehavior b = ErrorBadConj \<and> (\<exists>cj\<in>set (doc_Cons d). bad_conj env (fieldsData b') cj))" by auto
qed

definition no_cache :: "'c BuilderOpt list \<Rightarrow> bool" where
  "no_cache opts \<longleftrightarrow> (\<forall>c. WithDocLevelCache c \<notin> set opts)"

lemma apply_builder_opts_sel:
  "fieldsData (foldl apply_builder_opt b opts) = fieldsData b"
  "no_cache opts \<Longrightarrow> docLevelCache (foldl apply_builder_opt b opts) = docLevelCache b"
proof -
  show "fieldsData (foldl apply_builder_opt b opts) = fieldsData b"
  proof (induction opts arbitrary: b)
    case (Cons opt opts)
    then show ?case by (cases opt) auto
  qed simp
  show "no_cache opts \<Longrightarrow> docLevelCache (foldl apply_builder_opt b opts) = docLevelCache b"
  proof (induction opts arbitrary: b)
    case (Cons opt opts)
    then show ?case by (cases opt) (auto simp: no_cache_def)
  qed simp
qed

definition run_inv :: "'c env \<Rightarrow> Document list \<Rightarrow> 'c IndexerBuilder \<Rightarrow> ConjIndexingData list \<Rightarrow> bool" where
  "run_inv env docs b cds \<longleftrightarrow>
     builder_inv env b cds \<and> docs_data env (fieldsData b) (skips b) docs cds \<and> docLevelCache b = None \<and>
     (is_KGroups (indexer b) \<longleftrightarrow> indexerType b = IndexerTypeDefault)"

lemma run_inv_ext:
  assumes "run_inv env docs b cds" "builder_ext b b'" "builder_inv env b' (cds @ new)"
    "docs_data env (fieldsData b') (skips b) docs' new"
  shows "run_inv env (docs @ docs') b' (cds @ new)"
proof -
  have le: "map_of (fieldsData b) \<subseteq>\<^sub>m map_of (fieldsData b')" and sk: "skips b' = skips b"
    and "docLevelCache b' = None" "is_KGroups (indexer b') \<longleftrightarrow> indexerType b' = IndexerTypeDefault"
    using assms(1,2) builder_ext_skips [OF assms(2)] by (auto simp: builder_ext_def index_le_def run_inv_def)
  moreover have "docs_data env (fieldsData b') (skips b) docs cds"
    using assms(1) by (intro docs_data_mono [OF _ le]) (simp add: run_inv_def)
  ultimately show ?thesis using assms(3,4) docs_data_append by (auto simp: run_inv_def)
qed

lemma builder_run_inv:
  assumes "builder_run env opts docs b" "factory_ok (env_factory env)" "no_cache opts"
  shows "\<exists>cds. run_inv env docs b cds"
  using assms(1)
proof (induction)
  case (run_new b)
  then show ?case
    using initIndexer_inv [OF assms(2), of "foldl apply_builder_opt _ opts" b] apply_builder_opts_sel(2) [OF assms(3)]
    by (auto simp: NewIndexerBuilder_def run_inv_def apply_builder_opts_sel(1) fields_ok_def)
next
  case (run_config docs b f settings b' r)
  obtain cds where inv: "run_inv env docs b cds" using run_config.IH by blast
  obtain r' where "configureField env b f settings = (b', r')"
    using run_config.hyps(2) by (auto simp: ConfigField_def split: prod.splits)
  then have "builder_inv env b' (cds @ [])" "builder_ext b b'"
    using configureField_inv(1,2) inv by (auto simp: run_inv_def)
  then have "run_inv env (docs @ []) b' (cds @ [])" using run_inv_ext [OF inv, of b' "[]" "[]"] by simp
  then show ?case by auto
next
  case (run_add docs b new b')
  obtain cds where inv: "run_inv env docs b cds" using run_add.IH by blast
  have "builder_inv env b cds" "docLevelCache b = None" using inv by (auto simp: run_inv_def)
  note A = AddDocument_inv [OF this(1) assms(2) this(2) run_add.hyps(2)]
  then obtain dn cn where "builder_ext b b'" "builder_inv env b' (cds @ cn)"
    "docs_data env (fieldsData b') (skips b) dn cn" "map Some dn = map Some new" by auto
  then show ?case using run_inv_ext [OF inv, of b' cn dn] by (auto dest: map_injective)
next
  case (run_fail docs b doc b' e)
  obtain cds where inv: "run_inv env docs b cds" using run_fail.IH by blast
  have bi: "builder_inv env b cds" "docLevelCache b = None" using inv by (auto simp: run_inv_def)
  have "builder_ext b b'" "builder_inv env b' cds" using AddDocument_fail_inv [OF bi(1) assms(2) bi(2) run_fail.hyps(2)] by auto
  then have "run_inv env (docs @ []) b' (cds @ [])" using run_inv_ext [OF inv, of b' "[]" "[]"] by simp
  then show ?case by auto
next
  case (run_reset docs b b')
  then obtain cds where "run_inv env docs b cds" by blast
  then show ?case using run_reset.hyps(2) initIndexer_inv [OF assms(2), of b b']
    by (auto simp: Builder_Reset_def run_inv_def builder_inv_def)
next
  case (run_build_reset docs b b1 r b')
  then obtain cds where inv: "run_inv env docs b cds" by blast
  obtain index where "BuildIndex b = (b\<lparr>indexer := index\<rparr>, Inr index)"
    using BuildIndex_built [OF _ assms(2)] inv by (auto simp: run_inv_def)
  then have "b1 = b\<lparr>indexer := index\<rparr>" using run_build_reset.hyps(2) by simp
  then show ?case using run_build_reset.hyps(3) inv initIndexer_inv [OF assms(2), of b1 b']
    by (auto simp: Builder_Reset_def run_inv_def builder_inv_def)
qed

subsection \<open>Queries\<close>

text \<open>
  What the grouped index needs of a tokenizer, which a client may supply: a nil value makes no
  tokens. The default tokenizer has this property.
\<close>

definition nil_quiet :: "HolderFactory \<Rightarrow> bool" where
  "nil_quiet factory \<longleftrightarrow>
     (\<forall>name h f v ts. NewEntriesHolder factory name = Some (HDefault h) \<longrightarrow> NilInterface v = Inr True \<longrightarrow>
        TokenizeAssign (DH_GetTokenizer h f) v = Inr ts \<longrightarrow> ts = [])"

lemma NewDefaultTokenizer_nil:
  assumes "NilInterface v = Inr True" "TokenizeAssign NewDefaultTokenizer v = Inr ts"
  shows "ts = []"
  using assms by (cases v) (auto simp: NewDefaultTokenizer_def split: gslice.splits)

lemma nil_quiet_default:
  assumes "\<And>name h. NewEntriesHolder factory name = Some (HDefault h) \<Longrightarrow> dh_fieldParser h = []"
  shows "nil_quiet factory"
  using assms NewDefaultTokenizer_nil by (fastforce simp: nil_quiet_def DH_GetTokenizer_def)

lemma nil_no_hit:
  assumes "nil_quiet (env_factory env)" "NilInterface v = Inr True"
  shows "\<not> expr_hit env flds f bv v"
proof
  assume "expr_hit env flds f bv v"
  then obtain desc h d where h: "NewEntriesHolder (env_factory env) (Container desc) = Some h"
    "eh_hits (env_lib env) h desc d v" by (auto simp: expr_hit_def)
  show False
  proof (cases h)
    case (HDefault g)
    then show ?thesis using assms h
      by (fastforce simp: nil_quiet_def dh_hits_def dh_tokens_def split: sum.splits)
  next
    case (HRange g)
    then show ?thesis using assms(2) h(2) by (simp add: rh_hits_def rh_ids_def ParseIntegers_def)
  next
    case (HAc g)
    then show ?thesis using assms(2) h(2) by (cases v) (auto simp: ac_hits_def ac_asks_def split: gslice.splits)
  qed
qed

lemma nil_misses_docs:
  assumes "docs_data env flds skip docs cds" "fields_ok flds" "nil_quiet (env_factory env)"
  shows "nil_misses env cds ass"
  unfolding nil_misses_def
proof (intro ballI, clarify)
  fix cd f v assume cd: "cd \<in> set cds" and v: "NilInterface v = Inr True" and h: "cd_hit env cd True (f, v)"
  obtain docID cj i where "conj_data env flds docID i cj cd" using docs_data_conjs [OF assms(1)] cd by blast
  then show False using h nil_no_hit [OF assms(3) v] by (auto simp: cd_hit_conj [OF assms(2)])
qed

text \<open>In the default holder an expression is hit when a token of its value is a token of the query.\<close>

lemma expr_hit_default:
  assumes "map_of flds f = Some desc" "NewEntriesHolder (env_factory env) (Container desc) = Some (HDefault h)"
  shows "expr_hit env flds f bv v \<longleftrightarrow>
    (\<exists>ts us. Operator bv = ValueOptEQ \<and> TokenizeValue (DH_GetTokenizer h (fd_Field desc)) (Value bv) = Inr ts \<and>
       TokenizeAssign (DH_GetTokenizer h (fd_Field desc)) v = Inr us \<and> set ts \<inter> set us \<noteq> {})"
  using assms
  by (auto simp: expr_hit_def dh_hits_def dh_tokens_def DH_BuildFieldIndexingData_def split: sum.splits if_splits gerr.splits)

text \<open>In a keyword holder an expression is hit when one of its keywords is a substring of the query's text.\<close>

lemma expr_hit_keywords:
  assumes "map_of flds f = Some desc" "NewEntriesHolder (env_factory env) (Container desc) = Some (HAc h)"
    and spec: "aho_spec (ac_machine h)" and t: "valid_utf8 t"
    and ks: "Operator bv = ValueOptEQ" "ParseAcMatchDict (Value bv) = Inr ks" "[] \<notin> set ks"
  shows "expr_hit env flds f bv (VStr t) \<longleftrightarrow> (\<exists>k\<in>set ks. valid_utf8 k \<and> sublist k t)"
proof -
  have "ac_asks h (VStr t) k \<longleftrightarrow> valid_utf8 k \<and> sublist k t" if "k \<in> set ks" for k
    using that ks(3) spec t by (intro ac_asks_text) auto
  then show ?thesis using assms(1,2) ks(1,2)
    by (auto simp: expr_hit_def ac_hits_def AC_BuildFieldIndexingData_def)
qed

definition docs_wf :: "Document list \<Rightarrow> bool" where
  "docs_wf docs \<longleftrightarrow> distinct (map ID docs) \<and> (\<forall>doc\<in>set docs. \<forall>cj\<in>set (doc_Cons doc). conj_wf cj)"

text \<open>
  A query the index can answer: its keys are those of a map, the holders can parse its values
  and, for the grouped index, no value is an array and nil values make no tokens.
\<close>

definition query_fits :: "'c env \<Rightarrow> 'c IndexerBuilder \<Rightarrow> Assignments \<Rightarrow> bool" where
  "query_fits env b ass \<longleftrightarrow>
     distinct (map fst ass) \<and> query_ok env (fieldsData b) ass \<and>
     (indexerType b = IndexerTypeDefault \<longrightarrow>
        nil_quiet (env_factory env) \<and> (\<forall>(f, v)\<in>set ass. \<exists>isnil. NilInterface v = Inr isnil))"

lemma Assignments_Size_total:
  "\<forall>(f, v)\<in>set ass. \<exists>isnil. NilInterface v = Inr isnil \<Longrightarrow> \<exists>sz. Assignments_Size ass = Inr sz"
proof (induction ass)
  case (Cons a ass)
  then show ?case by (cases a) auto
qed simp

definition answer_ids :: "'c env \<Rightarrow> 'c IndexerBuilder \<Rightarrow> Document list \<Rightarrow> Assignments \<Rightarrow> DocID set" where
  "answer_ids env b docs ass = {ID doc |doc. doc \<in> set docs \<and> doc_sat env (fieldsData b) doc ass}"

lemma answer_ids_cong:
  assumes "set docs' = set docs" "map_of (fieldsData b') = map_of (fieldsData b)"
  shows "answer_ids env b' docs' ass = answer_ids env b docs ass"
  using assms
  by (simp add: answer_ids_def doc_sat_def bad_conj_def build_expr_def conj_sat_def expr_hit_def)

lemma Retrieve_run:
  assumes run: "builder_run env opts docs b" and ok: "factory_ok (env_factory env)" and nc: "no_cache opts"
    and docs: "docs_wf docs" and q: "query_fits env b ass"
    and bm: "bitmap_spec bm" "pool_clean bm pool" and ro: "\<forall>col. WithCollector col \<notin> set ropts"
  shows "\<exists>index ids pool'. BuildIndex b = (b\<lparr>indexer := index\<rparr>, Inr index) \<and>
    Retrieve (env_lib env) bm index ass ropts choice pool = Some (Inr ids, pool') \<and>
    set ids = answer_ids env b docs ass \<and> distinct ids \<and> sorted (map (word_of_int :: int \<Rightarrow> u64) ids) \<and>
    ids = map sint (sorted_list_of_set ((word_of_int :: int \<Rightarrow> u64) ` answer_ids env b docs ass)) \<and>
    pool_clean bm pool'"
proof -
  obtain cds where inv: "builder_inv env b cds" and dd: "docs_data env (fieldsData b) (skips b) docs cds"
    and kg: "is_KGroups (indexer b) \<longleftrightarrow> indexerType b = IndexerTypeDefault"
    using builder_run_inv [OF run ok nc] by (auto simp: run_inv_def)
  obtain index where bi: "BuildIndex b = (b\<lparr>indexer := index\<rparr>, Inr index)" "built env (fieldsData b) index cds"
    "is_KGroups index = is_KGroups (indexer b)" using BuildIndex_built [OF inv ok] by blast
  have fo: "fields_ok (fieldsData b)" using inv by (simp add: builder_inv_def)
  have ids: "ids_distinct cds" using docs_data_distinct [OF dd] docs by (simp add: docs_wf_def)
  have qo: "query_ok env (fieldsData b) ass" using q by (simp add: query_fits_def)
  obtain col pool1 where pick: "PickCollector bm choice pool = (col, pool1)" by fastforce
  note clean = PickCollector_clean [OF bm pick]
  obtain sz where sz: "is_KGroups index \<Longrightarrow> Assignments_Size ass = Inr sz \<and> nil_misses env cds ass"
    using q kg bi(3) Assignments_Size_total [of ass] nil_misses_docs [OF dd fo] by (auto simp: query_fits_def)
  obtain col' where col': "RetrieveWithCollector (env_lib env) (Collector_Add bm) index ass col ropts = Some (col', None)"
    "adds_exactly (Collector_Add bm) col col' (sat_ids env cds ass)"
    using Retrieve_built [OF bi(2) ids qo ro sz] by blast
  note G = GetDocIDs_adds [OF bm(1) clean(1) col'(2)]
  have "ConjID_DocID ` sat_ids env cds ass = answer_ids env b docs ass"
    using sat_ids_docs [OF dd fo] docs q by (simp add: docs_wf_def query_fits_def answer_ids_def)
  then show ?thesis
    using bi(1) G PutCollector_clean [OF bm(1) clean(2)] by (simp add: Retrieve_def pick col'(1))
qed

lemma Retrieve_returns:
  assumes run: "builder_run env opts docs b" and ok: "factory_ok (env_factory env)" and nc: "no_cache opts"
    and bm: "bitmap_spec bm" "pool_clean bm pool"
  shows "\<exists>index r pool'. BuildIndex b = (b\<lparr>indexer := index\<rparr>, Inr index) \<and>
    Retrieve (env_lib env) bm index ass ropts choice pool = Some (r, pool') \<and> pool_clean bm pool'"
proof -
  obtain cds where inv: "builder_inv env b cds" using builder_run_inv [OF run ok nc] by (auto simp: run_inv_def)
  obtain index where bi: "BuildIndex b = (b\<lparr>indexer := index\<rparr>, Inr index)" "built env (fieldsData b) index cds"
    using BuildIndex_built [OF inv ok] by blast
  obtain col pool1 where pick: "PickCollector bm choice pool = (col, pool1)" by fastforce
  obtain col' err where "RetrieveWithCollector (env_lib env) (Collector_Add bm) index ass col ropts = Some (col', err)"
    using RetrieveWithCollector_returns [OF bi(2), of "Collector_Add bm" ass col ropts] by auto
  then show ?thesis
    using bi(1) PutCollector_clean [OF bm(1) PickCollector_clean(2) [OF bm pick]] by (simp add: Retrieve_def pick)
qed

subsection \<open>Failing documents\<close>

text \<open>Two states with the same log hold the same entries; holders only the later one has are empty.\<close>

definition same_postings :: "codec \<Rightarrow> BEIndex \<Rightarrow> BEIndex \<Rightarrow> bool" where
  "same_postings lib i i' \<longleftrightarrow>
     set (index_wildcards i') = set (index_wildcards i) \<and>
     (\<forall>r h. has_container i (ref_container r) \<longrightarrow> deref i r = Some h \<longrightarrow>
        (\<exists>h'. deref i' r = Some h' \<and> eh_blank h' = eh_blank h \<and> (\<forall>fd v. eh_posted lib h' fd v = eh_posted lib h fd v))) \<and>
     (\<forall>r h'. has_container i' (ref_container r) \<longrightarrow> deref i' r = Some h' \<longrightarrow>
        \<not> (has_container i (ref_container r) \<and> deref i r \<noteq> None) \<longrightarrow> (\<forall>fd v. eh_posted lib h' fd v = {}))"

lemma same_log_same_postings:
  assumes inv: "builder_inv env b cds" and inv': "builder_inv env b' cds" and ext: "builder_ext b b'"
  shows "same_postings (env_lib env) (indexer b) (indexer b')"
proof -
  let ?i = "indexer b" and ?i' = "indexer b'" and ?lib = "env_lib env"
  have ii: "index_inv ?lib (env_factory env) (fieldsData b) ?i (all_txs cds)"
    and ii': "index_inv ?lib (env_factory env) (fieldsData b') ?i' (all_txs cds)"
    using inv inv' by (auto simp: builder_inv_def)
  have le: "index_le ?i ?i'" and kg: "is_KGroups ?i' = is_KGroups ?i" using ext by (auto simp: builder_ext_def index_le_def)
  have log: "holder_log ?lib h' {tx \<in> all_txs cds. same_holder ?i (tx_holder tx) r}"
    if "has_container ?i' (ref_container r)" "deref ?i' r = Some h'" for r h'
    using index_invD(3) [OF ii' that] by (simp add: kg)
  have old: "\<exists>h'. deref ?i' r = Some h' \<and> eh_blank h' = eh_blank h \<and> (\<forall>fd v. eh_posted ?lib h' fd v = eh_posted ?lib h fd v)"
    if r: "has_container ?i (ref_container r)" "deref ?i r = Some h" for r h
  proof -
    obtain h' where h': "deref ?i' r = Some h'" "eh_blank h' = eh_blank h" using index_leD [OF le r] .
    have "has_container ?i' (ref_container r)" using le r(1) by (simp add: index_le_def)
    note L = log [OF this h'(1)] index_invD(3) [OF ii r]
    have "eh_slot h' = eh_slot h" "eh_hits ?lib h' = eh_hits ?lib h"
      using eh.same_blank(2) [OF h'(2)] eh.same_blank(5) [OF h'(2)] by simp_all
    then have "eh_posted ?lib h' fd v = eh_posted ?lib h fd v" for fd v
      using L by (simp add: holder_log_def)
    then show ?thesis using h' by blast
  qed
  have new: "eh_posted ?lib h' fd v = {}"
    if r: "has_container ?i' (ref_container r)" "deref ?i' r = Some h'"
      "\<not> (has_container ?i (ref_container r) \<and> deref ?i r \<noteq> None)" for r h' fd v
  proof -
    have "\<not> same_holder ?i (tx_holder tx) r" if "tx \<in> all_txs cds" for tx
    proof
      assume s: "same_holder ?i (tx_holder tx) r"
      have "has_container ?i (ref_container (tx_holder tx))" "deref ?i (tx_holder tx) \<noteq> None"
        using ii that by (auto simp: index_inv_def tx_wf_def)
      then show False using r(3) deref_cong [OF s] has_container_cong [OF s] by simp
    qed
    then show ?thesis using log [OF r(1,2)] by (auto simp: holder_log_def)
  qed
  have "set (index_wildcards ?i') = set (index_wildcards ?i)" using inv inv' by (simp add: builder_inv_def)
  then show ?thesis unfolding same_postings_def using old new by blast
qed

lemma docs_data_no_bad:
  assumes "docs_data env flds False docs cds" "doc \<in> set docs" "cj \<in> set (doc_Cons doc)"
  shows "\<not> bad_conj env flds cj"
proof -
  have *: "\<not> bad_conj env flds c" if "prepared env flds False i idx cjs cds" "c \<in> set cjs" for i idx cjs cds c
    using that by (induction) (auto dest: conj_data_not_bad)
  show ?thesis using assms
  proof (induction docs arbitrary: cds)
    case (Cons d docs)
    then show ?case using * by (auto simp: doc_data_def)
  qed simp
qed

end
