(* ===== verification/Examples.thy ===== *)
theory Examples
  imports Semantics
begin

text \<open>
  Concrete instances of the parameters of the model, and small documents. They show that the
  named hypotheses on library code can hold, and the properties are evaluated on them.
\<close>

subsection \<open>A bitmap\<close>

definition list_bitmap :: "u64 list bitmap" where
  "list_bitmap =
     \<lparr>bm_New = [], bm_Add = (\<lambda>b x. x # b), bm_Clear = (\<lambda>b. []), bm_GetCardinality = (\<lambda>b. length (remdups b)),
      bm_values = (\<lambda>b. sort (remdups b))\<rparr>"

lemma list_bitmap_spec: "bitmap_spec list_bitmap"
  by (auto simp: bitmap_spec_def list_bitmap_def)

lemma pool_clean_Nil [simp]: "pool_clean bm []"
  by (simp add: pool_clean_def)

subsection \<open>Codecs\<close>

text \<open>Each character is a 1 and its code; a 0 ends a string.\<close>

fun ex_encode :: "string list \<Rightarrow> bytes" where
  "ex_encode [] = []"
| "ex_encode ([] # ss) = 0 # ex_encode ss"
| "ex_encode ((c # s) # ss) = 1 # word_of_nat (of_char c) # ex_encode (s # ss)"

fun ex_decode :: "string \<Rightarrow> bytes \<Rightarrow> string list res" where
  "ex_decode s [] = (if s = [] then Inr [] else Inl (Err ''unexpected EOF''))"
| "ex_decode s [b] = (if b = 0 then Inr [s] else Inl (Err ''unexpected EOF''))"
| "ex_decode s (b # c # bs) =
     (if b = 0 then map_sum id (Cons s) (ex_decode [] (c # bs)) else ex_decode (s @ [char_of (unat c)]) bs)"

lemma char_of_char_word [simp]: "char_of (unat (word_of_nat (of_char c) :: 8 word)) = c"
proof -
  have "(of_char c :: nat) < 256" by simp
  then show ?thesis by (simp add: unat_of_nat)
qed

lemma ex_decode_encode: "ex_decode p (ex_encode (s # ss)) = Inr ((p @ s) # ss)"
proof (induction "s # ss" arbitrary: p s ss rule: ex_encode.induct)
  case (2 ss)
  then show ?case
  proof (cases ss)
    case (Cons t ts)
    then obtain b bs where b: "ex_encode ss = b # bs" by (cases t) auto
    have "ex_decode [] (ex_encode ss) = Inr ss" using 2 Cons by auto
    then show ?thesis by (simp add: b)
  qed simp
next
  case (3 c s ss)
  then show ?case by simp
qed

definition ex_lib :: codec where
  "ex_lib =
     \<lparr>parseFloat = (\<lambda>_. None), protoMarshal = (\<lambda>vs. Inr (ex_encode vs)), protoUnmarshal = ex_decode [],
      jsonMarshal = (\<lambda>_. Inl (Err ''unsupported'')), jsonUnmarshal = (\<lambda>_. Inl (Err ''unsupported'')),
      optJsonMarshal = (\<lambda>_. Inl (Err ''unsupported'')), optJsonUnmarshal = (\<lambda>_. Inl (Err ''unsupported''))\<rparr>"

subsection \<open>An environment and documents\<close>

definition ex_cache :: "(DocCacheKey \<times> DocIdxCache) list DocLevelCache" where
  "ex_cache =
     \<lparr>cache_Get = (\<lambda>c k. (map_of c k, c)), cache_Set = (\<lambda>c k v. alist_put k v c), cache_Clear = (\<lambda>c. [])\<rparr>"

definition ex_env :: "(DocCacheKey \<times> DocIdxCache) list env" where
  "ex_env = \<lparr>env_factory = InitHolderDefaults, env_lib = ex_lib, env_cache = ex_cache\<rparr>"

text \<open>\<open>age\<close> in 1, 2 and \<open>city\<close> not \<open>sh\<close>; and \<open>city\<close> not \<open>bj\<close>.\<close>

definition ex_doc7 :: Document where
  "ex_doc7 = AddConjunction (NewDocument 7)
     [Conj_NotIn (Conj_In NewConjunction ''age'' (VIntS KInt (Slice [1, 2]))) ''city'' (VStr ''sh'')]"

definition ex_doc8 :: Document where
  "ex_doc8 = AddConjunction (NewDocument (-8)) [Conj_NotIn NewConjunction ''city'' (VStr ''bj'')]"

definition ex_ass :: Assignments where
  "ex_ass = [(''age'', VInt KInt 1), (''city'', VStr ''bj'')]"

definition ex_builder :: "int \<Rightarrow> (DocCacheKey \<times> DocIdxCache) list IndexerBuilder" where
  "ex_builder t = fst (AddDocument ex_env (projr (NewIndexerBuilder ex_env [WithIndexerType t])) [Some ex_doc7, Some ex_doc8])"

subsection \<open>The example run\<close>

lemma ex_add:
  "snd (AddDocument ex_env (projr (NewIndexerBuilder ex_env [WithIndexerType t])) [Some ex_doc7, Some ex_doc8]) = Inr ()"
  if "t \<in> {0, 1}"
proof -
  have "snd (AddDocument ex_env (projr (NewIndexerBuilder ex_env [WithIndexerType 0])) [Some ex_doc7, Some ex_doc8]) = Inr ()"
    "snd (AddDocument ex_env (projr (NewIndexerBuilder ex_env [WithIndexerType 1])) [Some ex_doc7, Some ex_doc8]) = Inr ()"
    by code_simp+
  then show ?thesis using that by auto
qed

lemma ex_fields: "t \<in> {0, 1} \<Longrightarrow> fieldsData (ex_builder t) =
  [(''age'', \<lparr>Container = ''default'', fd_ID = 0, fd_Field = ''age''\<rparr>),
   (''city'', \<lparr>Container = ''default'', fd_ID = 1, fd_Field = ''city''\<rparr>)]"
proof -
  have "fieldsData (ex_builder 0) = [(''age'', \<lparr>Container = ''default'', fd_ID = 0, fd_Field = ''age''\<rparr>),
   (''city'', \<lparr>Container = ''default'', fd_ID = 1, fd_Field = ''city''\<rparr>)]" by code_simp
  moreover have "fieldsData (ex_builder 1) = [(''age'', \<lparr>Container = ''default'', fd_ID = 0, fd_Field = ''age''\<rparr>),
   (''city'', \<lparr>Container = ''default'', fd_ID = 1, fd_Field = ''city''\<rparr>)]" by code_simp
  ultimately show "t \<in> {0, 1} \<Longrightarrow> ?thesis" by auto
qed

lemma ex_new: "t \<in> {0, 1} \<Longrightarrow> \<exists>b. NewIndexerBuilder ex_env [WithIndexerType t] = Inr b \<and> indexerType b = t"
  by (auto simp: NewIndexerBuilder_def initIndexer_def IndexerTypeDefault_def IndexerTypeCompact_def)

lemma ex_run:
  assumes "t \<in> {0, 1}"
  shows "builder_run ex_env [WithIndexerType t] [ex_doc7, ex_doc8] (ex_builder t)"
proof -
  obtain b where b: "NewIndexerBuilder ex_env [WithIndexerType t] = Inr b" using ex_new [OF assms] by blast
  have "AddDocument ex_env b (map Some [ex_doc7, ex_doc8]) = (ex_builder t, Inr ())"
    using ex_add [OF assms] by (simp add: b ex_builder_def prod_eq_iff)
  then show ?thesis using run_add [OF run_new [OF b]] by fastforce
qed

lemma ex_factory_ok [simp]: "factory_ok (env_factory ex_env)"
  by (simp add: ex_env_def factory_ok_Init)

lemma ex_env_lib: "env_lib ex_env = ex_lib"
  by (simp add: ex_env_def)

lemma ex_docs_wf: "docs_wf [ex_doc7, ex_doc8]"
  by (simp add: docs_wf_def ex_doc7_def ex_doc8_def AddConjunction_def NewDocument_def Conj_In_def Conj_NotIn_def)

lemma ex_holder: "NewEntriesHolder (env_factory ex_env) name = Some h \<longleftrightarrow> name = ''default'' \<and> h = HDefault NewDefaultEntriesHolder"
  by (auto simp: ex_env_def InitHolderDefaults_def RegisterEntriesHolder_def NewEntriesHolder_def HolderNameDefault_def)

lemma ex_nil_quiet: "nil_quiet (env_factory ex_env)"
  by (rule nil_quiet_default) (simp add: ex_holder NewDefaultEntriesHolder_def)

lemma ex_query_ok:
  assumes "t \<in> {0, 1}"
  shows "query_fits ex_env (ex_builder t) ex_ass"
  using ex_nil_quiet
  by (auto simp: query_fits_def query_ok_def ex_fields [OF assms] ex_ass_def ex_holder dh_answers_def DH_GetTokenizer_def
    NewDefaultEntriesHolder_def NewDefaultTokenizer_def)

lemma ex_hit:
  assumes "t \<in> {0, 1}" "f \<in> {''age'', ''city''}"
  shows "expr_hit ex_env (fieldsData (ex_builder t)) f bv v \<longleftrightarrow>
    (\<exists>ts us. Operator bv = ValueOptEQ \<and> ValuesToStrings (Value bv) = Inr ts \<and> ValuesToStrings v = Inr us \<and> set ts \<inter> set us \<noteq> {})"
proof -
  obtain desc where "map_of (fieldsData (ex_builder t)) f = Some desc" "Container desc = ''default''"
    using assms(2) by (auto simp: ex_fields [OF assms(1)])
  then show ?thesis using expr_hit_default [of _ f desc ex_env NewDefaultEntriesHolder bv v]
    by (simp add: ex_holder DH_GetTokenizer_def) (simp add: NewDefaultEntriesHolder_def NewDefaultTokenizer_def)
qed

lemma ex_Cons:
  "doc_Cons ex_doc7 = [\<lparr>Expressions = [(''age'', [NewBoolValue ValueOptEQ (VIntS KInt (Slice [1, 2])) True]),
     (''city'', [NewBoolValue ValueOptEQ (VStr ''sh'') False])]\<rparr>]" "ID ex_doc7 = 7"
  "doc_Cons ex_doc8 = [\<lparr>Expressions = [(''city'', [NewBoolValue ValueOptEQ (VStr ''bj'') False])]\<rparr>]" "ID ex_doc8 = -8"
  by code_simp+

lemma ex_dec: "int_dec 1 = ''1''" "int_dec 2 = ''2''"
  by code_simp+

lemma ex_sat:
  assumes "t \<in> {0, 1}"
  shows "conj_sat ex_env (fieldsData (ex_builder t)) \<lparr>Expressions = [(''age'', [NewBoolValue ValueOptEQ (VIntS KInt (Slice [1, 2])) True]),
     (''city'', [NewBoolValue ValueOptEQ (VStr ''sh'') False])]\<rparr> ex_ass"
   "\<not> conj_sat ex_env (fieldsData (ex_builder t)) \<lparr>Expressions = [(''city'', [NewBoolValue ValueOptEQ (VStr ''bj'') False])]\<rparr> ex_ass"
  by (auto simp: conj_sat_def incl_fields_def flat_exprs_def ex_ass_def NewBoolValue_def ex_hit [OF assms] ex_dec)

lemma ex_good:
  assumes "t \<in> {0, 1}"
  shows "\<not> bad_conj ex_env (fieldsData (ex_builder t)) \<lparr>Expressions = [(''age'', [NewBoolValue ValueOptEQ (VIntS KInt (Slice [1, 2])) True]),
     (''city'', [NewBoolValue ValueOptEQ (VStr ''sh'') False])]\<rparr>"
  by (auto simp: bad_conj_def build_expr_def ex_fields [OF assms] flat_exprs_def NewBoolValue_def ex_holder DH_BuildFieldIndexingData_def DH_GetTokenizer_def NewDefaultEntriesHolder_def NewDefaultTokenizer_def split: option.splits)

lemma ex_answer:
  assumes "t \<in> {0, 1}"
  shows "answer_ids ex_env (ex_builder t) [ex_doc7, ex_doc8] ex_ass = {7}"
  using ex_sat [OF assms] ex_good [OF assms] by (auto simp: answer_ids_def doc_sat_def ex_Cons intro!: exI [of _ ex_doc7])

subsection \<open>A document that cannot be indexed\<close>

definition ex_bad_doc :: Document where
  "ex_bad_doc = AddConjunction (NewDocument 9) [Conj_In NewConjunction ''age'' VOther]"

lemma ex_bad_Cons: "doc_Cons ex_bad_doc = [\<lparr>Expressions = [(''age'', [NewBoolValue ValueOptEQ VOther True])]\<rparr>]"
  by code_simp

lemma ex_bad_add: "\<exists>b' m. AddDocument ex_env (ex_builder 0) [Some ex_bad_doc] = (b', Inl (Err m))"
proof -
  have "(case snd (AddDocument ex_env (ex_builder 0) [Some ex_bad_doc]) of Inl (Err m) \<Rightarrow> True | _ \<Rightarrow> False) = True"
    by code_simp
  then show ?thesis
    by (cases "AddDocument ex_env (ex_builder 0) [Some ex_bad_doc]") (auto split: sum.splits gerr.splits)
qed

end
