(* ===== verification/RoaringIds.thy ===== *)
theory RoaringIds
  imports IdTypes
begin

text \<open>
  Model of \<^verbatim>\<open>roaringidx/conjunction_types.go\<close>: conjunction ids of the roaring index, 56 bits of a
  signed document id and 8 bits of the conjunction's index.
\<close>

type_synonym ConjunctionID = u64

definition MaxConjunctions :: u64 where "MaxConjunctions = 0xFF"
definition MaxDocumentID :: int where "MaxDocumentID = 0x7FFFFFFFFFFFFF"

definition ValidRoaringIdxDocID :: "int \<Rightarrow> bool" where
  "ValidRoaringIdxDocID i \<longleftrightarrow> i \<le> MaxDocumentID \<and> i \<ge> - MaxDocumentID"

definition NewConjunctionID :: "int \<Rightarrow> int \<Rightarrow> ConjunctionID res" where
  "NewConjunctionID idx doc =
     (if \<not> ValidIdxOrSize idx \<or> \<not> ValidRoaringIdxDocID doc then Inl (Err ''id overflow'')
      else Inr (push_bit 8 (word_of_int doc) OR word_of_int idx))"

text \<open>\<^verbatim>\<open>int64(id) >> 8\<close> is an arithmetic shift.\<close>

definition ConjunctionID_DocID :: "ConjunctionID \<Rightarrow> int" where
  "ConjunctionID_DocID c = drop_bit 8 (sint c)"

definition ConjunctionID_Idx :: "ConjunctionID \<Rightarrow> int" where
  "ConjunctionID_Idx c = uint (c AND MaxConjunctions)"

subsection \<open>Packing\<close>

lemma NewConjunctionID_int:
  assumes "NewConjunctionID idx doc = Inr c"
  shows "c = word_of_int (doc * 256 + idx)" "0 \<le> idx" "idx < 256" "- (2 ^ 55) < doc" "doc < 2 ^ 55"
proof -
  have v: "ValidIdxOrSize idx" "ValidRoaringIdxDocID doc" and c: "c = push_bit 8 (word_of_int doc) OR word_of_int idx"
    using assms by (auto simp: NewConjunctionID_def split: if_splits)
  then show r: "0 \<le> idx" "idx < 256" "- (2 ^ 55) < doc" "doc < 2 ^ 55"
    by (auto simp: ValidIdxOrSize_def ValidRoaringIdxDocID_def MaxDocumentID_def)
  have p: "push_bit 8 (word_of_int doc :: u64) = word_of_int (push_bit 8 doc)"
    by (simp add: push_bit_eq_mult)
  have "push_bit 8 doc OR idx = doc * 256 + idx" using int_push_bit_or [of idx 8 doc] r(1,2) by simp
  then show "c = word_of_int (doc * 256 + idx)"
    unfolding c p word_wi_log_defs(3) by simp
qed

lemma sint_word_of_int_id: "- (2 ^ 63) \<le> i \<Longrightarrow> i < 2 ^ 63 \<Longrightarrow> sint (word_of_int i :: u64) = i"
  unfolding sint_sbintrunc' by (simp add: signed_take_bit_int_eq_self)

lemma ConjunctionID_parts:
  assumes "NewConjunctionID idx doc = Inr c"
  shows "ConjunctionID_DocID c = doc" "ConjunctionID_Idx c = idx"
proof -
  note n = NewConjunctionID_int [OF assms]
  have "sint c = doc * 256 + idx" unfolding n(1) using n(2-) by (intro sint_word_of_int_id) simp_all
  then show "ConjunctionID_DocID c = doc" using n(2,3) by (simp add: ConjunctionID_DocID_def drop_bit_eq_div)
  have "uint c mod 256 = (doc * 256 + idx) mod 256"
    unfolding n(1) uint_word_of_int by (simp add: mod_mod_cancel)
  then show "ConjunctionID_Idx c = idx"
    using n(2,3) by (simp add: ConjunctionID_Idx_def MaxConjunctions_def uint_and_255)
qed

lemma NewConjunctionID_inj:
  assumes "NewConjunctionID i d = Inr c" "NewConjunctionID j e = Inr c"
  shows "i = j" "d = e"
  using ConjunctionID_parts [OF assms(1)] ConjunctionID_parts [OF assms(2)] by simp_all

text \<open>
  C35: Packing a conjunction id fails exactly when the index does not fit into 8 bits or the
  document id into 55 bits and a sign; otherwise the document id, negative ones included, and
  the index are read back unchanged.
\<close>

theorem NewConjunctionID_round_trip:
  "if 0 \<le> idx \<and> idx \<le> 255 \<and> - MaxDocumentID \<le> doc \<and> doc \<le> MaxDocumentID
   then \<exists>c. NewConjunctionID idx doc = Inr c \<and> ConjunctionID_DocID c = doc \<and> ConjunctionID_Idx c = idx
   else \<exists>m. NewConjunctionID idx doc = Inl (Err m)"
proof (cases "ValidIdxOrSize idx \<and> ValidRoaringIdxDocID doc")
  case True
  then obtain c where "NewConjunctionID idx doc = Inr c" by (simp add: NewConjunctionID_def)
  then show ?thesis using True ConjunctionID_parts [of idx doc c]
    by (auto simp: ValidIdxOrSize_def ValidRoaringIdxDocID_def)
next
  case False
  then show ?thesis by (auto simp: NewConjunctionID_def ValidIdxOrSize_def ValidRoaringIdxDocID_def)
qed

end
