(* ===== verification/GeoHash.thy ===== *)
theory GeoHash
  imports RangeParser "HOL-Library.Sublist"
begin

text \<open>
  Model of \<^verbatim>\<open>parser/geohash_parser.go\<close>: an expression names a circle \<^verbatim>\<open>lat:lon:radius\<close>, which becomes
  the geohash cells that cover it; a query is a location, which becomes the prefixes of its
  geohash. The two geohash packages and \<^verbatim>\<open>strconv.ParseFloat\<close> are parameters, carried by the
  parser.
\<close>

subsection \<open>The parser\<close>

record geo_lib =
  geo_ParseFloat :: "string \<Rightarrow> gfloat option"
  CreateGeohash :: "gfloat \<Rightarrow> gfloat \<Rightarrow> gfloat \<Rightarrow> int \<Rightarrow> string list"
  CompressGeoHash :: "string list \<Rightarrow> int \<Rightarrow> int \<Rightarrow> string list"
  geohash_Encode :: "gfloat \<Rightarrow> gfloat \<Rightarrow> string"
  ConvertStringToInt :: "string \<Rightarrow> u64"

record GeoOption =
  Precision :: int
  CompressPrecisionMin :: int
  CompressPrecisionCutoff :: int

record GeoHashParser = GeoOption +
  geo_pkg :: geo_lib

definition DefaultGeoHashOption :: GeoOption where
  "DefaultGeoHashOption = \<lparr>Precision = 6, CompressPrecisionMin = 3, CompressPrecisionCutoff = 6\<rparr>"

definition InitDefault :: "'a GeoOption_scheme \<Rightarrow> 'a GeoOption_scheme" where
  "InitDefault p =
     (let p = (if Precision p = 0 then p\<lparr>Precision := 6\<rparr> else p);
          p = (if CompressPrecisionMin p = 0 then p\<lparr>CompressPrecisionMin := 4\<rparr> else p);
          p = (if CompressPrecisionCutoff p = 0 then p\<lparr>CompressPrecisionCutoff := 6\<rparr> else p)
      in p\<lparr>CompressPrecisionCutoff := MinInt (CompressPrecisionCutoff p) (Precision p)\<rparr>)"

definition NewGeoHashParser :: "geo_lib \<Rightarrow> GeoOption option \<Rightarrow> GeoHashParser" where
  "NewGeoHashParser lib opt =
     (let option = (case opt of None \<Rightarrow> DefaultGeoHashOption | Some o' \<Rightarrow> o')
      in InitDefault (GeoOption.extend option \<lparr>geo_pkg = lib\<rparr>))"

subsection \<open>Expressions\<close>

definition parseLatLonRadius :: "geo_lib \<Rightarrow> string \<Rightarrow> (gfloat \<times> gfloat \<times> gfloat) res" where
  "parseLatLonRadius lib s =
     (let ss = split_on (CHR '':'') s
      in if length ss \<noteq> 3 then Inl (Err ''fmt error, need lat:lon:radius'')
         else case geo_ParseFloat lib (ss ! 0) of
                None \<Rightarrow> Inl (Err ''strconv.ParseFloat: parsing'')
              | Some lat \<Rightarrow>
                  (case geo_ParseFloat lib (ss ! 1) of
                     None \<Rightarrow> Inl (Err ''strconv.ParseFloat: parsing'')
                   | Some lon \<Rightarrow>
                       (case geo_ParseFloat lib (ss ! 2) of
                          None \<Rightarrow> Inl (Err ''strconv.ParseFloat: parsing'')
                        | Some r \<Rightarrow> Inr (lat, lon, r))))"

text \<open>\<^verbatim>\<open>uint(p.Precision)\<close> wraps a negative precision around.\<close>

definition genGeoHash :: "GeoHashParser \<Rightarrow> string \<Rightarrow> string list res" where
  "genGeoHash p v =
     (case parseLatLonRadius (geo_pkg p) v of
        Inl e \<Rightarrow> Inl e
      | Inr (lat, lon, r) \<Rightarrow>
          (let codes = CreateGeohash (geo_pkg p) lat lon r (Precision p mod 2 ^ 64)
           in Inr (CompressGeoHash (geo_pkg p) codes (CompressPrecisionMin p) (CompressPrecisionCutoff p))))"

fun geo_any :: "GeoHashParser \<Rightarrow> gval \<Rightarrow> string list res" where
  "geo_any p (VStr s) = genGeoHash p s"
| "geo_any p _ = Inl (Err ''need format like lat:lon:radius'')"

definition distinct_concat :: "string list list res \<Rightarrow> string list res" where
  "distinct_concat r = (case r of Inl e \<Rightarrow> Inl e | Inr parts \<Rightarrow> Inr (DistinctString (concat parts)))"

fun Geo_TokenizeValue :: "GeoHashParser \<Rightarrow> gval \<Rightarrow> string list res" where
  "Geo_TokenizeValue p (VStr value) = genGeoHash p value"
| "Geo_TokenizeValue p (VStrS value) = distinct_concat (map_res (genGeoHash p) (elems value))"
| "Geo_TokenizeValue p (VAnyS value) = distinct_concat (map_res (geo_any p) (elems value))"
| "Geo_TokenizeValue p _ = Inl (Err ''unsupported geohash type'')"

subsection \<open>Queries\<close>

text \<open>\<^verbatim>\<open>geohashCode[:i]\<close>\<close>

definition str_prefix :: "string \<Rightarrow> int \<Rightarrow> string res" where
  "str_prefix s i =
     (if 0 \<le> i \<and> i \<le> int (length s) then Inr (take (nat i) s) else Inl (Panic ''slice bounds out of range''))"

definition genQueryAssignGeoHash :: "GeoHashParser \<Rightarrow> gfloat \<Rightarrow> gfloat \<Rightarrow> string list res" where
  "genQueryAssignGeoHash p lat lon =
     (let geohashCode = geohash_Encode (geo_pkg p) lat lon
      in if Precision p < 0 then Inl (Panic ''makeslice: cap out of range'')
         else map_res (str_prefix geohashCode) [CompressPrecisionMin p .. Precision p])"

fun Geo_TokenizeAssign :: "GeoHashParser \<Rightarrow> gval \<Rightarrow> string list res" where
  "Geo_TokenizeAssign p (VArr2F lat lon) = genQueryAssignGeoHash p lat lon"
| "Geo_TokenizeAssign p (VFltS KFloat64 value) =
     (case elems value of
        [lat, lon] \<Rightarrow> genQueryAssignGeoHash p lat lon
      | _ \<Rightarrow> Inl (Err ''need lat/lon value''))"
| "Geo_TokenizeAssign p _ = Inl (Err ''bad query assign fmt, need [lat, lon]'')"

subsection \<open>Ids\<close>

definition geo_ids :: "GeoHashParser \<Rightarrow> string list res \<Rightarrow> u64 list res" where
  "geo_ids p r = (case r of Inl e \<Rightarrow> Inl e | Inr codes \<Rightarrow> Inr (map (ConvertStringToInt (geo_pkg p)) codes))"

definition Geo_ParseAssign :: "GeoHashParser \<Rightarrow> gval \<Rightarrow> u64 list res" where
  "Geo_ParseAssign p v = geo_ids p (Geo_TokenizeAssign p v)"

definition Geo_ParseValue :: "GeoHashParser \<Rightarrow> gval \<Rightarrow> u64 list res" where
  "Geo_ParseValue p v = geo_ids p (Geo_TokenizeValue p v)"

definition Geo_tokenizer :: "GeoHashParser \<Rightarrow> ValueTokenizer" where
  "Geo_tokenizer p = \<lparr>TokenizeValue = Geo_TokenizeValue p, TokenizeAssign = Geo_TokenizeAssign p\<rparr>"

subsection \<open>Properties\<close>

lemma map_res_prefixes:
  "map_res (str_prefix s) is =
     (if \<forall>i\<in>set is. 0 \<le> i \<and> i \<le> int (length s) then Inr (map (\<lambda>i. take (nat i) s) is)
      else Inl (Panic ''slice bounds out of range''))"
  by (induction "is") (auto simp: str_prefix_def)

lemma take_prefixes:
  assumes "0 \<le> lo" "hi \<le> int (length s)"
  shows "(\<lambda>i. take (nat i) s) ` {lo..hi} = {t. prefix t s \<and> lo \<le> int (length t) \<and> int (length t) \<le> hi}"
proof (intro set_eqI iffI)
  fix t assume "t \<in> (\<lambda>i. take (nat i) s) ` {lo..hi}"
  then show "t \<in> {t. prefix t s \<and> lo \<le> int (length t) \<and> int (length t) \<le> hi}"
    using assms by (auto simp: take_is_prefix)
next
  fix t assume "t \<in> {t. prefix t s \<and> lo \<le> int (length t) \<and> int (length t) \<le> hi}"
  then show "t \<in> (\<lambda>i. take (nat i) s) ` {lo..hi}"
    by (intro image_eqI [of _ _ "int (length t)"]) (auto simp: prefix_def)
qed

text \<open>
  C38: A location becomes exactly the prefixes of its geohash whose lengths lie between the
  smallest compressed precision and the precision: these are the cells around the location
  that a document can name. When the precision is negative or larger than the geohash, or
  the smallest precision is negative, the query panics.
\<close>

theorem geohash_query_cells:
  "if 0 \<le> Precision p \<and> (Precision p < CompressPrecisionMin p \<or>
       0 \<le> CompressPrecisionMin p \<and> Precision p \<le> int (length (geohash_Encode (geo_pkg p) lat lon)))
   then \<exists>ts. TokenizeAssign (Geo_tokenizer p) (VArr2F lat lon) = Inr ts \<and>
     set ts = {t. prefix t (geohash_Encode (geo_pkg p) lat lon) \<and>
       CompressPrecisionMin p \<le> int (length t) \<and> int (length t) \<le> Precision p}
   else \<exists>m. TokenizeAssign (Geo_tokenizer p) (VArr2F lat lon) = Inl (Panic m)"
proof -
  let ?s = "geohash_Encode (geo_pkg p) lat lon" and ?lo = "CompressPrecisionMin p" and ?hi = "Precision p"
  have all: "(\<forall>i\<in>{?lo..?hi}. 0 \<le> i \<and> i \<le> int (length ?s)) \<longleftrightarrow> (?hi < ?lo \<or> 0 \<le> ?lo \<and> ?hi \<le> int (length ?s))"
    by fastforce
  have "(\<lambda>i. take (nat i) ?s) ` {?lo..?hi} = {t. prefix t ?s \<and> ?lo \<le> int (length t) \<and> int (length t) \<le> ?hi}"
    if "?hi < ?lo \<or> 0 \<le> ?lo \<and> ?hi \<le> int (length ?s)"
    using that take_prefixes [of ?lo ?hi ?s] by (cases "?lo \<le> ?hi") auto
  then show ?thesis
    by (simp add: Geo_tokenizer_def genQueryAssignGeoHash_def map_res_prefixes all)
qed

end
