(* ===== verification/ValueIds.thy ===== *)
theory ValueIds
  imports GeoHash
begin

text \<open>
  Model of \<^verbatim>\<open>parser/id_allocator.go\<close>, \<^verbatim>\<open>parser/common_parser.go\<close> and \<^verbatim>\<open>parser/str_parser_hash.go\<close>, and
  of the interface \<^verbatim>\<open>ValueIDGenerator\<close> (\<^verbatim>\<open>parser/types.go\<close>) over every parser that implements it:
  the roaring index turns the values of expressions and queries into 64-bit ids. Parsing a
  value may allocate ids, so it returns the parser it leaves behind. The locale
  \<open>value_parser\<close> is the contract the index relies on: ids never change once allocated.
\<close>

subsection \<open>Id allocators\<close>

text \<open>The 64-bit FNV-1 hash (\<^verbatim>\<open>hash/fnv\<close>, \<^verbatim>\<open>New64\<close>).\<close>

definition fnvHashString :: "string \<Rightarrow> u64" where
  "fnvHashString s = foldl (\<lambda>h c. (h * 1099511628211) XOR of_char c) 14695981039346656037 s"

datatype IDAllocator = HashAllocator "string \<Rightarrow> u64" | IDAllocatorImpl "(string \<times> u64) list"

definition NewHashAllocator :: "(string \<Rightarrow> u64) option \<Rightarrow> IDAllocator" where
  "NewHashAllocator fn = HashAllocator (case fn of None \<Rightarrow> fnvHashString | Some f \<Rightarrow> f)"

definition NewIDAllocatorImpl :: IDAllocator where
  "NewIDAllocatorImpl = IDAllocatorImpl []"

text \<open>The allocators and the ids they found: \<open>None\<close> is \<^verbatim>\<open>found == false\<close>.\<close>

fun FindStringID :: "IDAllocator \<Rightarrow> string \<Rightarrow> u64 option" where
  "FindStringID (HashAllocator hashFn) v = Some (hashFn v)"
| "FindStringID (IDAllocatorImpl strBox) v = map_of strBox v"

fun AllocStringID :: "IDAllocator \<Rightarrow> string \<Rightarrow> IDAllocator \<times> u64" where
  "AllocStringID (HashAllocator hashFn) v = (HashAllocator hashFn, hashFn v)"
| "AllocStringID (IDAllocatorImpl strBox) v =
     (case map_of strBox v of
        Some vid \<Rightarrow> (IDAllocatorImpl strBox, vid)
      | None \<Rightarrow>
          (let vid = word_of_nat (length strBox) in (IDAllocatorImpl (alist_put v vid strBox), vid)))"

text \<open>\<^verbatim>\<open>TotalIDCount\<close> is a method of \<^verbatim>\<open>IDAllocatorImpl\<close> only: its argument is the map \<^verbatim>\<open>strBox\<close>.\<close>

definition TotalIDCount :: "(string \<times> u64) list \<Rightarrow> u64" where
  "TotalIDCount strBox = word_of_nat (length strBox)"

subsection \<open>CommonStrParser\<close>

record CommonStrParser =
  cp_EnableFloat2Int :: bool
  cp_StrIDAllocator :: IDAllocator

definition NewCommonParser :: CommonStrParser where
  "NewCommonParser = \<lparr>cp_EnableFloat2Int = True, cp_StrIDAllocator = NewHashAllocator None\<rparr>"

definition cp_find :: "CommonStrParser \<Rightarrow> string \<Rightarrow> u64 option" where
  "cp_find p s = FindStringID (cp_StrIDAllocator p) s"

definition cp_alloc :: "CommonStrParser \<Rightarrow> string \<Rightarrow> CommonStrParser \<times> u64" where
  "cp_alloc p s = (case AllocStringID (cp_StrIDAllocator p) s of (a, vid) \<Rightarrow> (p\<lparr>cp_StrIDAllocator := a\<rparr>, vid))"

text \<open>\<^verbatim>\<open>fmt.Sprintf("%v", uint64(vf.Float()))\<close>\<close>

definition float_uint_text :: "gfloat \<Rightarrow> string" where
  "float_uint_text f = int_dec (float_uint64 f)"

text \<open>An unsupported element is printed and skipped; a nil element makes the printing panic.\<close>

fun findInterfaceID :: "CommonStrParser \<Rightarrow> gval \<Rightarrow> u64 option res" where
  "findInterfaceID p (VStr s) = Inr (cp_find p s)"
| "findInterfaceID p (VJson s) = Inr (cp_find p s)"
| "findInterfaceID p (VInt _ i) = Inr (cp_find p (int_dec i))"
| "findInterfaceID p (VFlt _ f) = Inr (if cp_EnableFloat2Int p then cp_find p (float_uint_text f) else None)"
| "findInterfaceID p VNil = Inl (Panic ''nil pointer dereference: reflect.TypeOf(nil).String()'')"
| "findInterfaceID p _ = Inr None"

definition found_one :: "u64 option \<Rightarrow> u64 list" where
  "found_one r = (case r of None \<Rightarrow> [] | Some vid \<Rightarrow> [vid])"

definition find_strings :: "CommonStrParser \<Rightarrow> string list \<Rightarrow> u64 list" where
  "find_strings p ss = concat (map (\<lambda>s. found_one (cp_find p s)) ss)"

fun CP_switch_assign :: "CommonStrParser \<Rightarrow> gval \<Rightarrow> u64 list res" where
  "CP_switch_assign p (VStr t) = Inr (found_one (cp_find p t))"
| "CP_switch_assign p (VJson t) = Inr (found_one (cp_find p t))"
| "CP_switch_assign p (VInt _ t) = Inr (found_one (cp_find p (int_dec t)))"
| "CP_switch_assign p (VFlt _ v) =
     (if cp_EnableFloat2Int p then Inr (found_one (cp_find p (float_uint_text v)))
      else Inl (Err ''value type not support''))"
| "CP_switch_assign p (VFltS _ t) =
     (if cp_EnableFloat2Int p then Inr (find_strings p (map float_uint_text (elems t)))
      else Inl (Err ''value type not support''))"
| "CP_switch_assign p (VIntS _ t) = Inr (find_strings p (map int_dec (elems t)))"
| "CP_switch_assign p (VJsonS t) = Inr (find_strings p (elems t))"
| "CP_switch_assign p (VStrS t) = Inr (find_strings p (elems t))"
| "CP_switch_assign p (VAnyS t) =
     (case map_res (findInterfaceID p) (elems t) of
        Inl e \<Rightarrow> Inl e | Inr rs \<Rightarrow> Inr (concat (map found_one rs)))"
| "CP_switch_assign p _ = Inl (Err ''value type not support'')"

definition CP_ParseAssign :: "CommonStrParser \<Rightarrow> gval \<Rightarrow> u64 list res" where
  "CP_ParseAssign p v =
     (case NilInterface v of Inl e \<Rightarrow> Inl e | Inr True \<Rightarrow> Inr [] | Inr False \<Rightarrow> CP_switch_assign p v)"

fun alloc_strings :: "CommonStrParser \<Rightarrow> string list \<Rightarrow> CommonStrParser \<times> u64 list" where
  "alloc_strings p [] = (p, [])"
| "alloc_strings p (s # ss) =
     (case cp_alloc p s of (p1, vid) \<Rightarrow> (case alloc_strings p1 ss of (p2, ids) \<Rightarrow> (p2, vid # ids)))"

definition alloc_ok :: "CommonStrParser \<times> u64 list \<Rightarrow> CommonStrParser \<times> u64 list res" where
  "alloc_ok r = (case r of (p, ids) \<Rightarrow> (p, Inr ids))"

fun allocInterfaceID :: "CommonStrParser \<Rightarrow> gval \<Rightarrow> CommonStrParser \<times> u64 res" where
  "allocInterfaceID p (VStr s) = map_prod id Inr (cp_alloc p s)"
| "allocInterfaceID p (VJson s) = map_prod id Inr (cp_alloc p s)"
| "allocInterfaceID p (VInt _ i) = map_prod id Inr (cp_alloc p (int_dec i))"
| "allocInterfaceID p (VFlt _ f) =
     (if cp_EnableFloat2Int p then map_prod id Inr (cp_alloc p (float_uint_text f))
      else (p, Inl (Err ''type float not supported'')))"
| "allocInterfaceID p _ = (p, Inl (Err ''need string type''))"

fun alloc_interfaces :: "CommonStrParser \<Rightarrow> gval list \<Rightarrow> CommonStrParser \<times> u64 list res" where
  "alloc_interfaces p [] = (p, Inr [])"
| "alloc_interfaces p (iv # ivs) =
     (case allocInterfaceID p iv of
        (p1, Inl e) \<Rightarrow> (p1, Inl e)
      | (p1, Inr num) \<Rightarrow>
          (case alloc_interfaces p1 ivs of
             (p2, Inl e) \<Rightarrow> (p2, Inl e) | (p2, Inr res) \<Rightarrow> (p2, Inr (num # res))))"

text \<open>The elements of a float slice are allocated under their own text, not under the integer's.\<close>

fun CP_ParseValue :: "CommonStrParser \<Rightarrow> gval \<Rightarrow> CommonStrParser \<times> u64 list res" where
  "CP_ParseValue p (VInt _ i) = alloc_ok (alloc_strings p [int_dec i])"
| "CP_ParseValue p (VStr s) = alloc_ok (alloc_strings p [s])"
| "CP_ParseValue p (VJson s) = alloc_ok (alloc_strings p [s])"
| "CP_ParseValue p (VFlt _ f) =
     (if cp_EnableFloat2Int p then alloc_ok (alloc_strings p [float_uint_text f])
      else (p, Inl (Err ''type float not supported'')))"
| "CP_ParseValue p (VFltS _ s) =
     (if cp_EnableFloat2Int p then alloc_ok (alloc_strings p (map float_text (elems s)))
      else (p, Inl (Err ''type []float not supported'')))"
| "CP_ParseValue p (VIntS _ s) = alloc_ok (alloc_strings p (map int_dec (elems s)))"
| "CP_ParseValue p (VStrS s) = alloc_ok (alloc_strings p (elems s))"
| "CP_ParseValue p (VJsonS s) = alloc_ok (alloc_strings p (elems s))"
| "CP_ParseValue p (VAnyS s) = alloc_interfaces p (elems s)"
| "CP_ParseValue p VNil = (p, Inl (Panic ''nil pointer dereference: reflect.TypeOf(nil).String()''))"
| "CP_ParseValue p _ = (p, Inl (Err ''type not supported''))"

subsection \<open>StrHashParser\<close>

fun SHP_any :: "gval \<Rightarrow> u64 res" where
  "SHP_any (VStr s) = Inr (fnvHashString s)"
| "SHP_any _ = Inl (Err ''not a string'')"

fun SHP_ParseValue :: "gval \<Rightarrow> u64 list res" where
  "SHP_ParseValue (VStr str) = Inr [fnvHashString str]"
| "SHP_ParseValue (VStrS str) = Inr (map fnvHashString (elems str))"
| "SHP_ParseValue (VAnyS str) = map_res SHP_any (elems str)"
| "SHP_ParseValue _ = Inl (Err ''not a string'')"

definition SHP_ParseAssign :: "gval \<Rightarrow> u64 list res" where
  "SHP_ParseAssign v =
     (case NilInterface v of Inl e \<Rightarrow> Inl e | Inr True \<Rightarrow> Inr [] | Inr False \<Rightarrow> SHP_ParseValue v)"

subsection \<open>Every parser behind one interface\<close>

text \<open>
  \<open>pf\<close> is \<^verbatim>\<open>strconv.ParseFloat\<close>. Parsing a value is an option because the loop of the range
  parser may not end.
\<close>

datatype ValueIDGenerator = GCommon CommonStrParser | GNumber NumberParser | GNumRange | GStrHash
  | GGeoHash GeoHashParser

fun Gen_ParseValue ::
  "(string \<Rightarrow> gfloat option) \<Rightarrow> ValueIDGenerator \<Rightarrow> gval \<Rightarrow> (ValueIDGenerator \<times> u64 list res) option"
where
  "Gen_ParseValue pf (GCommon p) v = (case CP_ParseValue p v of (p', r) \<Rightarrow> Some (GCommon p', r))"
| "Gen_ParseValue pf (GNumber p) v = Some (GNumber p, NumberParser_ParseValue pf p v)"
| "Gen_ParseValue pf GNumRange v = map_option (Pair GNumRange) (NRP_ParseValue v)"
| "Gen_ParseValue pf GStrHash v = Some (GStrHash, SHP_ParseValue v)"
| "Gen_ParseValue pf (GGeoHash p) v = Some (GGeoHash p, Geo_ParseValue p v)"

fun Gen_ParseAssign :: "(string \<Rightarrow> gfloat option) \<Rightarrow> ValueIDGenerator \<Rightarrow> gval \<Rightarrow> u64 list res" where
  "Gen_ParseAssign pf (GCommon p) v = CP_ParseAssign p v"
| "Gen_ParseAssign pf (GNumber p) v = NumberParser_ParseAssign pf p v"
| "Gen_ParseAssign pf GNumRange v = NRP_ParseAssign pf v"
| "Gen_ParseAssign pf GStrHash v = SHP_ParseAssign v"
| "Gen_ParseAssign pf (GGeoHash p) v = Geo_ParseAssign p v"

text \<open>
  The contract of a parser: \<open>le g g'\<close> says that \<open>g'\<close> is \<open>g\<close> after more allocations, \<open>known g v\<close>
  that the value \<open>v\<close> was parsed, and \<open>ids g v\<close> are the ids it has then, now and later.
\<close>

locale value_parser =
  fixes parse :: "'g \<Rightarrow> gval \<Rightarrow> ('g \<times> u64 list res) option"
    and le :: "'g \<Rightarrow> 'g \<Rightarrow> bool"
    and known :: "'g \<Rightarrow> gval \<Rightarrow> bool"
    and ids :: "'g \<Rightarrow> gval \<Rightarrow> u64 set"
  assumes le_refl: "le g g"
    and le_trans: "le g g' \<Longrightarrow> le g' g'' \<Longrightarrow> le g g''"
    and parse_le: "parse g v = Some (g', r) \<Longrightarrow> le g g'"
    and parse_ids: "parse g v = Some (g', Inr xs) \<Longrightarrow> known g' v \<and> ids g' v = set xs"
    and ids_le: "le g g' \<Longrightarrow> known g v \<Longrightarrow> known g' v \<and> ids g' v = ids g v"

subsection \<open>Laws of the allocators\<close>

definition alloc_le :: "IDAllocator \<Rightarrow> IDAllocator \<Rightarrow> bool" where
  "alloc_le a b \<longleftrightarrow> (\<forall>s i. FindStringID a s = Some i \<longrightarrow> FindStringID b s = Some i)"

definition cp_le :: "CommonStrParser \<Rightarrow> CommonStrParser \<Rightarrow> bool" where
  "cp_le p q \<longleftrightarrow> cp_EnableFloat2Int q = cp_EnableFloat2Int p \<and> alloc_le (cp_StrIDAllocator p) (cp_StrIDAllocator q)"

lemma AllocStringID_finds:
  assumes "AllocStringID a s = (a', i)"
  shows "FindStringID a' s = Some i" "alloc_le a a'"
  using assms by (cases a; auto simp: alloc_le_def Let_def split: option.splits)+

lemma cp_le_refl [simp]: "cp_le p p"
  by (simp add: cp_le_def alloc_le_def)

lemma cp_le_trans: "cp_le p q \<Longrightarrow> cp_le q r \<Longrightarrow> cp_le p r"
  by (simp add: cp_le_def alloc_le_def)

lemma cp_find_le: "cp_le p q \<Longrightarrow> cp_find p s = Some i \<Longrightarrow> cp_find q s = Some i"
  by (simp add: cp_le_def alloc_le_def cp_find_def)

lemma cp_alloc_finds:
  assumes "cp_alloc p s = (q, i)"
  shows "cp_find q s = Some i" "cp_le p q"
  using assms AllocStringID_finds [of "cp_StrIDAllocator p" s]
  by (auto simp: cp_alloc_def cp_find_def cp_le_def split: prod.splits)

text \<open>The strings under which a value is allocated.\<close>

fun any_text :: "gval \<Rightarrow> string" where
  "any_text (VInt _ i) = int_dec i"
| "any_text (VStr s) = s"
| "any_text (VJson s) = s"
| "any_text (VFlt _ f) = float_uint_text f"
| "any_text _ = []"

fun value_strings :: "gval \<Rightarrow> string list" where
  "value_strings (VFltS _ s) = map float_text (elems s)"
| "value_strings (VIntS _ s) = map int_dec (elems s)"
| "value_strings (VStrS s) = elems s"
| "value_strings (VJsonS s) = elems s"
| "value_strings (VAnyS s) = map any_text (elems s)"
| "value_strings v = [any_text v]"

definition allocated :: "CommonStrParser \<Rightarrow> string list \<Rightarrow> u64 list \<Rightarrow> bool" where
  "allocated p ss xs \<longleftrightarrow> list_all2 (\<lambda>s i. cp_find p s = Some i) ss xs"

lemma allocated_le: "cp_le p q \<Longrightarrow> allocated p ss xs \<Longrightarrow> allocated q ss xs"
  unfolding allocated_def by (erule list_all2_mono) (rule cp_find_le)

lemma allocated_simps [simp]:
  "allocated p [] []" "allocated p (s # ss) (i # xs) \<longleftrightarrow> cp_find p s = Some i \<and> allocated p ss xs"
  by (simp_all add: allocated_def)

lemma alloc_strings_allocated:
  "alloc_strings p ss = (q, xs) \<Longrightarrow> cp_le p q \<and> allocated q ss xs"
proof (induction ss arbitrary: p q xs)
  case (Cons s ss)
  obtain p1 i where 1: "cp_alloc p s = (p1, i)" by fastforce
  obtain ys where 3: "alloc_strings p1 ss = (q, ys)" "xs = i # ys"
    using Cons.prems by (auto simp: 1 split: prod.splits)
  note IH = Cons.IH [OF 3(1)]
  show ?case using cp_le_trans [OF cp_alloc_finds(2) [OF 1]] cp_find_le [OF _ cp_alloc_finds(1) [OF 1]] IH 3(2) by simp
qed simp

lemma cp_alloc_Inr:
  "map_prod id Inr (cp_alloc p s) = (q, r) \<Longrightarrow> cp_le p q \<and> (\<exists>i. r = Inr i \<and> cp_find q s = Some i)"
  using cp_alloc_finds [of p s] by (cases "cp_alloc p s") auto

lemma allocInterfaceID_allocated:
  "allocInterfaceID p v = (q, r) \<Longrightarrow> cp_le p q \<and> (\<forall>i. r = Inr i \<longrightarrow> cp_find q (any_text v) = Some i)"
  by (cases v) (auto dest!: cp_alloc_Inr split: if_splits)

lemma alloc_interfaces_allocated:
  "alloc_interfaces p vs = (q, r) \<Longrightarrow> cp_le p q \<and> (\<forall>xs. r = Inr xs \<longrightarrow> allocated q (map any_text vs) xs)"
proof (induction vs arbitrary: p q r)
  case (Cons v vs)
  obtain p1 r1 where 1: "allocInterfaceID p v = (p1, r1)" by fastforce
  note a = allocInterfaceID_allocated [OF 1]
  show ?case
  proof (cases r1)
    case (Inl e)
    then show ?thesis using Cons.prems a by (auto simp: 1)
  next
    case (Inr i)
    obtain p2 r2 where 3: "alloc_interfaces p1 vs = (p2, r2)" by fastforce
    have r: "q = p2" "r = (case r2 of Inl e \<Rightarrow> Inl e | Inr xs \<Rightarrow> Inr (i # xs))"
      using Cons.prems by (auto simp: 1 Inr 3 split: sum.splits)
    have "cp_le p1 p2" "\<forall>xs. r2 = Inr xs \<longrightarrow> allocated p2 (map any_text vs) xs" using Cons.IH [OF 3] by auto
    moreover have "cp_le p p1" "cp_find p1 (any_text v) = Some i" using a Inr by auto
    ultimately show ?thesis using cp_le_trans [of p p1 p2] cp_find_le [of p1 p2 "any_text v" i]
      by (simp add: r split: sum.split)
  qed
qed simp

lemma CP_ParseValue_allocated:
  assumes "CP_ParseValue p v = (q, r)"
  shows "cp_le p q" "r = Inr xs \<Longrightarrow> allocated q (value_strings v) xs"
proof -
  have one: "cp_le p q \<and> (r = Inr xs \<longrightarrow> allocated q ss xs)" if "alloc_ok (alloc_strings p ss) = (q, r)" for ss
    using that alloc_strings_allocated [of p ss] by (auto simp: alloc_ok_def split: prod.splits)
  have "cp_le p q \<and> (r = Inr xs \<longrightarrow> allocated q (value_strings v) xs)"
    using assms
    by (cases v) (auto split: if_splits dest!: one alloc_interfaces_allocated simp del: alloc_strings.simps allocated_simps)
  then show "cp_le p q" "r = Inr xs \<Longrightarrow> allocated q (value_strings v) xs" by auto
qed

subsection \<open>The laws of a parser\<close>

fun gen_le :: "ValueIDGenerator \<Rightarrow> ValueIDGenerator \<Rightarrow> bool" where
  "gen_le (GCommon p) g = (case g of GCommon q \<Rightarrow> cp_le p q | _ \<Rightarrow> False)"
| "gen_le g g' = (g' = g)"

fun gen_known :: "ValueIDGenerator \<Rightarrow> gval \<Rightarrow> bool" where
  "gen_known (GCommon p) v = list_all (\<lambda>s. cp_find p s \<noteq> None) (value_strings v)"
| "gen_known _ v = True"

definition res_set :: "'a list res \<Rightarrow> 'a set" where
  "res_set r = (case r of Inl _ \<Rightarrow> {} | Inr xs \<Rightarrow> set xs)"

lemma res_set_simps [simp]: "res_set (Inl e) = {}" "res_set (Inr xs) = set xs"
  by (simp_all add: res_set_def)

fun gen_ids :: "(string \<Rightarrow> gfloat option) \<Rightarrow> ValueIDGenerator \<Rightarrow> gval \<Rightarrow> u64 set" where
  "gen_ids pf (GCommon p) v = set (find_strings p (value_strings v))"
| "gen_ids pf (GNumber p) v = res_set (NumberParser_ParseValue pf p v)"
| "gen_ids pf GNumRange v = (case NRP_ParseValue v of None \<Rightarrow> {} | Some r \<Rightarrow> res_set r)"
| "gen_ids pf GStrHash v = res_set (SHP_ParseValue v)"
| "gen_ids pf (GGeoHash p) v = res_set (Geo_ParseValue p v)"

lemma find_strings_allocated: "allocated p ss xs \<Longrightarrow> find_strings p ss = xs"
  unfolding allocated_def by (induction rule: list_all2_induct) (simp_all add: find_strings_def found_one_def)

lemma find_strings_known:
  assumes "cp_le p q" "list_all (\<lambda>s. cp_find p s \<noteq> None) ss"
  shows "list_all (\<lambda>s. cp_find q s \<noteq> None) ss" "find_strings q ss = find_strings p ss"
  using assms(2) cp_find_le [OF assms(1)] by (induction ss) (auto simp: find_strings_def found_one_def)

interpretation vp: value_parser "Gen_ParseValue pf" gen_le gen_known "gen_ids pf" for pf
proof (unfold_locales, goal_cases)
  case (1 g)
  then show ?case by (cases g) simp_all
next
  case (2 g g' g'')
  then show ?case by (cases g; cases g'; cases g'') (auto intro: cp_le_trans)
next
  case (3 g v g' r)
  then show ?case by (cases g) (auto dest: CP_ParseValue_allocated(1) split: prod.splits)
next
  case (4 g v g' xs)
  show ?case
  proof (cases g)
    case (GCommon p)
    then obtain q where q: "CP_ParseValue p v = (q, Inr xs)" "g' = GCommon q" using 4 by (auto split: prod.splits)
    have a: "allocated q (value_strings v) xs" using CP_ParseValue_allocated(2) [OF q(1) refl] .
    then have "list_all (\<lambda>s. cp_find q s \<noteq> None) (value_strings v)"
      unfolding allocated_def by (auto simp: list_all_iff list_all2_conv_all_nth in_set_conv_nth)
    then show ?thesis using find_strings_allocated [OF a] q(2) by simp
  qed (use 4 in auto)
next
  case (5 g g' v)
  show ?case
  proof (cases g)
    case (GCommon p)
    then obtain q where "g' = GCommon q" "cp_le p q" using 5(1) by (auto split: ValueIDGenerator.splits)
    then show ?thesis using 5(2) GCommon find_strings_known [of p q "value_strings v"] by (simp del: not_None_eq)
  qed (use 5 in auto)
qed

subsection \<open>Properties\<close>

text \<open>A sequence of allocations.\<close>

definition alloc_all :: "IDAllocator \<Rightarrow> string list \<Rightarrow> IDAllocator" where
  "alloc_all a ss = foldl (\<lambda>a s. fst (AllocStringID a s)) a ss"

definition box_ok :: "(string \<times> u64) list \<Rightarrow> bool" where
  "box_ok m \<longleftrightarrow> distinct (map fst m) \<and> map snd m = map word_of_nat [0..<length m]"

lemma alist_put_fresh: "k \<notin> fst ` set m \<Longrightarrow> alist_put k v m = m @ [(k, v)]"
  unfolding alist_put_def by (induction m) auto

lemma AllocStringID_box:
  assumes "box_ok m"
  shows "\<exists>m'. fst (AllocStringID (IDAllocatorImpl m) s) = IDAllocatorImpl m' \<and> box_ok m' \<and>
    fst ` set m' = insert s (fst ` set m) \<and> length m' \<le> Suc (length m)"
proof (cases "map_of m s")
  case None
  then have n: "s \<notin> fst ` set m" by (simp add: map_of_eq_None_iff)
  let ?m = "m @ [(s, word_of_nat (length m))]"
  have "box_ok ?m" using assms n by (simp add: box_ok_def)
  then show ?thesis using None n by (intro exI [of _ ?m]) (simp add: Let_def alist_put_fresh)
next
  case (Some i)
  then have "s \<in> fst ` set m" by (metis domI dom_map_of_conv_image_fst)
  then show ?thesis using assms Some by (intro exI [of _ m]) (simp add: insert_absorb)
qed

lemma alloc_all_box:
  "box_ok m \<Longrightarrow> \<exists>m'. alloc_all (IDAllocatorImpl m) ss = IDAllocatorImpl m' \<and> box_ok m' \<and>
     fst ` set m' = fst ` set m \<union> set ss \<and> length m' \<le> length m + length ss"
proof (induction ss arbitrary: m)
  case (Cons s ss)
  obtain m1 where m1: "fst (AllocStringID (IDAllocatorImpl m) s) = IDAllocatorImpl m1" "box_ok m1"
    "fst ` set m1 = insert s (fst ` set m)" "length m1 \<le> Suc (length m)"
    using AllocStringID_box [OF Cons.prems] by blast
  obtain m' where "alloc_all (IDAllocatorImpl m1) ss = IDAllocatorImpl m'" "box_ok m'"
    "fst ` set m' = fst ` set m1 \<union> set ss" "length m' \<le> length m1 + length ss" using Cons.IH [OF m1(2)] by blast
  then show ?case using m1 by (intro exI [of _ m']) (auto simp: alloc_all_def)
qed (simp add: alloc_all_def)

lemma box_ok_inj:
  assumes b: "box_ok m" and len: "length m \<le> 2 ^ 64" and s: "map_of m s = Some i" and t: "map_of m t = Some i"
  shows "s = t"
proof -
  have d: "distinct (map fst m)" and w: "map snd m = map word_of_nat [0..<length m]" using b by (auto simp: box_ok_def)
  obtain j k where j: "j < length m" "m ! j = (s, i)" and k: "k < length m" "m ! k = (t, i)"
    using map_of_SomeD [OF s] map_of_SomeD [OF t] by (auto simp: in_set_conv_nth)
  have snd: "snd (m ! n) = word_of_nat n" if "n < length m" for n using that arg_cong [OF w, of "\<lambda>l. l ! n"] by simp
  have "(word_of_nat j :: u64) = word_of_nat k" using snd [OF j(1)] snd [OF k(1)] j(2) k(2) by simp
  then have "j = k" using j(1) k(1) len by (simp add: word_of_nat_eq_iff take_bit_nat_eq_self)
  then show ?thesis using j(2) k(2) by simp
qed

text \<open>
  C37: An allocator that is asked for fewer than 2^64 strings knows exactly these strings
  afterwards and gives different strings different ids.
\<close>

theorem IDAllocatorImpl_injective:
  assumes "length ss < 2 ^ 64"
  shows "(\<forall>s. FindStringID (alloc_all NewIDAllocatorImpl ss) s \<noteq> None \<longleftrightarrow> s \<in> set ss) \<and>
    (\<forall>s t. s \<in> set ss \<longrightarrow> FindStringID (alloc_all NewIDAllocatorImpl ss) s = FindStringID (alloc_all NewIDAllocatorImpl ss) t
       \<longrightarrow> s = t)"
proof -
  have "box_ok []" by (simp add: box_ok_def)
  then obtain m where m: "alloc_all NewIDAllocatorImpl ss = IDAllocatorImpl m" "box_ok m" "fst ` set m = set ss"
    "length m \<le> length ss" using alloc_all_box [of "[]" ss] by (auto simp: NewIDAllocatorImpl_def)
  have dom: "map_of m s \<noteq> None \<longleftrightarrow> s \<in> set ss" for s by (simp add: map_of_eq_None_iff m(3))
  have "s = t" if "s \<in> set ss" "map_of m s = map_of m t" for s t
    using dom [of s] that box_ok_inj [OF m(2), of s _ t] m(4) assms by force
  then show ?thesis using dom by (simp add: m(1))
qed

theorem IDAllocatorImpl_injective_witness:
  "FindStringID (alloc_all NewIDAllocatorImpl [''red'', ''blue'', ''red'']) ''blue'' = Some 1 \<and>
   FindStringID (alloc_all NewIDAllocatorImpl [''red'', ''blue'', ''red'']) ''green'' = None"
proof -
  have "length [''red'', ''blue'', ''red''] < 2 ^ 64" by simp
  from IDAllocatorImpl_injective [OF this] show ?thesis
    by (simp add: alloc_all_def NewIDAllocatorImpl_def alist_put_def)
qed

text \<open>Parsing an element and looking it up use the same text.\<close>

lemma findInterfaceID_text:
  assumes "allocInterfaceID p v = (q, Inr i)" "cp_EnableFloat2Int r = cp_EnableFloat2Int p"
  shows "findInterfaceID r v = Inr (cp_find r (any_text v))"
  using assms by (cases v) (auto split: if_splits)

lemma alloc_interfaces_text:
  assumes "alloc_interfaces p vs = (q, Inr xs)" "cp_EnableFloat2Int r = cp_EnableFloat2Int p"
  shows "map_res (findInterfaceID r) vs = Inr (map (\<lambda>v. cp_find r (any_text v)) vs)"
  using assms
proof (induction vs arbitrary: p q xs)
  case (Cons v vs)
  obtain p1 i where 1: "allocInterfaceID p v = (p1, Inr i)"
    using Cons.prems(1) by (auto split: prod.splits sum.splits)
  then obtain ys where 2: "alloc_interfaces p1 vs = (q, Inr ys)"
    using Cons.prems(1) by (auto split: prod.splits sum.splits)
  have "cp_EnableFloat2Int p1 = cp_EnableFloat2Int p"
    using allocInterfaceID_allocated [OF 1] by (simp add: cp_le_def)
  then show ?case using Cons.IH [OF 2] findInterfaceID_text [OF 1] Cons.prems(2) by simp
qed simp

text \<open>
  C36: A value that is indexed is found again: looking up the same value in the parser that
  parsed it gives the ids it was indexed under, for every type but slices of floats.
\<close>

theorem CommonParser_finds_own_values:
  assumes "CP_ParseValue p v = (q, Inr ids)" "\<forall>k s. v \<noteq> VFltS k s"
  shows "CP_ParseAssign q v = Inr ids"
proof -
  have le: "cp_EnableFloat2Int q = cp_EnableFloat2Int p"
    using CP_ParseValue_allocated(1) [OF assms(1)] by (simp add: cp_le_def)
  have find: "find_strings q (value_strings v) = ids"
    using CP_ParseValue_allocated(2) [OF assms(1) refl] by (rule find_strings_allocated)
  then have one: "found_one (cp_find q s) = ids" if "value_strings v = [s]" for s
    using that by (simp add: find_strings_def)
  have nil: "ids = []" if "value_strings v = []" using find that by (simp add: find_strings_def)
  show ?thesis
  proof (cases v)
    case (VAnyS s)
    then have "alloc_interfaces p (elems s) = (q, Inr ids)" using assms(1) by simp
    then have "map_res (findInterfaceID q) (elems s) = Inr (map (\<lambda>v. cp_find q (any_text v)) (elems s))"
      using le by (rule alloc_interfaces_text)
    then show ?thesis using find nil
      by (cases s) (auto simp: VAnyS CP_ParseAssign_def find_strings_def comp_def)
  qed (use assms le find one nil in \<open>auto simp: CP_ParseAssign_def find_strings_def split: if_splits bool.splits\<close>)
qed

theorem CommonParser_finds_own_values_witness:
  "CP_ParseAssign (fst (CP_ParseValue \<lparr>cp_EnableFloat2Int = True, cp_StrIDAllocator = NewIDAllocatorImpl\<rparr>
     (VAnyS (Slice [VInt KInt 7, VStr ''x''])))) (VAnyS (Slice [VInt KInt 7, VStr ''x''])) = Inr [0, 1]"
proof -
  let ?p = "\<lparr>cp_EnableFloat2Int = True, cp_StrIDAllocator = NewIDAllocatorImpl\<rparr>"
  let ?v = "VAnyS (Slice [VInt KInt 7, VStr ''x''])"
  have "int_dec 7 = ''7''" by code_simp
  then have e: "CP_ParseValue ?p ?v = (fst (CP_ParseValue ?p ?v), Inr [0, 1])"
    by (simp add: cp_alloc_def NewIDAllocatorImpl_def alist_put_def)
  show ?thesis by (rule CommonParser_finds_own_values [OF e]) simp
qed

text \<open>
  An element of a float slice is indexed under its own text but looked up under its
  integer part, so a slice with a fraction does not find itself.
\<close>

theorem float_slice_lookup:
  "CP_ParseAssign
     (fst (CP_ParseValue \<lparr>cp_EnableFloat2Int = True, cp_StrIDAllocator = NewIDAllocatorImpl\<rparr> (VFltS k (Slice [f]))))
     (VFltS k (Slice [f]))
   = Inr (if float_text f = int_dec (float_uint64 f) then [0] else [])"
  by (simp add: CP_ParseAssign_def cp_alloc_def NewIDAllocatorImpl_def alist_put_def alloc_ok_def find_strings_def
      cp_find_def found_one_def float_uint_text_def)

end
