(* ===== verification/RoaringContainer.thy ===== *)
theory RoaringContainer
  imports RoaringIds ValueIds AhoMatch
begin

text \<open>
  Model of the field containers of the roaring index: \<^verbatim>\<open>rr_posting_list.go\<close>, \<^verbatim>\<open>be_container.go\<close>,
  \<^verbatim>\<open>be_container_ac.go\<close> and \<^verbatim>\<open>be_container_factory.go\<close> of \<^verbatim>\<open>roaringidx/\<close>. A container keeps three
  kinds of bitmaps of conjunction ids: the ids that do not ask for the field (wildcards),
  and per value the ids that include and exclude it. The 64-bit roaring bitmap is a
  parameter; \<open>roaring_spec\<close> is what its documentation promises.
\<close>

subsection \<open>Bitmaps and their pool\<close>

text \<open>The iterator yields the values of \<^verbatim>\<open>ToArray\<close>.\<close>

record 'b rbitmap =
  rb_New :: 'b
  rb_Add :: "'b \<Rightarrow> u64 \<Rightarrow> 'b"
  rb_AddMany :: "'b \<Rightarrow> u64 list \<Rightarrow> 'b"
  rb_Or :: "'b \<Rightarrow> 'b \<Rightarrow> 'b"
  rb_And :: "'b \<Rightarrow> 'b \<Rightarrow> 'b"
  rb_AndNot :: "'b \<Rightarrow> 'b \<Rightarrow> 'b"
  rb_IsEmpty :: "'b \<Rightarrow> bool"
  rb_Clear :: "'b \<Rightarrow> 'b"
  rb_ToArray :: "'b \<Rightarrow> u64 list"

text \<open>The library code the index calls: the bitmap and \<^verbatim>\<open>strconv.ParseFloat\<close>.\<close>

record 'b renv = "'b rbitmap" +
  re_ParseFloat :: "string \<Rightarrow> gfloat option"

definition rset :: "('b, 'm) rbitmap_scheme \<Rightarrow> 'b \<Rightarrow> u64 set" where
  "rset rb b = set (rb_ToArray rb b)"

definition roaring_spec :: "('b, 'm) rbitmap_scheme \<Rightarrow> bool" where
  "roaring_spec rb \<longleftrightarrow>
     rset rb (rb_New rb) = {} \<and>
     (\<forall>b x. rset rb (rb_Add rb b x) = insert x (rset rb b)) \<and>
     (\<forall>b xs. rset rb (rb_AddMany rb b xs) = rset rb b \<union> set xs) \<and>
     (\<forall>b c. rset rb (rb_Or rb b c) = rset rb b \<union> rset rb c) \<and>
     (\<forall>b c. rset rb (rb_And rb b c) = rset rb b \<inter> rset rb c) \<and>
     (\<forall>b c. rset rb (rb_AndNot rb b c) = rset rb b - rset rb c) \<and>
     (\<forall>b. rb_IsEmpty rb b \<longleftrightarrow> rset rb b = {}) \<and>
     (\<forall>b. rset rb (rb_Clear rb b) = {}) \<and>
     (\<forall>b. sorted (rb_ToArray rb b) \<and> distinct (rb_ToArray rb b))"

lemma roaring_specD:
  assumes "roaring_spec rb"
  shows "rset rb (rb_New rb) = {}" "rset rb (rb_Add rb b x) = insert x (rset rb b)"
    "rset rb (rb_AddMany rb b xs) = rset rb b \<union> set xs"
    "rset rb (rb_Or rb b c) = rset rb b \<union> rset rb c" "rset rb (rb_And rb b c) = rset rb b \<inter> rset rb c"
    "rset rb (rb_AndNot rb b c) = rset rb b - rset rb c" "rb_IsEmpty rb b \<longleftrightarrow> rset rb b = {}"
    "rset rb (rb_Clear rb b) = {}" "sorted (rb_ToArray rb b)" "distinct (rb_ToArray rb b)"
  using assms by (simp_all add: roaring_spec_def)

text \<open>
  \<^verbatim>\<open>bitmapPool\<close>: \<^verbatim>\<open>sync.Pool\<close> may return any bitmap that was put, or a new one. \<open>bp_choices\<close> are its
  coming choices: positions among the free bitmaps, out of range for a new one.
\<close>

record 'b bitmapPool =
  bp_free :: "'b list"
  bp_choices :: "nat list"

definition NewPostingList :: "('b, 'm) rbitmap_scheme \<Rightarrow> 'b bitmapPool \<Rightarrow> 'b \<times> 'b bitmapPool" where
  "NewPostingList rb pool =
     (case bp_choices pool of
        [] \<Rightarrow> (rb_New rb, pool)
      | c # cs \<Rightarrow>
          (if c < length (bp_free pool)
           then (bp_free pool ! c,
                 \<lparr>bp_free = take c (bp_free pool) @ drop (Suc c) (bp_free pool), bp_choices = cs\<rparr>)
           else (rb_New rb, pool\<lparr>bp_choices := cs\<rparr>)))"

definition ReleasePostingList :: "('b, 'm) rbitmap_scheme \<Rightarrow> 'b option \<Rightarrow> 'b bitmapPool \<Rightarrow> 'b bitmapPool" where
  "ReleasePostingList rb list pool =
     (case list of
        None \<Rightarrow> pool
      | Some b \<Rightarrow> pool\<lparr>bp_free := (if rb_IsEmpty rb b then b else rb_Clear rb b) # bp_free pool\<rparr>)"

definition bp_clean :: "('b, 'm) rbitmap_scheme \<Rightarrow> 'b bitmapPool \<Rightarrow> bool" where
  "bp_clean rb pool \<longleftrightarrow> (\<forall>b\<in>set (bp_free pool). rset rb b = {})"

lemma NewPostingList_clean:
  assumes "roaring_spec rb" "bp_clean rb pool" "NewPostingList rb pool = (b, pool')"
  shows "rset rb b = {}" "bp_clean rb pool'"
proof -
  have "set (bp_free pool') \<subseteq> set (bp_free pool)"
    using assms(3) set_take_subset set_drop_subset by (fastforce simp: NewPostingList_def split: if_splits list.splits)
  then show "bp_clean rb pool'" using assms(2) by (auto simp: bp_clean_def)
  show "rset rb b = {}"
    using assms by (auto simp: NewPostingList_def bp_clean_def roaring_specD split: if_splits list.splits)
qed

lemma ReleasePostingList_clean:
  "roaring_spec rb \<Longrightarrow> bp_clean rb pool \<Longrightarrow> bp_clean rb (ReleasePostingList rb l pool)"
  by (cases l) (auto simp: ReleasePostingList_def bp_clean_def roaring_specD)

subsection \<open>Fields and the shared state\<close>

text \<open>
  A parser is shared by pointer, also between fields: \<open>fs_Parser\<close> is its position among the
  parsers of the program, \<open>None\<close> a nil pointer.
\<close>

record FieldSetting =
  fs_Parser :: "nat option"
  fs_Container :: string

record FieldMeta = FieldSetting +
  meta_field :: BEField

record 'b world =
  w_parsers :: "ValueIDGenerator list"
  w_pool :: "'b bitmapPool"

definition parse_with ::
  "'b renv \<Rightarrow> 'b world \<Rightarrow> nat option \<Rightarrow> gval \<Rightarrow> ('b world \<times> u64 list res) option"
where
  "parse_with env w k v =
     (case k of
        Some i \<Rightarrow>
          (if i < length (w_parsers w)
           then (case Gen_ParseValue (re_ParseFloat env) (w_parsers w ! i) v of
                   None \<Rightarrow> None
                 | Some (g, r) \<Rightarrow> Some (w\<lparr>w_parsers := (w_parsers w)[i := g]\<rparr>, r))
           else Some (w, Inl (Panic ''nil pointer dereference'')))
      | None \<Rightarrow> Some (w, Inl (Panic ''nil pointer dereference'')))"

definition assign_with ::
  "'b renv \<Rightarrow> ValueIDGenerator list \<Rightarrow> nat option \<Rightarrow> gval \<Rightarrow> u64 list res"
where
  "assign_with env ps k v =
     (case k of
        Some i \<Rightarrow>
          (if i < length ps then Gen_ParseAssign (re_ParseFloat env) (ps ! i) v
           else Inl (Panic ''nil pointer dereference''))
      | None \<Rightarrow> Inl (Panic ''nil pointer dereference''))"

text \<open>\<^verbatim>\<open>AddInclude\<close>, \<^verbatim>\<open>AddExclude\<close>, \<^verbatim>\<open>AddIncludeID\<close> and \<^verbatim>\<open>AddExcludeID\<close> on their maps.\<close>

definition add_posting ::
  "('b, 'm) rbitmap_scheme \<Rightarrow> 'k \<Rightarrow> ConjunctionID \<Rightarrow> ('k \<times> 'b) list \<times> 'b bitmapPool \<Rightarrow> ('k \<times> 'b) list \<times> 'b bitmapPool"
where
  "add_posting rb key cid mp =
     (case mp of (m, pool) \<Rightarrow>
        (case map_of m key of
           Some pl \<Rightarrow> (alist_put key (rb_Add rb pl cid) m, pool)
         | None \<Rightarrow>
             (case NewPostingList rb pool of
                (pl, pool') \<Rightarrow> (alist_put key (rb_Add rb pl cid) m, pool'))))"

fun add_postings ::
  "('b, 'm) rbitmap_scheme \<Rightarrow> 'k list \<Rightarrow> ConjunctionID \<Rightarrow> ('k \<times> 'b) list \<times> 'b bitmapPool \<Rightarrow> ('k \<times> 'b) list \<times> 'b bitmapPool"
where
  "add_postings rb [] cid mp = mp"
| "add_postings rb (key # keys) cid mp = add_postings rb keys cid (add_posting rb key cid mp)"

subsection \<open>DefaultBEContainer\<close>

record 'b DefaultBEContainer =
  dc_meta :: FieldMeta
  dc_wc :: 'b
  dc_inc :: "(u64 \<times> 'b) list"
  dc_exc :: "(u64 \<times> 'b) list"

definition NewDefaultBEContainer ::
  "('b, 'm) rbitmap_scheme \<Rightarrow> FieldMeta \<Rightarrow> 'b bitmapPool \<Rightarrow> ('b DefaultBEContainer \<times> 'b bitmapPool) res"
where
  "NewDefaultBEContainer rb meta pool =
     (if fs_Parser meta = None then Inl (Panic ''default container must need parser'')
      else (case NewPostingList rb pool of
              (wc, pool') \<Rightarrow> Inr (\<lparr>dc_meta = meta, dc_wc = wc, dc_inc = [], dc_exc = []\<rparr>, pool')))"

definition DC_AddWildcard :: "('b, 'm) rbitmap_scheme \<Rightarrow> 'b DefaultBEContainer \<Rightarrow> ConjunctionID \<Rightarrow> 'b DefaultBEContainer" where
  "DC_AddWildcard rb c cid = c\<lparr>dc_wc := rb_Add rb (dc_wc c) cid\<rparr>"

definition DC_EncodeExpr ::
  "'b renv \<Rightarrow> 'b world \<Rightarrow> 'b DefaultBEContainer \<Rightarrow> ConjunctionID \<Rightarrow> BooleanExpr option \<Rightarrow>
   ('b world \<times> 'b DefaultBEContainer \<times> unit res) option"
where
  "DC_EncodeExpr env w c cid expr =
     (case expr of
        None \<Rightarrow> Some (w, c, Inr ())
      | Some e \<Rightarrow>
          (if Operator e \<noteq> ValueOptEQ
           then Some (w, c, Inl (Panic ''default container support EQ operator only''))
           else (case parse_with env w (fs_Parser (dc_meta c)) (Value e) of
                   None \<Rightarrow> None
                 | Some (w1, Inl err) \<Rightarrow> Some (w1, c, Inl err)
                 | Some (w1, Inr valueIDs) \<Rightarrow>
                     (if Incl e
                      then (case add_postings env valueIDs cid (dc_inc c, w_pool w1) of
                              (m, pool) \<Rightarrow> Some (w1\<lparr>w_pool := pool\<rparr>, c\<lparr>dc_inc := m\<rparr>, Inr ()))
                      else (case add_postings env valueIDs cid (dc_exc c, w_pool w1) of
                              (m, pool) \<Rightarrow> Some (w1\<lparr>w_pool := pool\<rparr>, c\<lparr>dc_exc := m\<rparr>, Inr ()))))))"

definition DC_BuildBEContainer :: "'b DefaultBEContainer \<Rightarrow> 'b DefaultBEContainer res" where
  "DC_BuildBEContainer c = Inr c"

fun or_found :: "('b, 'm) rbitmap_scheme \<Rightarrow> ('k \<times> 'b) list \<Rightarrow> 'k list \<Rightarrow> 'b \<Rightarrow> 'b" where
  "or_found rb m [] inout = inout"
| "or_found rb m (k # ks) inout =
     or_found rb m ks (case map_of m k of Some pl \<Rightarrow> rb_Or rb inout pl | None \<Rightarrow> inout)"

fun andnot_found :: "('b, 'm) rbitmap_scheme \<Rightarrow> ('k \<times> 'b) list \<Rightarrow> 'k list \<Rightarrow> 'b \<Rightarrow> 'b" where
  "andnot_found rb m [] inout = inout"
| "andnot_found rb m (k # ks) inout =
     andnot_found rb m ks (case map_of m k of Some pl \<Rightarrow> rb_AndNot rb inout pl | None \<Rightarrow> inout)"

definition DC_Retrieve ::
  "'b renv \<Rightarrow> ValueIDGenerator list \<Rightarrow> 'b DefaultBEContainer \<Rightarrow> Values \<Rightarrow> 'b \<Rightarrow> 'b res"
where
  "DC_Retrieve env ps c values inout =
     (let inout = rb_Or env inout (dc_wc c)
      in case NilInterface values of
           Inl e \<Rightarrow> Inl e
         | Inr True \<Rightarrow> Inr inout
         | Inr False \<Rightarrow>
             (case assign_with env ps (fs_Parser (dc_meta c)) values of
                Inl e \<Rightarrow> Inl e
              | Inr ids \<Rightarrow> Inr (andnot_found env (dc_exc c) ids (or_found env (dc_inc c) ids inout))))"

subsection \<open>ACBEContainer\<close>

text \<open>\<open>acb_new\<close> is \<^verbatim>\<open>&aho.Machine{}\<close>; a machine that was not built is nil.\<close>

record 'b ACBEContainer =
  acb_querySep :: string
  acb_meta :: FieldMeta
  acb_wc :: 'b
  acb_new :: aho_machine
  acb_inc :: "aho_machine option"
  acb_exc :: "aho_machine option"
  acb_incValues :: "(string \<times> 'b) list"
  acb_excValues :: "(string \<times> 'b) list"

definition NewACBEContainer ::
  "('b, 'm) rbitmap_scheme \<Rightarrow> aho_machine \<Rightarrow> FieldMeta \<Rightarrow> string \<Rightarrow> 'b bitmapPool \<Rightarrow> 'b ACBEContainer \<times> 'b bitmapPool"
where
  "NewACBEContainer rb m meta sep pool =
     (case NewPostingList rb pool of
        (wc, pool') \<Rightarrow>
          (\<lparr>acb_querySep = sep, acb_meta = meta, acb_wc = wc, acb_new = m, acb_inc = None, acb_exc = None,
            acb_incValues = [], acb_excValues = []\<rparr>, pool'))"

definition ACB_AddWildcard :: "('b, 'm) rbitmap_scheme \<Rightarrow> 'b ACBEContainer \<Rightarrow> ConjunctionID \<Rightarrow> 'b ACBEContainer" where
  "ACB_AddWildcard rb c cid = c\<lparr>acb_wc := rb_Add rb (acb_wc c) cid\<rparr>"

text \<open>The unused method \<^verbatim>\<open>buildPatternQueryContent\<close>, a copy of \<^verbatim>\<open>BuildAcMatchContent\<close>.\<close>

fun pattern_loop :: "string \<Rightarrow> nat \<Rightarrow> gval list \<Rightarrow> rune list \<Rightarrow> rune list res" where
  "pattern_loop querySep idx [] data = Inr data"
| "pattern_loop querySep idx (vi # tv) data =
     (case vi of
        VStr str \<Rightarrow>
          (if idx = 0 then pattern_loop querySep (idx + 1) tv (data @ string_runes str)
           else pattern_loop querySep (idx + 1) tv ((data @ string_runes querySep) @ string_runes str))
      | _ \<Rightarrow> Inl (Err ''query assign not string type''))"

fun buildPatternQueryContent :: "'b ACBEContainer \<Rightarrow> gval \<Rightarrow> rune list res" where
  "buildPatternQueryContent c (VStr tv) = Inr (string_runes tv)"
| "buildPatternQueryContent c (VStrS tv) = Inr (string_runes (strings_Join (acb_querySep c) (elems tv)))"
| "buildPatternQueryContent c (VAnyS tv) = pattern_loop (acb_querySep c) 0 (elems tv) []"
| "buildPatternQueryContent c _ = Inl (Err ''query assign not string type'')"

definition ACB_EncodeExpr ::
  "'b renv \<Rightarrow> 'b world \<Rightarrow> 'b ACBEContainer \<Rightarrow> ConjunctionID \<Rightarrow> BooleanExpr option \<Rightarrow>
   ('b world \<times> 'b ACBEContainer \<times> unit res) option"
where
  "ACB_EncodeExpr env w c cid expr =
     (case expr of
        None \<Rightarrow> Some (w, c, Inr ())
      | Some e \<Rightarrow>
          (case NilInterface (Value e) of
             Inl err \<Rightarrow> Some (w, c, Inl err)
           | Inr True \<Rightarrow> Some (w, c, Inr ())
           | Inr False \<Rightarrow>
               (if Operator e \<noteq> ValueOptEQ then Some (w, c, Inl (Panic ''ac_match support EQ operator only''))
                else (case ParseAcMatchDict (Value e) of
                        Inl _ \<Rightarrow> Some (w, c, Inl (Err ''ac container need string type values''))
                      | Inr keys \<Rightarrow>
                          (if Incl e
                           then (case add_postings env keys cid (acb_incValues c, w_pool w) of
                                   (m, pool) \<Rightarrow> Some (w\<lparr>w_pool := pool\<rparr>, c\<lparr>acb_incValues := m\<rparr>, Inr ()))
                           else (case add_postings env keys cid (acb_excValues c, w_pool w) of
                                   (m, pool) \<Rightarrow> Some (w\<lparr>w_pool := pool\<rparr>, c\<lparr>acb_excValues := m\<rparr>, Inr ())))))))"

definition build_machine :: "aho_machine \<Rightarrow> (string \<times> 'b) list \<Rightarrow> aho_machine option \<Rightarrow> aho_machine option res" where
  "build_machine new values old =
     (if length values > 0
      then (case Machine_Build new (map (\<lambda>(kw, pl). string_runes kw) values) of Inl e \<Rightarrow> Inl e | Inr m \<Rightarrow> Inr (Some m))
      else Inr old)"

definition ACB_BuildBEContainer :: "'b ACBEContainer \<Rightarrow> 'b ACBEContainer res" where
  "ACB_BuildBEContainer c =
     (case build_machine (acb_new c) (acb_incValues c) (acb_inc c) of
        Inl e \<Rightarrow> Inl e
      | Inr inc \<Rightarrow>
          (case build_machine (acb_new c) (acb_excValues c) (acb_exc c) of
             Inl e \<Rightarrow> Inl e
           | Inr exc \<Rightarrow> Inr (c\<lparr>acb_inc := inc, acb_exc := exc\<rparr>)))"

text \<open>
  The loop over the found words. A word whose string is no key of the map gives the zero
  posting list, whose nil bitmap the operation dereferences.
\<close>

fun fold_terms :: "('b \<Rightarrow> 'b \<Rightarrow> 'b) \<Rightarrow> (string \<times> 'b) list \<Rightarrow> rune list list \<Rightarrow> 'b \<Rightarrow> 'b res" where
  "fold_terms f m [] inout = Inr inout"
| "fold_terms f m (term # terms) inout =
     (case map_of m (runes_string term) of
        None \<Rightarrow> Inl (Panic ''nil pointer dereference'')
      | Some pl \<Rightarrow> fold_terms f m terms (f inout pl))"

definition apply_machine ::
  "('b \<Rightarrow> 'b \<Rightarrow> 'b) \<Rightarrow> aho_machine option \<Rightarrow> (string \<times> 'b) list \<Rightarrow> rune list \<Rightarrow> 'b \<Rightarrow> 'b res"
where
  "apply_machine f machine m data inout =
     (case machine of
        None \<Rightarrow> Inr inout
      | Some mc \<Rightarrow>
          (case MultiPatternSearch mc data of Inl e \<Rightarrow> Inl e | Inr terms \<Rightarrow> fold_terms f m terms inout))"

definition ACB_Retrieve :: "'b renv \<Rightarrow> 'b ACBEContainer \<Rightarrow> Values \<Rightarrow> 'b \<Rightarrow> 'b res" where
  "ACB_Retrieve env c values inout =
     (let inout = rb_Or env inout (acb_wc c)
      in case NilInterface values of
           Inl e \<Rightarrow> Inl e
         | Inr True \<Rightarrow> Inr inout
         | Inr False \<Rightarrow>
             (case BuildAcMatchContent values (acb_querySep c) of
                Inl e \<Rightarrow> Inl e
              | Inr data \<Rightarrow>
                  (case apply_machine (rb_Or env) (acb_inc c) (acb_incValues c) data inout of
                     Inl e \<Rightarrow> Inl e
                   | Inr inout \<Rightarrow> apply_machine (rb_AndNot env) (acb_exc c) (acb_excValues c) data inout)))"

subsection \<open>Dispatch and factory\<close>

datatype 'b BEContainer = CDefault "'b DefaultBEContainer" | CAc "'b ACBEContainer"

fun Container_Meta :: "'b BEContainer \<Rightarrow> FieldMeta" where
  "Container_Meta (CDefault c) = dc_meta c"
| "Container_Meta (CAc c) = acb_meta c"

fun EncodeWildcard :: "('b, 'm) rbitmap_scheme \<Rightarrow> 'b BEContainer \<Rightarrow> ConjunctionID \<Rightarrow> 'b BEContainer" where
  "EncodeWildcard rb (CDefault c) cid = CDefault (DC_AddWildcard rb c cid)"
| "EncodeWildcard rb (CAc c) cid = CAc (ACB_AddWildcard rb c cid)"

fun EncodeExpr ::
  "'b renv \<Rightarrow> 'b world \<Rightarrow> 'b BEContainer \<Rightarrow> ConjunctionID \<Rightarrow> BooleanExpr option \<Rightarrow>
   ('b world \<times> 'b BEContainer \<times> unit res) option"
where
  "EncodeExpr env w (CDefault c) cid expr =
     (case DC_EncodeExpr env w c cid expr of None \<Rightarrow> None | Some (w', c', r) \<Rightarrow> Some (w', CDefault c', r))"
| "EncodeExpr env w (CAc c) cid expr =
     (case ACB_EncodeExpr env w c cid expr of None \<Rightarrow> None | Some (w', c', r) \<Rightarrow> Some (w', CAc c', r))"

fun BuildBEContainer :: "'b BEContainer \<Rightarrow> 'b BEContainer res" where
  "BuildBEContainer (CDefault c) = map_sum id CDefault (DC_BuildBEContainer c)"
| "BuildBEContainer (CAc c) = map_sum id CAc (ACB_BuildBEContainer c)"

fun Container_Retrieve ::
  "'b renv \<Rightarrow> ValueIDGenerator list \<Rightarrow> 'b BEContainer \<Rightarrow> Values \<Rightarrow> 'b \<Rightarrow> 'b res"
where
  "Container_Retrieve env ps (CDefault c) values inout = DC_Retrieve env ps c values inout"
| "Container_Retrieve env ps (CAc c) values inout = ACB_Retrieve env c values inout"

text \<open>A \<^verbatim>\<open>ContainerBuilderFunc\<close> makes a container of the field and may take bitmaps from the pool.\<close>

type_synonym 'b ContainerBuilderFunc = "FieldMeta \<Rightarrow> 'b bitmapPool \<Rightarrow> ('b BEContainer \<times> 'b bitmapPool) res"

type_synonym 'b containerFactory = "(string \<times> 'b ContainerBuilderFunc) list"

definition ContainerNameDefault :: string where "ContainerNameDefault = ''default''"
definition ContainerNameAcMatch :: string where "ContainerNameAcMatch = ''ac_matcher''"
definition DefaultACContainerQueryJoinSep :: string where "DefaultACContainerQueryJoinSep = '' ''"

definition containerFactory_init :: "('b, 'm) rbitmap_scheme \<Rightarrow> aho_machine \<Rightarrow> 'b containerFactory" where
  "containerFactory_init rb m =
     [(ContainerNameDefault, \<lambda>meta pool. map_sum id (map_prod CDefault id) (NewDefaultBEContainer rb meta pool)),
      (ContainerNameAcMatch,
       \<lambda>meta pool. Inr (map_prod CAc id (NewACBEContainer rb m meta DefaultACContainerQueryJoinSep pool)))]"

definition RegisterContainerBuilder ::
  "'b containerFactory \<Rightarrow> string \<Rightarrow> 'b ContainerBuilderFunc \<Rightarrow> 'b containerFactory \<times> bool"
where
  "RegisterContainerBuilder factory name builderFunc =
     (case map_of factory name of
        Some _ \<Rightarrow> (factory, False)
      | None \<Rightarrow> (alist_put name builderFunc factory, True))"

text \<open>\<open>None\<close> is a nil builder.\<close>

definition NewContainerBuilder ::
  "'b containerFactory \<Rightarrow> FieldMeta \<Rightarrow> 'b bitmapPool \<Rightarrow> ('b BEContainer \<times> 'b bitmapPool) res option"
where
  "NewContainerBuilder factory meta pool =
     (case map_of factory (fs_Container meta) of None \<Rightarrow> None | Some fn \<Rightarrow> Some (fn meta pool))"

lemma buildPatternQueryContent_same: "buildPatternQueryContent c v = BuildAcMatchContent v (acb_querySep c)"
proof -
  have "pattern_loop sep idx tv data = content_loop sep idx tv data" for sep idx tv data
    by (induction tv arbitrary: idx data) (simp_all add: Let_def split: gval.split)
  then show ?thesis by (cases v) simp_all
qed

end
