(* ===== verification/RoaringPostings.thy ===== *)
theory RoaringPostings
  imports RoaringContainer
begin

text \<open>
  What a container of the roaring index holds, as sets: for each conjunction id whether it is
  a wildcard and the keys it includes and excludes (\<open>post\<close>). The locale \<open>be_container\<close> is the
  contract of the interfaces \<^verbatim>\<open>BEContainer\<close> and \<^verbatim>\<open>BEContainerBuilder\<close> that the builder and the
  scanner rely on; the dispatch over both containers interprets it.
\<close>

subsection \<open>The contract\<close>

type_synonym 'k posting = "bool \<times> 'k set \<times> 'k set"

definition add_wildcard :: "'k posting \<Rightarrow> 'k posting" where
  "add_wildcard p = (case p of (w, I, E) \<Rightarrow> (True, I, E))"

definition add_keys :: "bool \<Rightarrow> 'k set \<Rightarrow> 'k posting \<Rightarrow> 'k posting" where
  "add_keys incl K p = (case p of (w, I, E) \<Rightarrow> if incl then (w, I \<union> K, E) else (w, I, E \<union> K))"

text \<open>The field lets an id pass: it does not ask, or asks for a queried key, and excludes none of them.\<close>

definition passes :: "'k posting \<Rightarrow> 'k set \<Rightarrow> bool" where
  "passes p Q \<longleftrightarrow> (case p of (w, I, E) \<Rightarrow> (w \<or> I \<inter> Q \<noteq> {}) \<and> E \<inter> Q = {})"

locale be_container =
  fixes wildcard :: "'c \<Rightarrow> ConjunctionID \<Rightarrow> 'c"
    and encode :: "'w \<Rightarrow> 'c \<Rightarrow> ConjunctionID \<Rightarrow> BooleanExpr option \<Rightarrow> ('w \<times> 'c \<times> unit res) option"
    and build :: "'c \<Rightarrow> 'c res"
    and retrieve :: "'p \<Rightarrow> 'c \<Rightarrow> Values \<Rightarrow> 'b \<Rightarrow> 'b res"
    and vals :: "'b \<Rightarrow> u64 set"
    and clean :: "'w \<Rightarrow> bool"
    and parsers :: "'w \<Rightarrow> 'p"
    and le :: "'p \<Rightarrow> 'p \<Rightarrow> bool"
    and ok :: "'c \<Rightarrow> bool"
    and ready :: "'c \<Rightarrow> bool"
    and cfg :: "'c \<Rightarrow> 's"
    and post :: "'c \<Rightarrow> ConjunctionID \<Rightarrow> 'k posting"
    and known :: "'p \<Rightarrow> 's \<Rightarrow> gval \<Rightarrow> bool"
    and keys :: "'p \<Rightarrow> 's \<Rightarrow> gval \<Rightarrow> 'k set"
    and answers :: "'p \<Rightarrow> 'c \<Rightarrow> Values \<Rightarrow> bool"
    and asks :: "'p \<Rightarrow> 's \<Rightarrow> Values \<Rightarrow> 'k set"
  assumes le_refl: "le ps ps"
    and le_trans: "le ps qs \<Longrightarrow> le qs rs \<Longrightarrow> le ps rs"
    and wildcard_ok: "ok c \<Longrightarrow> ok (wildcard c i) \<and> cfg (wildcard c i) = cfg c \<and>
      post (wildcard c i) = (post c)(i := add_wildcard (post c i))"
    and encode_ok: "ok c \<Longrightarrow> clean w \<Longrightarrow> encode w c i (Some e) = Some (w', c', r) \<Longrightarrow>
      ok c' \<and> clean w' \<and> le (parsers w) (parsers w') \<and> cfg c' = cfg c \<and> (\<forall>j. j \<noteq> i \<longrightarrow> post c' j = post c j) \<and>
      (r = Inr () \<longrightarrow> known (parsers w') (cfg c) (Value e) \<and>
         post c' i = add_keys (Incl e) (keys (parsers w') (cfg c) (Value e)) (post c i))"
    and keys_le: "le ps qs \<Longrightarrow> known ps s v \<Longrightarrow> known qs s v \<and> keys qs s v = keys ps s v"
    and build_ok: "ok c \<Longrightarrow> \<exists>c'. build c = Inr c' \<and> ready c' \<and> cfg c' = cfg c \<and> post c' = post c"
    and ready_ok: "ready c \<Longrightarrow> ok c"
    and retrieve_ok: "ready c \<Longrightarrow> answers ps c v \<Longrightarrow> vals inout = {} \<Longrightarrow>
      \<exists>out. retrieve ps c v inout = Inr out \<and> vals out = {i. passes (post c i) (asks ps (cfg c) v)}"

subsection \<open>Postings of a map\<close>

definition map_post :: "('b, 'm) rbitmap_scheme \<Rightarrow> ('k \<times> 'b) list \<Rightarrow> ConjunctionID \<Rightarrow> 'k set" where
  "map_post rb m i = {k. \<exists>pl. map_of m k = Some pl \<and> i \<in> rset rb pl}"

lemma map_post_Nil [simp]: "map_post rb [] i = {}"
  by (simp add: map_post_def)

lemma map_post_put:
  "map_post rb (alist_put k pl m) i = map_post rb m i - {k} \<union> (if i \<in> rset rb pl then {k} else {})"
  by (simp add: map_post_def set_eq_iff)

lemma fst_alist_put [simp]: "fst ` set (alist_put k v m) = insert k (fst ` set m)"
  by (simp add: alist_put_def)

lemma map_post_None: "map_of m k = None \<Longrightarrow> k \<notin> map_post rb m i"
  and map_post_Some: "map_of m k = Some pl \<Longrightarrow> k \<in> map_post rb m i \<longleftrightarrow> i \<in> rset rb pl"
  by (simp_all add: map_post_def)

lemma add_posting_post:
  assumes rb: "roaring_spec rb" and pool: "bp_clean rb pool" and r: "add_posting rb k i (m, pool) = (m', pool')"
  shows "bp_clean rb pool' \<and> map_post rb m' j = map_post rb m j \<union> (if j = i then {k} else {}) \<and>
    fst ` set m' = insert k (fst ` set m)"
proof (cases "map_of m k")
  case None
  obtain pl p where n: "NewPostingList rb pool = (pl, p)" by fastforce
  note c = NewPostingList_clean [OF rb pool n]
  have m: "m' = alist_put k (rb_Add rb pl i) m" "pool' = p" using r None n by (simp_all add: add_posting_def)
  have "rset rb (rb_Add rb pl i) = {i}" using c(1) by (simp add: roaring_specD [OF rb])
  then show ?thesis using c(2) map_post_None [OF None, of rb j] by (auto simp: m map_post_put)
next
  case (Some pl)
  then have m: "m' = alist_put k (rb_Add rb pl i) m" "pool' = pool" using r by (simp_all add: add_posting_def)
  show ?thesis using pool map_post_Some [OF Some, of rb j]
    by (auto simp: m map_post_put roaring_specD [OF rb])
qed

lemma add_postings_post:
  assumes rb: "roaring_spec rb" and pool: "bp_clean rb pool" and r: "add_postings rb ks i (m, pool) = (m', pool')"
  shows "bp_clean rb pool' \<and> map_post rb m' j = map_post rb m j \<union> (if j = i then set ks else {}) \<and>
    fst ` set m' = fst ` set m \<union> set ks"
  using pool r
proof (induction ks arbitrary: m pool)
  case (Cons k ks)
  obtain m1 p1 where 1: "add_posting rb k i (m, pool) = (m1, p1)" by fastforce
  note a = add_posting_post [OF rb Cons.prems(1) 1, of j]
  have "add_postings rb ks i (m1, p1) = (m', pool')" using Cons.prems(2) 1 by simp
  then show ?case using Cons.IH [of p1 m1] a by auto
qed simp

lemma or_found_set:
  assumes "roaring_spec rb"
  shows "rset rb (or_found rb m ks b) = rset rb b \<union> {i. map_post rb m i \<inter> set ks \<noteq> {}}"
  by (induction ks arbitrary: b) (auto simp: map_post_def roaring_specD [OF assms] split: option.splits)

lemma andnot_found_set:
  assumes "roaring_spec rb"
  shows "rset rb (andnot_found rb m ks b) = rset rb b - {i. map_post rb m i \<inter> set ks \<noteq> {}}"
  by (induction ks arbitrary: b) (auto simp: map_post_def roaring_specD [OF assms] split: option.splits)

lemma fold_terms_ok:
  assumes "\<forall>t\<in>set ts. runes_string t \<in> fst ` set m"
  obtains out where "fold_terms f m ts b = Inr out"
proof -
  have "\<exists>out. fold_terms f m ts b = Inr out" using assms
  proof (induction ts arbitrary: b)
    case (Cons t ts)
    then obtain pl where "map_of m (runes_string t) = Some pl"
      by (metis list.set_intros(1) map_of_eq_None_iff not_None_eq)
    then show ?case using Cons by simp
  qed simp
  then show ?thesis using that by blast
qed

lemma fold_terms_Or:
  assumes "roaring_spec rb" "fold_terms (rb_Or rb) m ts b = Inr out"
  shows "rset rb out = rset rb b \<union> {i. map_post rb m i \<inter> runes_string ` set ts \<noteq> {}}"
  using assms(2)
  by (induction ts arbitrary: b) (auto simp: map_post_def roaring_specD [OF assms(1)] split: option.splits)

lemma fold_terms_AndNot:
  assumes "roaring_spec rb" "fold_terms (rb_AndNot rb) m ts b = Inr out"
  shows "rset rb out = rset rb b - {i. map_post rb m i \<inter> runes_string ` set ts \<noteq> {}}"
  using assms(2)
  by (induction ts arbitrary: b) (auto simp: map_post_def roaring_specD [OF assms(1)] split: option.splits)

lemma map_post_dom: "map_post rb m i \<subseteq> fst ` set m"
proof
  fix k assume "k \<in> map_post rb m i"
  then obtain pl where "map_of m k = Some pl" by (auto simp: map_post_def)
  then show "k \<in> fst ` set m" using map_of_SomeD by (metis fst_conv image_eqI)
qed

subsection \<open>Machines\<close>

text \<open>A machine built from the keys of a map; without keys there is none.\<close>

definition machine_of :: "aho_machine \<Rightarrow> (string \<times> 'b) list \<Rightarrow> aho_machine option" where
  "machine_of new m = (if m = [] then None else Some (new\<lparr>aho_keys := Some (map string_runes (map fst m))\<rparr>))"

lemma build_machine_ok:
  assumes "aho_spec new" "m = [] \<longrightarrow> old = None"
  shows "build_machine new m old = Inr (machine_of new m)"
proof -
  have keys: "map (\<lambda>(kw, pl). string_runes kw) m = map string_runes (map fst m)" by auto
  show ?thesis using assms Machine_Build_ok [of new "map string_runes (map fst m)"]
    unfolding build_machine_def machine_of_def keys by auto
qed

lemma apply_machine_ok:
  assumes spec: "aho_spec new" and valid: "\<forall>k\<in>fst ` set m. valid_utf8 k"
  obtains ts where
    "\<forall>f b. \<exists>out. apply_machine f (machine_of new m) m data b = Inr out \<and> fold_terms f m ts b = Inr out"
    "\<forall>i. map_post rb m i \<inter> runes_string ` set ts = map_post rb m i \<inter> {k. keyword_match new k data}"
proof (cases "m = []")
  case True
  then show ?thesis by (intro that [of "[]"]) (simp_all add: apply_machine_def machine_of_def)
next
  case False
  let ?mc = "new\<lparr>aho_keys := Some (map string_runes (map fst m))\<rparr>"
  have ne: "map fst m \<noteq> []" using False by simp
  obtain ts where ts: "MultiPatternSearch ?mc data = Inr ts"
    "runes_string ` set ts \<inter> set (map fst m) = {k\<in>set (map fst m). keyword_match ?mc k data}"
    "set ts \<subseteq> string_runes ` set (map fst m)"
    by (rule search_keywords [of ?mc "map fst m" data, OF _ _ ne]) (use spec in simp_all)
  have in_m: "\<forall>t\<in>set ts. runes_string t \<in> fst ` set m"
  proof
    fix t assume "t \<in> set ts"
    then have "t \<in> string_runes ` set (map fst m)" using ts(3) by (rule subsetD [rotated])
    then obtain k where k: "t = string_runes k" "k \<in> set (map fst m)" by (rule imageE)
    then have "valid_utf8 k" using valid by auto
    then show "runes_string t \<in> fst ` set m" using k by (simp add: valid_utf8_def)
  qed
  show ?thesis
  proof (rule that [of ts]; intro allI)
    fix f b
    obtain out where "fold_terms f m ts b = Inr out" using fold_terms_ok [OF in_m] .
    then show "\<exists>out. apply_machine f (machine_of new m) m data b = Inr out \<and> fold_terms f m ts b = Inr out"
      using False ts(1) by (simp add: apply_machine_def machine_of_def)
  next
    fix i
    show "map_post rb m i \<inter> runes_string ` set ts = map_post rb m i \<inter> {k. keyword_match new k data}"
      using map_post_dom [of rb m i] ts(2) by auto
  qed
qed

subsection \<open>The contract holds\<close>

type_synonym bkey = "u64 + string"
type_synonym ccfg = "FieldMeta \<times> (string \<times> aho_machine) option"

fun c_cfg :: "'b BEContainer \<Rightarrow> ccfg" where
  "c_cfg (CDefault c) = (dc_meta c, None)"
| "c_cfg (CAc c) = (acb_meta c, Some (acb_querySep c, acb_new c))"

fun c_post :: "('b, 'm) rbitmap_scheme \<Rightarrow> 'b BEContainer \<Rightarrow> ConjunctionID \<Rightarrow> bkey posting" where
  "c_post rb (CDefault c) i = (i \<in> rset rb (dc_wc c), Inl ` map_post rb (dc_inc c) i, Inl ` map_post rb (dc_exc c) i)"
| "c_post rb (CAc c) i =
     (i \<in> rset rb (acb_wc c), Inr ` map_post rb (acb_incValues c) i, Inr ` map_post rb (acb_excValues c) i)"

fun c_ok :: "'b BEContainer \<Rightarrow> bool" where
  "c_ok (CDefault c) = True"
| "c_ok (CAc c) \<longleftrightarrow> aho_spec (acb_new c) \<and>
     (acb_incValues c = [] \<longrightarrow> acb_inc c = None) \<and> (acb_excValues c = [] \<longrightarrow> acb_exc c = None)"

fun c_ready :: "'b BEContainer \<Rightarrow> bool" where
  "c_ready (CDefault c) = True"
| "c_ready (CAc c) \<longleftrightarrow> aho_spec (acb_new c) \<and>
     acb_inc c = machine_of (acb_new c) (acb_incValues c) \<and> acb_exc c = machine_of (acb_new c) (acb_excValues c)"

definition ps_le :: "ValueIDGenerator list \<Rightarrow> ValueIDGenerator list \<Rightarrow> bool" where
  "ps_le ps qs \<longleftrightarrow> list_all2 gen_le ps qs"

fun c_known :: "ValueIDGenerator list \<Rightarrow> ccfg \<Rightarrow> gval \<Rightarrow> bool" where
  "c_known ps (meta, None) v \<longleftrightarrow> (case fs_Parser meta of None \<Rightarrow> False | Some k \<Rightarrow> k < length ps \<and> gen_known (ps ! k) v)"
| "c_known ps (meta, Some _) v = True"

text \<open>The keys of an expression's value, and those a query asks for.\<close>

fun c_keys :: "'b renv \<Rightarrow> ValueIDGenerator list \<Rightarrow> ccfg \<Rightarrow> gval \<Rightarrow> bkey set" where
  "c_keys env ps (meta, None) v =
     (case fs_Parser meta of None \<Rightarrow> {} | Some k \<Rightarrow> Inl ` gen_ids (re_ParseFloat env) (ps ! k) v)"
| "c_keys env ps (meta, Some _) v =
     (if NilInterface v = Inr False then Inr ` res_set (ParseAcMatchDict v) else {})"

fun c_asks :: "'b renv \<Rightarrow> ValueIDGenerator list \<Rightarrow> ccfg \<Rightarrow> Values \<Rightarrow> bkey set" where
  "c_asks env ps (meta, None) v =
     (if NilInterface v = Inr False then Inl ` res_set (assign_with env ps (fs_Parser meta) v) else {})"
| "c_asks env ps (meta, Some (sep, m)) v =
     (if NilInterface v = Inr False
      then (case BuildAcMatchContent v sep of Inl _ \<Rightarrow> {} | Inr data \<Rightarrow> Inr ` {k. keyword_match m k data}) else {})"

text \<open>
  A query a container can answer: its value is nil or can be parsed, and the keywords of a
  keyword container are UTF-8.
\<close>

fun c_answers :: "'b renv \<Rightarrow> ValueIDGenerator list \<Rightarrow> 'b BEContainer \<Rightarrow> Values \<Rightarrow> bool" where
  "c_answers env ps (CDefault c) v \<longleftrightarrow>
     NilInterface v = Inr True \<or>
     NilInterface v = Inr False \<and> \<not> isl (assign_with env ps (fs_Parser (dc_meta c)) v)"
| "c_answers env ps (CAc c) v \<longleftrightarrow>
     NilInterface v = Inr True \<or>
     NilInterface v = Inr False \<and> \<not> isl (BuildAcMatchContent v (acb_querySep c)) \<and>
     list_all valid_utf8 (map fst (acb_incValues c)) \<and> list_all valid_utf8 (map fst (acb_excValues c))"

definition w_clean :: "('b, 'm) rbitmap_scheme \<Rightarrow> 'b world \<Rightarrow> bool" where
  "w_clean rb w \<longleftrightarrow> bp_clean rb (w_pool w)"

lemma ps_le_refl: "ps_le ps ps"
  by (simp add: ps_le_def list_all2_same vp.le_refl)

lemma ps_le_trans: "ps_le ps qs \<Longrightarrow> ps_le qs rs \<Longrightarrow> ps_le ps rs"
  unfolding ps_le_def by (rule list_all2_trans) (rule vp.le_trans)

lemma parse_with_ok:
  assumes "parse_with env w k v = Some (w', r)"
  shows "ps_le (w_parsers w) (w_parsers w')" "w_pool w' = w_pool w"
    "r = Inr ids \<Longrightarrow> c_known (w_parsers w') (meta\<lparr>fs_Parser := k\<rparr>, None) v \<and>
       c_keys env (w_parsers w') (meta\<lparr>fs_Parser := k\<rparr>, None) v = Inl ` set ids"
proof -
  have "ps_le (w_parsers w) (w_parsers w') \<and> w_pool w' = w_pool w \<and>
    (r = Inr ids \<longrightarrow> c_known (w_parsers w') (meta\<lparr>fs_Parser := k\<rparr>, None) v \<and>
       c_keys env (w_parsers w') (meta\<lparr>fs_Parser := k\<rparr>, None) v = Inl ` set ids)"
  proof (cases "\<exists>i. k = Some i \<and> i < length (w_parsers w)")
    case True
    then obtain i where i: "k = Some i" "i < length (w_parsers w)" by blast
    obtain g where g: "Gen_ParseValue (re_ParseFloat env) (w_parsers w ! i) v = Some (g, r)"
      "w' = w\<lparr>w_parsers := (w_parsers w)[i := g]\<rparr>"
      using assms i by (auto simp: parse_with_def split: option.splits)
    have "ps_le (w_parsers w) ((w_parsers w)[i := g])"
      using vp.parse_le [OF g(1)] by (simp add: ps_le_def list_all2_conv_all_nth nth_list_update vp.le_refl i(2))
    then show ?thesis using vp.parse_ids [of "re_ParseFloat env" "w_parsers w ! i" v g ids] g i by auto
  next
    case False
    then show ?thesis using assms ps_le_refl by (auto simp: parse_with_def split: option.splits if_splits)
  qed
  then show "ps_le (w_parsers w) (w_parsers w')" "w_pool w' = w_pool w"
    "r = Inr ids \<Longrightarrow> c_known (w_parsers w') (meta\<lparr>fs_Parser := k\<rparr>, None) v \<and>
       c_keys env (w_parsers w') (meta\<lparr>fs_Parser := k\<rparr>, None) v = Inl ` set ids" by auto
qed

lemma DC_EncodeExpr_ok:
  assumes rb: "roaring_spec env" and w: "w_clean env w" and e: "DC_EncodeExpr env w c i (Some e) = Some (w', c', r)"
  shows "w_clean env w' \<and> ps_le (w_parsers w) (w_parsers w') \<and> dc_meta c' = dc_meta c \<and>
    (\<forall>j. j \<noteq> i \<longrightarrow> c_post env (CDefault c') j = c_post env (CDefault c) j) \<and>
    (r = Inr () \<longrightarrow> c_known (w_parsers w') (dc_meta c, None) (Value e) \<and>
       c_post env (CDefault c') i =
         add_keys (Incl e) (c_keys env (w_parsers w') (dc_meta c, None) (Value e)) (c_post env (CDefault c) i))"
proof (cases "Operator e = ValueOptEQ")
  case True
  obtain w1 q where q: "parse_with env w (fs_Parser (dc_meta c)) (Value e) = Some (w1, q)"
    using e True by (auto simp: DC_EncodeExpr_def split: option.splits)
  note p = parse_with_ok [OF q]
  have w1: "bp_clean env (w_pool w1)" using w p(2) by (simp add: w_clean_def)
  have meta: "(dc_meta c)\<lparr>fs_Parser := fs_Parser (dc_meta c)\<rparr> = dc_meta c" by simp
  show ?thesis
  proof (cases q)
    case (Inl err)
    then have "w' = w1" "c' = c" "r = Inl err" using e True q by (simp_all add: DC_EncodeExpr_def)
    then show ?thesis using w1 p(1) by (simp add: w_clean_def)
  next
    case (Inr ids)
    note k = p(3) [OF Inr, of "dc_meta c", unfolded meta]
    define m where "m = (if Incl e then dc_inc c else dc_exc c)"
    obtain m' pool where a: "add_postings env ids i (m, w_pool w1) = (m', pool)" by fastforce
    note post = add_postings_post [OF rb w1 a]
    have w': "w' = w1\<lparr>w_pool := pool\<rparr>" "r = Inr ()" "c' = (if Incl e then c\<lparr>dc_inc := m'\<rparr> else c\<lparr>dc_exc := m'\<rparr>)"
      using e True q Inr a by (auto simp: DC_EncodeExpr_def m_def split: if_splits)
    have "c_post env (CDefault c') j = (if j = i then add_keys (Incl e) (Inl ` set ids) (c_post env (CDefault c) i)
        else c_post env (CDefault c) j)" for j
      using post [of j] by (auto simp: w'(3) m_def add_keys_def image_Un)
    then show ?thesis using post [of i] p(1) k w'(1,2) by (simp add: w_clean_def w'(3))
  qed
next
  case False
  then have "w' = w" "c' = c" "r \<noteq> Inr ()" using e by (auto simp: DC_EncodeExpr_def)
  then show ?thesis using w ps_le_refl by simp
qed

lemma ACB_EncodeExpr_ok:
  assumes rb: "roaring_spec env" and w: "w_clean env w" and ok: "c_ok (CAc c)"
    and e: "ACB_EncodeExpr env w c i (Some e) = Some (w', c', r)"
  shows "c_ok (CAc c') \<and> w_clean env w' \<and> w_parsers w' = w_parsers w \<and> c_cfg (CAc c') = c_cfg (CAc c) \<and>
    (\<forall>j. j \<noteq> i \<longrightarrow> c_post env (CAc c') j = c_post env (CAc c) j) \<and>
    (r = Inr () \<longrightarrow> c_post env (CAc c') i =
       add_keys (Incl e) (c_keys env (w_parsers w') (c_cfg (CAc c)) (Value e)) (c_post env (CAc c) i))"
proof (cases "\<exists>ks. NilInterface (Value e) = Inr False \<and> Operator e = ValueOptEQ \<and> ParseAcMatchDict (Value e) = Inr ks")
  case True
  then obtain ks where ks: "NilInterface (Value e) = Inr False" "Operator e = ValueOptEQ"
    "ParseAcMatchDict (Value e) = Inr ks" by blast
  have w1: "bp_clean env (w_pool w)" using w by (simp add: w_clean_def)
  define m where "m = (if Incl e then acb_incValues c else acb_excValues c)"
  obtain m' pool where a: "add_postings env ks i (m, w_pool w) = (m', pool)" by fastforce
  note post = add_postings_post [OF rb w1 a]
  have w': "w' = w\<lparr>w_pool := pool\<rparr>" "r = Inr ()"
    "c' = (if Incl e then c\<lparr>acb_incValues := m'\<rparr> else c\<lparr>acb_excValues := m'\<rparr>)"
    using e ks a by (auto simp: ACB_EncodeExpr_def m_def split: if_splits)
  have "m' = [] \<Longrightarrow> m = []" using post [of i] by auto
  then have "c_ok (CAc c')" using ok by (auto simp: w'(3) m_def split: if_splits)
  moreover have "c_post env (CAc c') j = (if j = i then add_keys (Incl e) (Inr ` set ks) (c_post env (CAc c) i)
      else c_post env (CAc c) j)" for j
    using post [of j] by (auto simp: w'(3) m_def add_keys_def image_Un)
  ultimately show ?thesis using post [of i] w'(1,2) ks by (simp add: w_clean_def w'(3))
next
  case False
  then have "w' = w" "c' = c" "r = Inr () \<Longrightarrow> NilInterface (Value e) \<noteq> Inr False"
    using e by (auto simp: ACB_EncodeExpr_def split: sum.splits bool.splits if_splits)
  moreover have "add_keys b {} p = p" for b and p :: "bkey posting" by (cases p) (simp add: add_keys_def)
  ultimately show ?thesis using w ok by simp
qed

lemma Inl_Inr_meet [simp]:
  "Inl ` A \<inter> Inl ` B = {} \<longleftrightarrow> A \<inter> B = {}" "Inr ` A \<inter> Inr ` B = {} \<longleftrightarrow> A \<inter> B = {}"
  by auto

lemma DC_Retrieve_ok:
  assumes rb: "roaring_spec env" and a: "c_answers env ps (CDefault c) v" and e: "rset env inout = {}"
  shows "\<exists>out. DC_Retrieve env ps c v inout = Inr out \<and>
    rset env out = {i. passes (c_post env (CDefault c) i) (c_asks env ps (dc_meta c, None) v)}"
proof -
  note rbs = roaring_specD [OF rb]
  show ?thesis
  proof (cases "NilInterface v = Inr True")
    case True
    then show ?thesis using e by (simp add: DC_Retrieve_def rbs passes_def)
  next
    case False
    then obtain ids where n: "NilInterface v = Inr False" "assign_with env ps (fs_Parser (dc_meta c)) v = Inr ids"
      using a by (auto simp: isl_def) (metis sum.exhaust)
    let ?out = "andnot_found env (dc_exc c) ids (or_found env (dc_inc c) ids (rb_Or env inout (dc_wc c)))"
    have "rset env ?out = {i. passes (c_post env (CDefault c) i) (c_asks env ps (dc_meta c, None) v)}"
      using n e by (auto simp: andnot_found_set [OF rb] or_found_set [OF rb] rbs passes_def)
    then show ?thesis using n by (simp add: DC_Retrieve_def)
  qed
qed

lemma ACB_Retrieve_ok:
  assumes rb: "roaring_spec env" and ready: "c_ready (CAc c)" and a: "c_answers env ps (CAc c) v" and e: "rset env inout = {}"
  shows "\<exists>out. ACB_Retrieve env c v inout = Inr out \<and>
    rset env out = {i. passes (c_post env (CAc c) i) (c_asks env ps (c_cfg (CAc c)) v)}"
proof -
  note rbs = roaring_specD [OF rb]
  show ?thesis
  proof (cases "NilInterface v = Inr True")
    case True
    then show ?thesis using e by (simp add: ACB_Retrieve_def rbs passes_def)
  next
    case False
    then obtain data where n: "NilInterface v = Inr False" "BuildAcMatchContent v (acb_querySep c) = Inr data"
      using a by (auto simp: isl_def) (metis sum.exhaust)
    have spec: "aho_spec (acb_new c)" and inc: "acb_inc c = machine_of (acb_new c) (acb_incValues c)"
      and exc: "acb_exc c = machine_of (acb_new c) (acb_excValues c)" using ready by simp_all
    have v: "\<forall>k\<in>fst ` set (acb_incValues c). valid_utf8 k" "\<forall>k\<in>fst ` set (acb_excValues c). valid_utf8 k"
      using a n(1) by (auto simp: list_all_iff)
    obtain ts where ts: "\<forall>f b. \<exists>out. apply_machine f (acb_inc c) (acb_incValues c) data b = Inr out \<and>
        fold_terms f (acb_incValues c) ts b = Inr out"
      "\<forall>i. map_post env (acb_incValues c) i \<inter> runes_string ` set ts =
        map_post env (acb_incValues c) i \<inter> {k. keyword_match (acb_new c) k data}"
      unfolding inc by (rule apply_machine_ok [OF spec v(1), where data = data and rb = env])
    obtain us where us: "\<forall>f b. \<exists>out. apply_machine f (acb_exc c) (acb_excValues c) data b = Inr out \<and>
        fold_terms f (acb_excValues c) us b = Inr out"
      "\<forall>i. map_post env (acb_excValues c) i \<inter> runes_string ` set us =
        map_post env (acb_excValues c) i \<inter> {k. keyword_match (acb_new c) k data}"
      unfolding exc by (rule apply_machine_ok [OF spec v(2), where data = data and rb = env])
    obtain b1 where b1: "apply_machine (rb_Or env) (acb_inc c) (acb_incValues c) data (rb_Or env inout (acb_wc c)) = Inr b1"
      "fold_terms (rb_Or env) (acb_incValues c) ts (rb_Or env inout (acb_wc c)) = Inr b1" using ts(1) by blast
    obtain b2 where b2: "apply_machine (rb_AndNot env) (acb_exc c) (acb_excValues c) data b1 = Inr b2"
      "fold_terms (rb_AndNot env) (acb_excValues c) us b1 = Inr b2" using us(1) by blast
    have asks: "c_asks env ps (c_cfg (CAc c)) v = Inr ` {k. keyword_match (acb_new c) k data}" using n by simp
    have "i \<in> rset env b2 \<longleftrightarrow> passes (c_post env (CAc c) i) (c_asks env ps (c_cfg (CAc c)) v)" for i
      unfolding fold_terms_AndNot [OF rb b2(2)] fold_terms_Or [OF rb b1(2)] asks
      by (simp add: rbs e ts(2) us(2) passes_def del: Collect_conj_eq)
    then have "rset env b2 = {i. passes (c_post env (CAc c) i) (c_asks env ps (c_cfg (CAc c)) v)}" by blast
    then show ?thesis using n b1(1) b2(1) by (simp add: ACB_Retrieve_def)
  qed
qed

definition rc_ok :: "'b renv \<Rightarrow> 'b BEContainer \<Rightarrow> bool" where
  "rc_ok env c \<longleftrightarrow> roaring_spec env \<and> c_ok c"

definition rc_ready :: "'b renv \<Rightarrow> 'b BEContainer \<Rightarrow> bool" where
  "rc_ready env c \<longleftrightarrow> roaring_spec env \<and> c_ready c"

interpretation bc: be_container "EncodeWildcard env" "EncodeExpr env" BuildBEContainer "Container_Retrieve env" "rset env"
  "w_clean env" w_parsers ps_le "rc_ok env" "rc_ready env" c_cfg "c_post env" c_known "c_keys env" "c_answers env" "c_asks env"
  for env
proof (unfold_locales, goal_cases)
  case (1 ps)
  show ?case by (rule ps_le_refl)
next
  case (2 ps qs rs)
  then show ?case by (rule ps_le_trans)
next
  case (3 c i)
  then show ?case
    by (cases c) (auto simp: rc_ok_def DC_AddWildcard_def ACB_AddWildcard_def add_wildcard_def roaring_specD fun_eq_iff)
next
  case (4 c w i e w' c' r)
  show ?case
  proof (cases c)
    case (CDefault d)
    then obtain d' where "DC_EncodeExpr env w d i (Some e) = Some (w', d', r)" "c' = CDefault d'"
      using 4(3) by (auto split: option.splits)
    then show ?thesis using DC_EncodeExpr_ok [of env w d i e w' d' r] 4(1,2) CDefault by (simp add: rc_ok_def)
  next
    case (CAc d)
    then obtain d' where "ACB_EncodeExpr env w d i (Some e) = Some (w', d', r)" "c' = CAc d'"
      using 4(3) by (auto split: option.splits)
    then show ?thesis using ACB_EncodeExpr_ok [of env w d i e w' d' r] 4(1,2) CAc ps_le_refl
      by (simp add: rc_ok_def)
  qed
next
  case (5 ps qs s v)
  obtain meta a where s: "s = (meta, a)" by fastforce
  show ?case
  proof (cases a)
    case None
    then show ?thesis using 5 vp.ids_le
      by (auto simp: s ps_le_def list_all2_conv_all_nth split: option.splits)
  qed (simp add: s)
next
  case (6 c)
  show ?case
  proof (cases c)
    case (CAc d)
    then show ?thesis using 6 build_machine_ok [of "acb_new d" "acb_incValues d" "acb_inc d"]
      build_machine_ok [of "acb_new d" "acb_excValues d" "acb_exc d"]
      by (auto simp: rc_ok_def rc_ready_def ACB_BuildBEContainer_def fun_eq_iff)
  qed (use 6 in \<open>simp add: rc_ok_def rc_ready_def DC_BuildBEContainer_def\<close>)
next
  case (7 c)
  then show ?case by (cases c) (simp_all add: rc_ok_def rc_ready_def machine_of_def)
next
  case (8 c ps v inout)
  then show ?case using DC_Retrieve_ok [of env ps _ v inout] ACB_Retrieve_ok [of env _ ps v inout]
    by (cases c) (simp_all add: rc_ready_def)
qed

end
