(* ===== verification/RoaringIndex.thy ===== *)
theory RoaringIndex
  imports RoaringPostings
begin

text \<open>
  Model of \<^verbatim>\<open>roaringidx/ivt_indexer.go\<close>, \<^verbatim>\<open>ivt_indexer_builder.go\<close> and \<^verbatim>\<open>ivt_scanner.go\<close>: the builder
  of the roaring index, the index, and the scanner that intersects the answers of the
  field containers.
\<close>

subsection \<open>Builder\<close>

text \<open>\<open>ivb_world\<close> are the parsers and the bitmap pool of the program; \<open>ivb_defaultParser\<close> is a pointer.\<close>

record 'b IvtBEIndexerBuilder =
  ivb_docMaxConjSize :: int
  ivb_panicOnError :: bool
  ivb_containerBuilder :: "(BEField \<times> 'b BEContainer) list"
  ivb_defaultParser :: nat
  ivb_world :: "'b world"

record 'b IvtBEIndexer =
  ivx_docMaxConjSize :: int
  ivx_data :: "(BEField \<times> 'b BEContainer) list"
  ivx_parsers :: "ValueIDGenerator list"

definition NewIvtIndexerBuilder :: "'b world \<Rightarrow> 'b IvtBEIndexerBuilder" where
  "NewIvtIndexerBuilder w =
     \<lparr>ivb_docMaxConjSize = 1, ivb_panicOnError = False, ivb_containerBuilder = [],
      ivb_defaultParser = length (w_parsers w),
      ivb_world = w\<lparr>w_parsers := w_parsers w @ [GCommon NewCommonParser]\<rparr>\<rparr>"

definition WithErrPanic :: "'b IvtBEIndexerBuilder \<Rightarrow> bool \<Rightarrow> 'b IvtBEIndexerBuilder" where
  "WithErrPanic b p = b\<lparr>ivb_panicOnError := p\<rparr>"

text \<open>\<^verbatim>\<open>util.PanicIf(builder.panicOnError, msg)\<close> before an error is returned.\<close>

definition or_panic :: "bool \<Rightarrow> string \<Rightarrow> gerr \<Rightarrow> gerr" where
  "or_panic panicOnError msg e = (case e of Err m \<Rightarrow> if panicOnError then Panic msg else Err m | Panic m \<Rightarrow> Panic m)"

definition Ivt_ConfigureField ::
  "'b containerFactory \<Rightarrow> 'b IvtBEIndexerBuilder \<Rightarrow> BEField \<Rightarrow> FieldSetting \<Rightarrow> 'b IvtBEIndexerBuilder \<times> unit res"
where
  "Ivt_ConfigureField factory b field option =
     (let parser = (case fs_Parser option of None \<Rightarrow> Some (ivb_defaultParser b) | Some p \<Rightarrow> Some p);
          fieldMeta = \<lparr>fs_Parser = parser, fs_Container = fs_Container option, meta_field = field\<rparr>
      in case NewContainerBuilder factory fieldMeta (w_pool (ivb_world b)) of
           None \<Rightarrow> (b, Inl (or_panic (ivb_panicOnError b) ''settings not supported'' (Err ''settings not supported'')))
         | Some (Inl e) \<Rightarrow> (b, Inl e)
         | Some (Inr (c, pool)) \<Rightarrow>
             (b\<lparr>ivb_containerBuilder := alist_put field c (ivb_containerBuilder b),
                ivb_world := (ivb_world b)\<lparr>w_pool := pool\<rparr>\<rparr>, Inr ()))"

fun encode_exprs ::
  "'b renv \<Rightarrow> bool \<Rightarrow> 'b world \<Rightarrow> 'b BEContainer \<Rightarrow> ConjunctionID \<Rightarrow> BEField \<Rightarrow> BoolValues list \<Rightarrow> bool \<Rightarrow>
   ('b world \<times> 'b BEContainer \<times> bool res) option"
where
  "encode_exprs env p w c cid field [] addWildcard = Some (w, c, Inr addWildcard)"
| "encode_exprs env p w c cid field (expr # exprs) addWildcard =
     (case EncodeExpr env w c cid (Some (NewBoolExpr2 field expr)) of
        None \<Rightarrow> None
      | Some (w', c', Inl e) \<Rightarrow> Some (w', c', Inl (or_panic p ''failed evaluate boolean expression'' e))
      | Some (w', c', Inr _) \<Rightarrow> encode_exprs env p w' c' cid field exprs (addWildcard \<and> \<not> Incl expr))"

text \<open>The expressions of a field; a missing key and an empty list are treated alike.\<close>

definition exprs_at :: "Conjunction \<Rightarrow> BEField \<Rightarrow> BoolValues list" where
  "exprs_at cj f = (case map_of (Expressions cj) f of None \<Rightarrow> [] | Some es \<Rightarrow> es)"

definition encode_field ::
  "'b renv \<Rightarrow> bool \<Rightarrow> 'b world \<Rightarrow> 'b BEContainer \<Rightarrow> ConjunctionID \<Rightarrow> BEField \<Rightarrow> Conjunction \<Rightarrow>
   ('b world \<times> 'b BEContainer \<times> unit res) option"
where
  "encode_field env p w c cid field cj =
     (if exprs_at cj field = [] then Some (w, EncodeWildcard env c cid, Inr ())
      else (case encode_exprs env p w c cid field (exprs_at cj field) True of
              None \<Rightarrow> None
            | Some (w', c', Inl e) \<Rightarrow> Some (w', c', Inl e)
            | Some (w', c', Inr addWildcard) \<Rightarrow>
                Some (w', if addWildcard then EncodeWildcard env c' cid else c', Inr ())))"

fun encode_fields ::
  "'b renv \<Rightarrow> bool \<Rightarrow> 'b world \<Rightarrow> ConjunctionID \<Rightarrow> Conjunction \<Rightarrow> (BEField \<times> 'b BEContainer) list \<Rightarrow>
   ('b world \<times> (BEField \<times> 'b BEContainer) list \<times> unit res) option"
where
  "encode_fields env p w cid cj [] = Some (w, [], Inr ())"
| "encode_fields env p w cid cj ((field, c) # cs) =
     (case encode_field env p w c cid field cj of
        None \<Rightarrow> None
      | Some (w', c', Inl e) \<Rightarrow> Some (w', (field, c') # cs, Inl e)
      | Some (w', c', Inr _) \<Rightarrow>
          (case encode_fields env p w' cid cj cs of
             None \<Rightarrow> None
           | Some (w'', cs', r) \<Rightarrow> Some (w'', (field, c') # cs', r)))"

fun encode_conjs ::
  "'b renv \<Rightarrow> bool \<Rightarrow> 'b world \<Rightarrow> int \<Rightarrow> int \<Rightarrow> Conjunction list \<Rightarrow> (BEField \<times> 'b BEContainer) list \<Rightarrow>
   ('b world \<times> (BEField \<times> 'b BEContainer) list \<times> unit res) option"
where
  "encode_conjs env p w docID idx [] cs = Some (w, cs, Inr ())"
| "encode_conjs env p w docID idx (cj # cjs) cs =
     (case NewConjunctionID idx docID of
        Inl e \<Rightarrow> Some (w, cs, Inl (or_panic p ''gen conj id fail'' e))
      | Inr conjID \<Rightarrow>
          (if \<not> list_all (\<lambda>(field, _). map_of cs field \<noteq> None) (Expressions cj)
           then Some (w, cs, Inl (or_panic p ''document contains none-configured field''
                  (Err ''document contains none-configured field'')))
           else (case encode_fields env p w conjID cj cs of
                   None \<Rightarrow> None
                 | Some (w', cs', Inl e) \<Rightarrow> Some (w', cs', Inl e)
                 | Some (w', cs', Inr _) \<Rightarrow> encode_conjs env p w' docID (idx + 1) cjs cs')))"

text \<open>A nil document is \<open>None\<close>. The result is an option because a range parser may not end.\<close>

definition Ivt_AddDocument ::
  "'b renv \<Rightarrow> 'b IvtBEIndexerBuilder \<Rightarrow> Document option \<Rightarrow> ('b IvtBEIndexerBuilder \<times> unit res) option"
where
  "Ivt_AddDocument env b doc =
     (case doc of
        None \<Rightarrow> Some (b, Inl (or_panic (ivb_panicOnError b) ''zero conjunction in this document'' (Err ''empty document(zero conjunctions) is not allowed'')))
      | Some d \<Rightarrow>
          (if length (doc_Cons d) = 0 then Some (b, Inl (or_panic (ivb_panicOnError b) ''zero conjunction in this document'' (Err ''empty document(zero conjunctions) is not allowed'')))
           else (case encode_conjs env (ivb_panicOnError b) (ivb_world b) (ID d) 0 (doc_Cons d) (ivb_containerBuilder b) of
                   None \<Rightarrow> None
                 | Some (w, cs, r) \<Rightarrow>
                     (let b' = b\<lparr>ivb_world := w, ivb_containerBuilder := cs\<rparr>
                      in case r of
                           Inl e \<Rightarrow> Some (b', Inl e)
                         | Inr _ \<Rightarrow>
                             Some (b'\<lparr>ivb_docMaxConjSize := MaxInt (int (length (doc_Cons d))) (ivb_docMaxConjSize b)\<rparr>,
                                   Inr ())))))"

fun Ivt_AddDocuments ::
  "'b renv \<Rightarrow> 'b IvtBEIndexerBuilder \<Rightarrow> Document option list \<Rightarrow> ('b IvtBEIndexerBuilder \<times> unit res) option"
where
  "Ivt_AddDocuments env b [] = Some (b, Inr ())"
| "Ivt_AddDocuments env b (doc # docs) =
     (case Ivt_AddDocument env b doc of
        None \<Rightarrow> None
      | Some (b', Inl e) \<Rightarrow> Some (b', Inl e)
      | Some (b', Inr _) \<Rightarrow> Ivt_AddDocuments env b' docs)"

fun build_containers :: "(BEField \<times> 'b BEContainer) list \<Rightarrow> (BEField \<times> 'b BEContainer) list res" where
  "build_containers [] = Inr []"
| "build_containers ((field, c) # cs) =
     (case BuildBEContainer c of
        Inl e \<Rightarrow> Inl e
      | Inr c' \<Rightarrow> (case build_containers cs of Inl e \<Rightarrow> Inl e | Inr cs' \<Rightarrow> Inr ((field, c') # cs')))"

text \<open>The index shares the containers, now with their machines, with the builder, which is returned too.\<close>

definition BuildIndexer :: "'b IvtBEIndexerBuilder \<Rightarrow> ('b IvtBEIndexerBuilder \<times> 'b IvtBEIndexer) res" where
  "BuildIndexer b =
     (case build_containers (ivb_containerBuilder b) of
        Inl e \<Rightarrow> Inl e
      | Inr cs \<Rightarrow>
          Inr (b\<lparr>ivb_containerBuilder := cs\<rparr>,
               \<lparr>ivx_docMaxConjSize = ivb_docMaxConjSize b, ivx_data = cs, ivx_parsers = w_parsers (ivb_world b)\<rparr>))"

subsection \<open>Scanner\<close>

record 'b IvtScanner =
  isc_debug :: bool
  isc_inited :: bool
  isc_ended :: bool
  isc_indexer :: "'b IvtBEIndexer"
  isc_conjIDResults :: 'b

definition NewScanner :: "'b renv \<Rightarrow> 'b IvtBEIndexer \<Rightarrow> 'b bitmapPool \<Rightarrow> 'b IvtScanner \<times> 'b bitmapPool" where
  "NewScanner env indexer pool =
     (case NewPostingList env pool of
        (pl, pool') \<Rightarrow>
          (\<lparr>isc_debug = False, isc_inited = False, isc_ended = False, isc_indexer = indexer, isc_conjIDResults = pl\<rparr>, pool'))"

definition hint_ids :: "'b IvtBEIndexer \<Rightarrow> int list \<Rightarrow> ConjunctionID list" where
  "hint_ids indexer hints =
     concat (map (\<lambda>hintID. concat (map (\<lambda>conjIdx.
       case NewConjunctionID (int conjIdx) hintID of Inl _ \<Rightarrow> [] | Inr conjID \<Rightarrow> [conjID])
         [0..<nat (ivx_docMaxConjSize indexer)])) hints)"

definition WithHint :: "'b renv \<Rightarrow> 'b IvtScanner \<Rightarrow> int list \<Rightarrow> 'b IvtScanner res" where
  "WithHint env sc hints =
     (if isc_inited sc then Inl (Panic ''can't attach hint result in progress'')
      else Inr (sc\<lparr>isc_conjIDResults := rb_AddMany env (isc_conjIDResults sc) (hint_ids (isc_indexer sc) hints),
                   isc_inited := True\<rparr>))"

definition Scanner_SetDebug :: "'b IvtScanner \<Rightarrow> bool \<Rightarrow> 'b IvtScanner" where
  "Scanner_SetDebug sc debugOn = sc\<lparr>isc_debug := debugOn\<rparr>"

definition Scanner_Reset :: "'b renv \<Rightarrow> 'b IvtScanner \<Rightarrow> 'b IvtScanner" where
  "Scanner_Reset env sc =
     sc\<lparr>isc_inited := False, isc_ended := False, isc_debug := False,
        isc_conjIDResults := rb_Clear env (isc_conjIDResults sc)\<rparr>"

definition GetRawResult :: "'b IvtScanner \<Rightarrow> 'b" where
  "GetRawResult sc = isc_conjIDResults sc"

definition Scanner_Ended :: "'b renv \<Rightarrow> 'b IvtScanner \<Rightarrow> bool" where
  "Scanner_Ended env sc \<longleftrightarrow> isc_inited sc \<and> rb_IsEmpty env (isc_conjIDResults sc)"

text \<open>The deferred function sets \<open>ended\<close> on every way out.\<close>

definition mergeFieldResult :: "'b renv \<Rightarrow> 'b IvtScanner \<Rightarrow> 'b \<Rightarrow> 'b IvtScanner" where
  "mergeFieldResult env sc pl =
     (let sc' = (if Scanner_Ended env sc then sc
                 else if \<not> isc_inited sc
                 then sc\<lparr>isc_inited := True, isc_conjIDResults := rb_Or env (isc_conjIDResults sc) pl\<rparr>
                 else sc\<lparr>isc_conjIDResults := rb_And env (isc_conjIDResults sc) pl\<rparr>)
      in sc'\<lparr>isc_ended := rb_IsEmpty env (isc_conjIDResults sc')\<rparr>)"

definition value_at :: "Assignments \<Rightarrow> BEField \<Rightarrow> Values" where
  "value_at assigns field = (case map_of assigns field of None \<Rightarrow> VNil | Some v \<Rightarrow> v)"

fun retrieve_fields ::
  "'b renv \<Rightarrow> ValueIDGenerator list \<Rightarrow> Assignments \<Rightarrow> (BEField \<times> 'b BEContainer) list \<Rightarrow> 'b IvtScanner \<Rightarrow> 'b \<Rightarrow>
   'b IvtScanner \<times> 'b \<times> unit res"
where
  "retrieve_fields env ps assigns [] sc tmpPl = (sc, tmpPl, Inr ())"
| "retrieve_fields env ps assigns ((field, can) # cs) sc tmpPl =
     (if isc_ended sc then (sc, tmpPl, Inr ())
      else (case Container_Retrieve env ps can (value_at assigns field) tmpPl of
              Inl e \<Rightarrow> (sc, tmpPl, Inl e)
            | Inr pl \<Rightarrow> retrieve_fields env ps assigns cs (mergeFieldResult env sc pl) (rb_Clear env pl)))"

text \<open>On an error the temporary list is dropped, not released.\<close>

definition Scanner_retrieve ::
  "'b renv \<Rightarrow> 'b IvtScanner \<Rightarrow> Assignments \<Rightarrow> 'b bitmapPool \<Rightarrow> 'b IvtScanner \<times> 'b bitmapPool \<times> unit res"
where
  "Scanner_retrieve env sc assigns pool =
     (case NewPostingList env pool of
        (tmpPl, pool1) \<Rightarrow>
          (case retrieve_fields env (ivx_parsers (isc_indexer sc)) assigns (ivx_data (isc_indexer sc)) sc tmpPl of
             (sc', tmpPl', Inl e) \<Rightarrow> (sc', pool1, Inl e)
           | (sc', tmpPl', Inr _) \<Rightarrow> (sc', ReleasePostingList env (Some tmpPl') pool1, Inr ())))"

text \<open>The keys of the returned map.\<close>

definition RetrieveDocs ::
  "'b renv \<Rightarrow> 'b IvtScanner \<Rightarrow> Assignments \<Rightarrow> 'b bitmapPool \<Rightarrow> 'b IvtScanner \<times> 'b bitmapPool \<times> int list res"
where
  "RetrieveDocs env sc assigns pool =
     (case Scanner_retrieve env sc assigns pool of
        (sc', pool', Inl e) \<Rightarrow> (sc', pool', Inl e)
      | (sc', pool', Inr _) \<Rightarrow>
          (sc', pool', Inr (remdups (map ConjunctionID_DocID (rb_ToArray env (isc_conjIDResults sc'))))))"

definition Scanner_Retrieve ::
  "'b renv \<Rightarrow> 'b IvtScanner \<Rightarrow> Assignments \<Rightarrow> 'b bitmapPool \<Rightarrow> 'b IvtScanner \<times> 'b bitmapPool \<times> u64 list res"
where
  "Scanner_Retrieve env sc assigns pool =
     (case Scanner_retrieve env sc assigns pool of
        (sc', pool', Inl e) \<Rightarrow> (sc', pool', Inl e)
      | (sc', pool', Inr _) \<Rightarrow>
          (case NewPostingList env pool' of
             (docBits, pool1) \<Rightarrow>
               (let docBits' = foldl (\<lambda>b conjID. rb_Add env b (word_of_int (ConjunctionID_DocID conjID))) docBits
                      (rb_ToArray env (isc_conjIDResults sc'))
                in (sc', ReleasePostingList env (Some docBits') pool1, Inr (rb_ToArray env docBits')))))"

end
