(* ===== verification/RoaringBuild.thy ===== *)
theory RoaringBuild
  imports RoaringIndex
begin

text \<open>
  What the containers of a roaring builder hold: encoding a conjunction leaves its keys under its id and
  nothing else (\<open>holds\<close>, \<open>frame\<close>), and the invariant \<open>ivt_inv\<close> over every history
  of the builder's operations (\<open>ivt_run\<close>).
\<close>

subsection \<open>What an added conjunction leaves in a field\<close>

definition expr_keys :: "'b renv \<Rightarrow> ValueIDGenerator list \<Rightarrow> ccfg \<Rightarrow> bool \<Rightarrow> BoolValues list \<Rightarrow> bkey set" where
  "expr_keys env ps cfg incl es = (\<Union>e\<in>{e\<in>set es. Incl e = incl}. c_keys env ps cfg (Value e))"

definition field_post :: "'b renv \<Rightarrow> ValueIDGenerator list \<Rightarrow> ccfg \<Rightarrow> BoolValues list \<Rightarrow> bkey posting" where
  "field_post env ps cfg es =
     (list_all (\<lambda>e. \<not> Incl e) es, expr_keys env ps cfg True es, expr_keys env ps cfg False es)"

abbreviation no_post :: "bkey posting" where
  "no_post \<equiv> (False, {}, {})"

abbreviation all_known :: "ValueIDGenerator list \<Rightarrow> ccfg \<Rightarrow> BoolValues list \<Rightarrow> bool" where
  "all_known ps cfg es \<equiv> list_all (\<lambda>e. c_known ps cfg (Value e)) es"

text \<open>The container \<open>c\<close> of field \<open>f\<close> holds the conjunction under the id \<open>i\<close>.\<close>

definition holds :: "'b renv \<Rightarrow> ValueIDGenerator list \<Rightarrow> Conjunction \<Rightarrow> ConjunctionID \<Rightarrow> BEField \<times> 'b BEContainer \<Rightarrow> bool" where
  "holds env ps cj i fc \<longleftrightarrow>
     (case fc of (f, c) \<Rightarrow> all_known ps (c_cfg c) (exprs_at cj f) \<and> c_post env c i = field_post env ps (c_cfg c) (exprs_at cj f))"

text \<open>The container changed, if at all, only in what it holds under ids of \<open>X\<close>.\<close>

definition frame :: "'b renv \<Rightarrow> ConjunctionID set \<Rightarrow> BEField \<times> 'b BEContainer \<Rightarrow> BEField \<times> 'b BEContainer \<Rightarrow> bool" where
  "frame env X fc fc' \<longleftrightarrow> fst fc' = fst fc \<and> rc_ok env (snd fc') \<and> c_cfg (snd fc') = c_cfg (snd fc) \<and>
     (\<forall>j. j \<notin> X \<longrightarrow> c_post env (snd fc') j = c_post env (snd fc) j)"

lemma expr_keys_Nil [simp]: "expr_keys env ps cfg b [] = {}"
  by (simp add: expr_keys_def)

lemma expr_keys_Cons:
  "expr_keys env ps cfg b (e # es) = (if Incl e = b then c_keys env ps cfg (Value e) else {}) \<union> expr_keys env ps cfg b es"
  by (auto simp: expr_keys_def)

lemma all_known_le:
  assumes "ps_le ps qs" "all_known ps cfg es"
  shows "all_known qs cfg es" "expr_keys env qs cfg b es = expr_keys env ps cfg b es"
  using assms(2) by (induction es) (simp_all add: expr_keys_Cons bc.keys_le [OF assms(1)])

lemma holds_le: "ps_le ps qs \<Longrightarrow> holds env ps cj i fc \<Longrightarrow> holds env qs cj i fc"
  by (auto simp: holds_def field_post_def all_known_le)

lemma holds_frame: "frame env X fc fc' \<Longrightarrow> i \<notin> X \<Longrightarrow> holds env ps cj i fc \<Longrightarrow> holds env ps cj i fc'"
  by (auto simp: holds_def frame_def split: prod.splits)

lemma frame_refl: "rc_ok env (snd fc) \<Longrightarrow> frame env X fc fc"
  by (simp add: frame_def)

lemma frame_trans: "frame env X a b \<Longrightarrow> frame env Y b c \<Longrightarrow> X \<subseteq> Z \<Longrightarrow> Y \<subseteq> Z \<Longrightarrow> frame env Z a c"
  unfolding frame_def by (metis subsetD)

lemma frames_trans:
  assumes "list_all2 (frame env X) as bs" "list_all2 (frame env Y) bs cs" "X \<subseteq> Z" "Y \<subseteq> Z"
  shows "list_all2 (frame env Z) as cs"
proof -
  have "frame env X a b \<Longrightarrow> frame env Y b c \<Longrightarrow> frame env Z a c" for a b c
    by (rule frame_trans [OF _ _ assms(3,4)])
  then show ?thesis by (rule list_all2_trans [OF _ assms(1,2)])
qed

lemma frames_ok: "list_all2 (frame env X) as bs \<Longrightarrow> \<forall>fc\<in>set bs. rc_ok env (snd fc)"
  by (induction rule: list_all2_induct) (auto simp: frame_def)

lemma frames_fst: "list_all2 (frame env X) as bs \<Longrightarrow> map fst bs = map fst as"
  by (induction rule: list_all2_induct) (auto simp: frame_def)

lemma frames_mono: "list_all2 (frame env X) as bs \<Longrightarrow> X \<subseteq> Y \<Longrightarrow> list_all2 (frame env Y) as bs"
  by (erule list_all2_mono) (auto simp: frame_def)

text \<open>What holds under an id out of \<open>X\<close> for all containers before holds after.\<close>

lemma frames_forall:
  assumes "list_all2 (frame env X) as bs" "\<forall>fc\<in>set as. P fc" "\<And>a b. frame env X a b \<Longrightarrow> P a \<Longrightarrow> Q b"
  shows "\<forall>fc\<in>set bs. Q fc"
  using assms(1,2) by (induction rule: list_all2_induct) (auto dest: assms(3))

subsection \<open>Encoding\<close>

lemma encode_exprs_ok:
  assumes "rc_ok env c" "w_clean env w" "encode_exprs env p w c i f es aw = Some (w', c', r)"
  shows "frame env {i} (f, c) (f, c') \<and> w_clean env w' \<and> ps_le (w_parsers w) (w_parsers w') \<and>
    (\<forall>aw'. r = Inr aw' \<longrightarrow> aw' = (aw \<and> list_all (\<lambda>e. \<not> Incl e) es) \<and> all_known (w_parsers w') (c_cfg c) es \<and>
      c_post env c' i = (case c_post env c i of (wc, I, E) \<Rightarrow>
        (wc, I \<union> expr_keys env (w_parsers w') (c_cfg c) True es, E \<union> expr_keys env (w_parsers w') (c_cfg c) False es)))"
  using assms
proof (induction es arbitrary: w c aw)
  case Nil
  then show ?case by (auto simp: frame_def ps_le_refl)
next
  case (Cons e es)
  obtain w1 c1 r1 where e1: "EncodeExpr env w c i (Some (NewBoolExpr2 f e)) = Some (w1, c1, r1)"
    using Cons.prems(3) by (auto split: option.splits)
  note s = bc.encode_ok [OF Cons.prems(1,2) e1]
  have fr: "frame env {i} (f, c) (f, c1)" using s by (simp add: frame_def)
  show ?case
  proof (cases r1)
    case (Inl err)
    then show ?thesis using Cons.prems(3) e1 s fr by auto
  next
    case (Inr u)
    then have e2: "encode_exprs env p w1 c1 i f es (aw \<and> \<not> Incl e) = Some (w', c', r)" using Cons.prems(3) e1 by simp
    have ok1: "rc_ok env c1" and cl1: "w_clean env w1" and le1: "ps_le (w_parsers w) (w_parsers w1)"
      and cfg1: "c_cfg c1 = c_cfg c" using s by simp_all
    note t = Cons.IH [OF ok1 cl1 e2]
    have le2: "ps_le (w_parsers w1) (w_parsers w')" using t by simp
    have k1: "c_known (w_parsers w1) (c_cfg c) (Value e)"
      "c_post env c1 i = add_keys (Incl e) (c_keys env (w_parsers w1) (c_cfg c) (Value e)) (c_post env c i)"
      using s Inr by (simp_all add: NewBoolExpr2_def)
    note k2 = bc.keys_le [OF le2 k1(1)]
    have "frame env {i} (f, c) (f, c')" using t by (auto intro: frame_trans [OF fr])
    then show ?thesis using t k1 k2 ps_le_trans [OF le1 le2] cfg1
      by (auto simp: expr_keys_Cons add_keys_def split: prod.splits)
  qed
qed

lemma encode_field_ok:
  assumes ok: "rc_ok env c" and cl: "w_clean env w" and e: "encode_field env p w c i f cj = Some (w', c', r)"
  shows "frame env {i} (f, c) (f, c') \<and> w_clean env w' \<and> ps_le (w_parsers w) (w_parsers w') \<and>
    (r = Inr () \<longrightarrow> c_post env c i = no_post \<longrightarrow> holds env (w_parsers w') cj i (f, c'))"
proof (cases "exprs_at cj f = []")
  case True
  then show ?thesis using e cl bc.wildcard_ok [OF ok, of i] ps_le_refl
    by (auto simp: encode_field_def frame_def holds_def field_post_def add_wildcard_def)
next
  case False
  then obtain w1 c1 r1 where e1: "encode_exprs env p w c i f (exprs_at cj f) True = Some (w1, c1, r1)"
    using e by (auto simp: encode_field_def split: option.splits)
  note s = encode_exprs_ok [OF ok cl e1]
  have ok1: "rc_ok env c1" using s by (simp add: frame_def)
  show ?thesis
  proof (cases r1)
    case (Inl err)
    then show ?thesis using e False e1 s by (auto simp: encode_field_def)
  next
    case (Inr aw)
    then show ?thesis using e False e1 s bc.wildcard_ok [OF ok1, of i]
      by (auto simp: encode_field_def holds_def field_post_def frame_def add_wildcard_def split: if_splits)
  qed
qed

lemma encode_fields_ok:
  assumes "\<forall>fc\<in>set cs. rc_ok env (snd fc)" "w_clean env w" "encode_fields env p w i cj cs = Some (w', cs', r)"
  shows "list_all2 (frame env {i}) cs cs' \<and> w_clean env w' \<and> ps_le (w_parsers w) (w_parsers w') \<and>
    (r = Inr () \<longrightarrow> (\<forall>fc\<in>set cs. c_post env (snd fc) i = no_post) \<longrightarrow> (\<forall>fc\<in>set cs'. holds env (w_parsers w') cj i fc))"
  using assms
proof (induction cs arbitrary: w cs')
  case Nil
  then show ?case by (auto simp: ps_le_refl)
next
  case (Cons fc cs)
  obtain f c where fc: "fc = (f, c)" by fastforce
  have oks: "rc_ok env c" "\<forall>fc\<in>set cs. rc_ok env (snd fc)" using Cons.prems(1) fc by simp_all
  obtain w1 c1 r1 where e1: "encode_field env p w c i f cj = Some (w1, c1, r1)"
    using Cons.prems(3) by (auto simp: fc split: option.splits)
  note s = encode_field_ok [OF oks(1) Cons.prems(2) e1]
  have refl: "list_all2 (frame env {i}) cs cs" using oks(2) by (simp add: list_all2_same frame_refl)
  show ?case
  proof (cases r1)
    case (Inl err)
    then show ?thesis using Cons.prems(3) e1 s refl by (auto simp: fc)
  next
    case (Inr u)
    then obtain cs2 where e2: "encode_fields env p w1 i cj cs = Some (w', cs2, r)" "cs' = (f, c1) # cs2"
      using Cons.prems(3) e1 by (auto simp: fc split: option.splits)
    have cl1: "w_clean env w1" using s by simp
    note t = Cons.IH [OF oks(2) cl1 e2(1)]
    have le: "ps_le (w_parsers w1) (w_parsers w')" using t by simp
    show ?thesis using s t Inr holds_le [OF le, of env cj i "(f, c1)"] ps_le_trans [of "w_parsers w"]
      by (auto simp: e2(2) fc)
  qed
qed

text \<open>The ids of the conjunctions of a document from index \<open>idx\<close> on.\<close>

definition conj_ids :: "int \<Rightarrow> int \<Rightarrow> nat \<Rightarrow> ConjunctionID set" where
  "conj_ids d idx n = {i. \<exists>k<n. NewConjunctionID (idx + int k) d = Inr i}"

lemma conj_ids_Suc:
  assumes "NewConjunctionID idx d = Inr i"
  shows "conj_ids d idx (Suc n) = insert i (conj_ids d (idx + 1) n)" "i \<notin> conj_ids d (idx + 1) n"
proof -
  show "conj_ids d idx (Suc n) = insert i (conj_ids d (idx + 1) n)"
    using assms by (auto simp: conj_ids_def Ex_less_Suc2 add.assoc)
  show "i \<notin> conj_ids d (idx + 1) n" using NewConjunctionID_inj(1) [OF assms] by (fastforce simp: conj_ids_def)
qed

lemma conj_ids_DocID: "i \<in> conj_ids d idx n \<Longrightarrow> ConjunctionID_DocID i = d"
  by (auto simp: conj_ids_def dest: ConjunctionID_parts)

lemma encode_conjs_ok:
  assumes "\<forall>fc\<in>set cs. rc_ok env (snd fc)" "w_clean env w" "encode_conjs env p w d idx cjs cs = Some (w', cs', r)"
  shows "list_all2 (frame env (conj_ids d idx (length cjs))) cs cs' \<and> w_clean env w' \<and> ps_le (w_parsers w) (w_parsers w') \<and>
    (r = Inr () \<longrightarrow> (\<forall>fc\<in>set cs. \<forall>j\<in>conj_ids d idx (length cjs). c_post env (snd fc) j = no_post) \<longrightarrow>
      (\<forall>k<length cjs. \<exists>i. NewConjunctionID (idx + int k) d = Inr i \<and> (\<forall>fc\<in>set cs'. holds env (w_parsers w') (cjs ! k) i fc)))"
  using assms
proof (induction cjs arbitrary: w cs idx)
  case Nil
  then show ?case by (auto simp: ps_le_refl list_all2_same frame_refl)
next
  case (Cons cj cjs)
  have refl: "list_all2 (frame env X) cs cs" for X using Cons.prems(1) by (simp add: list_all2_same frame_refl)
  show ?case
  proof (cases "\<exists>i. NewConjunctionID idx d = Inr i \<and> list_all (\<lambda>(f, _). map_of cs f \<noteq> None) (Expressions cj)")
    case False
    then have "w' = w" "cs' = cs" "r \<noteq> Inr ()" using Cons.prems(3) by (auto split: sum.splits if_splits)
    then show ?thesis using Cons.prems(2) refl ps_le_refl by simp
  next
    case True
    then obtain i where i: "NewConjunctionID idx d = Inr i"
      and conf: "list_all (\<lambda>(f, _). map_of cs f \<noteq> None) (Expressions cj)" by blast
    obtain w1 cs1 r1 where e1: "encode_fields env p w i cj cs = Some (w1, cs1, r1)"
      using Cons.prems(3) i conf by (auto split: option.splits)
    note s = encode_fields_ok [OF Cons.prems(1,2) e1]
    note ids = conj_ids_Suc [OF i, of "length cjs"]
    have fr: "list_all2 (frame env {i}) cs cs1" and cl1: "w_clean env w1" using s by simp_all
    show ?thesis
    proof (cases r1)
      case (Inl err)
      then have "w' = w1" "cs' = cs1" "r \<noteq> Inr ()" using Cons.prems(3) i conf e1 by auto
      then show ?thesis using s frames_mono [OF fr, of "conj_ids d idx (length (cj # cjs))"] ids(1) by simp
    next
      case (Inr u)
      then have e2: "encode_conjs env p w1 d (idx + 1) cjs cs1 = Some (w', cs', r)" using Cons.prems(3) i conf e1 by simp
      note t = Cons.IH [OF frames_ok [OF fr] cl1 e2]
      have fr2: "list_all2 (frame env (conj_ids d (idx + 1) (length cjs))) cs1 cs'"
        and le2: "ps_le (w_parsers w1) (w_parsers w')" using t by simp_all
      have frs: "list_all2 (frame env (conj_ids d idx (length (cj # cjs)))) cs cs'"
        using frames_trans [OF fr fr2] ids(1) by auto
      have goal: "\<forall>k<length (cj # cjs). \<exists>j. NewConjunctionID (idx + int k) d = Inr j \<and>
          (\<forall>fc\<in>set cs'. holds env (w_parsers w') ((cj # cjs) ! k) j fc)"
        if r: "r = Inr ()" and z: "\<forall>fc\<in>set cs. \<forall>j\<in>conj_ids d idx (length (cj # cjs)). c_post env (snd fc) j = no_post"
      proof -
        have "\<forall>fc\<in>set cs1. holds env (w_parsers w1) cj i fc" using s Inr z ids(1) by simp
        then have h: "\<forall>fc\<in>set cs'. holds env (w_parsers w') cj i fc"
          by (rule frames_forall [OF fr2]) (rule holds_le [OF le2 holds_frame [OF _ ids(2)]])
        have "\<forall>fc\<in>set cs. \<forall>j\<in>conj_ids d (idx + 1) (length cjs). c_post env (snd fc) j = no_post \<and> j \<noteq> i"
          using z ids by auto
        then have "\<forall>fc\<in>set cs1. \<forall>j\<in>conj_ids d (idx + 1) (length cjs). c_post env (snd fc) j = no_post"
          by (rule frames_forall [OF fr]) (simp add: frame_def)
        then have "\<forall>k<length cjs. \<exists>j. NewConjunctionID (idx + 1 + int k) d = Inr j \<and>
            (\<forall>fc\<in>set cs'. holds env (w_parsers w') (cjs ! k) j fc)" using t r by simp
        then show ?thesis using i h by (simp add: All_less_Suc2 add.assoc)
      qed
      show ?thesis using frs goal t s ps_le_trans [of "w_parsers w"] by blast
    qed
  qed
qed

subsection \<open>Histories of a builder\<close>

text \<open>A registered function makes an empty container and keeps the pool clean.\<close>

definition rfactory_ok :: "'b renv \<Rightarrow> 'b containerFactory \<Rightarrow> bool" where
  "rfactory_ok env factory \<longleftrightarrow>
     (\<forall>(name, fn)\<in>set factory. \<forall>meta pool c pool'. bp_clean env pool \<longrightarrow> fn meta pool = Inr (c, pool') \<longrightarrow>
        rc_ok env c \<and> bp_clean env pool' \<and> (\<forall>i. c_post env c i = no_post))"

text \<open>
  \<open>ivt_run env factory w docs F b\<close>: starting with a new builder in the world \<open>w\<close>, its operations
  lead to \<open>b\<close>. Fields are configured before documents are added. \<open>docs\<close> are the documents
  added without an error under an id of their own; \<open>F\<close> are the ids of the other calls of
  \<^verbatim>\<open>AddDocument\<close>, whatever they returned. Between two operations the order of the map of
  containers may change, and other builders and scanners may use the shared parsers and the pool.
\<close>

inductive ivt_run ::
  "'b renv \<Rightarrow> 'b containerFactory \<Rightarrow> 'b world \<Rightarrow> Document list \<Rightarrow> int set \<Rightarrow> 'b IvtBEIndexerBuilder \<Rightarrow> bool"
  for env factory w
where
  ivt_new: "ivt_run env factory w [] {} (NewIvtIndexerBuilder w)"
| ivt_panic: "ivt_run env factory w docs F b \<Longrightarrow> ivt_run env factory w docs F (WithErrPanic b p)"
| ivt_configure: "ivt_run env factory w [] {} b \<Longrightarrow> Ivt_ConfigureField factory b f opt = (b', r) \<Longrightarrow>
    ivt_run env factory w [] {} b'"
| ivt_add: "ivt_run env factory w docs F b \<Longrightarrow> Ivt_AddDocument env b (Some d) = Some (b', Inr ()) \<Longrightarrow>
    ID d \<notin> ID ` set docs \<union> F \<Longrightarrow> ivt_run env factory w (docs @ [d]) F b'"
| ivt_other: "ivt_run env factory w docs F b \<Longrightarrow> Ivt_AddDocument env b (Some d) = Some (b', r) \<Longrightarrow>
    ivt_run env factory w docs (insert (ID d) F) b'"
| ivt_nil: "ivt_run env factory w docs F b \<Longrightarrow> Ivt_AddDocument env b None = Some (b', r) \<Longrightarrow>
    ivt_run env factory w docs F b'"
| ivt_build: "ivt_run env factory w docs F b \<Longrightarrow> BuildIndexer b = Inr (b', x) \<Longrightarrow> ivt_run env factory w docs F b'"
| ivt_order: "ivt_run env factory w docs F b \<Longrightarrow> set cs = set (ivb_containerBuilder b) \<Longrightarrow> distinct (map fst cs) \<Longrightarrow>
    ivt_run env factory w docs F (b\<lparr>ivb_containerBuilder := cs\<rparr>)"
| ivt_shared: "ivt_run env factory w docs F b \<Longrightarrow> w_clean env w' \<Longrightarrow> ps_le (w_parsers (ivb_world b)) (w_parsers w') \<Longrightarrow>
    ivt_run env factory w docs F (b\<lparr>ivb_world := w'\<rparr>)"

definition conj_at :: "Document list \<Rightarrow> ConjunctionID \<Rightarrow> Conjunction \<Rightarrow> bool" where
  "conj_at docs i cj \<longleftrightarrow>
     (\<exists>d\<in>set docs. \<exists>k<length (doc_Cons d). NewConjunctionID (int k) (ID d) = Inr i \<and> cj = doc_Cons d ! k)"

text \<open>What a container holds under the ids out of \<open>F\<close>: the added conjunctions and nothing else.\<close>

definition field_inv ::
  "'b renv \<Rightarrow> ValueIDGenerator list \<Rightarrow> Document list \<Rightarrow> int set \<Rightarrow> BEField \<times> 'b BEContainer \<Rightarrow> bool"
where
  "field_inv env ps docs F fc \<longleftrightarrow>
     (\<forall>i. ConjunctionID_DocID i \<notin> F \<longrightarrow>
        (\<forall>cj. conj_at docs i cj \<longrightarrow> holds env ps cj i fc) \<and>
        ((\<forall>cj. \<not> conj_at docs i cj) \<longrightarrow> c_post env (snd fc) i = no_post))"

definition doc_inv :: "int \<Rightarrow> Document \<Rightarrow> bool" where
  "doc_inv m d \<longleftrightarrow> int (length (doc_Cons d)) \<le> m \<and>
     (\<forall>k<length (doc_Cons d). \<exists>i. NewConjunctionID (int k) (ID d) = Inr i)"

definition ivt_inv :: "'b renv \<Rightarrow> Document list \<Rightarrow> int set \<Rightarrow> 'b IvtBEIndexerBuilder \<Rightarrow> bool" where
  "ivt_inv env docs F b \<longleftrightarrow>
     w_clean env (ivb_world b) \<and> (\<forall>d\<in>set docs. doc_inv (ivb_docMaxConjSize b) d) \<and>
     (\<forall>fc\<in>set (ivb_containerBuilder b). rc_ok env (snd fc) \<and> field_inv env (w_parsers (ivb_world b)) docs F fc)"

lemma conj_at_DocID: "conj_at docs i cj \<Longrightarrow> ConjunctionID_DocID i \<in> ID ` set docs"
  by (auto simp: conj_at_def dest: ConjunctionID_parts)

lemma conj_at_snoc:
  "conj_at (docs @ [d]) i cj \<longleftrightarrow> conj_at docs i cj \<or>
     (\<exists>k<length (doc_Cons d). NewConjunctionID (int k) (ID d) = Inr i \<and> cj = doc_Cons d ! k)"
  by (auto simp: conj_at_def)

lemma field_inv_le:
  assumes "ps_le ps qs" "field_inv env ps docs F fc"
  shows "field_inv env qs docs F fc"
  using assms(2) holds_le [OF assms(1)] unfolding field_inv_def by blast

lemma field_inv_fresh:
  assumes "field_inv env ps docs F fc" "ConjunctionID_DocID i \<notin> ID ` set docs \<union> F"
  shows "c_post env (snd fc) i = no_post"
proof -
  have "\<not> conj_at docs i cj" for cj using assms(2) conj_at_DocID [of docs i cj] by auto
  then show ?thesis using assms by (simp add: field_inv_def)
qed

lemma field_inv_frame:
  assumes "frame env X fc fc'" "\<And>i. i \<in> X \<Longrightarrow> ConjunctionID_DocID i \<in> F'" "F \<subseteq> F'" "field_inv env ps docs F fc"
  shows "field_inv env ps docs F' fc'"
  unfolding field_inv_def
proof (intro allI impI)
  fix i assume "ConjunctionID_DocID i \<notin> F'"
  then have i: "ConjunctionID_DocID i \<notin> F" "i \<notin> X" using assms(2,3) by auto
  have "c_post env (snd fc') i = c_post env (snd fc) i" using assms(1) i(2) by (simp add: frame_def)
  then show "(\<forall>cj. conj_at docs i cj \<longrightarrow> holds env ps cj i fc') \<and> ((\<forall>cj. \<not> conj_at docs i cj) \<longrightarrow> c_post env (snd fc') i = no_post)"
    using assms(4) i(1) holds_frame [OF assms(1) i(2)] by (simp add: field_inv_def)
qed

lemma field_inv_snoc:
  assumes new: "ID d \<notin> ID ` set docs \<union> F" and old: "field_inv env ps docs (insert (ID d) F) fc"
    and h: "\<forall>k<length (doc_Cons d). \<exists>i. NewConjunctionID (int k) (ID d) = Inr i \<and> holds env ps (doc_Cons d ! k) i fc"
    and rest: "\<forall>i. ConjunctionID_DocID i = ID d \<longrightarrow> i \<notin> conj_ids (ID d) 0 (length (doc_Cons d)) \<longrightarrow> c_post env (snd fc) i = no_post"
  shows "field_inv env ps (docs @ [d]) F fc"
  unfolding field_inv_def
proof (intro allI impI)
  fix i assume i: "ConjunctionID_DocID i \<notin> F"
  show "(\<forall>cj. conj_at (docs @ [d]) i cj \<longrightarrow> holds env ps cj i fc) \<and>
    ((\<forall>cj. \<not> conj_at (docs @ [d]) i cj) \<longrightarrow> c_post env (snd fc) i = no_post)"
  proof (cases "ConjunctionID_DocID i = ID d")
    case True
    then have "\<not> conj_at docs i cj" for cj using new conj_at_DocID [of docs i cj] by auto
    then show ?thesis using h rest True by (fastforce simp: conj_at_snoc conj_ids_def)
  next
    case False
    then have "NewConjunctionID (int k) (ID d) \<noteq> Inr i" for k using ConjunctionID_parts(1) by blast
    then show ?thesis using old i False by (simp add: conj_at_snoc field_inv_def)
  qed
qed

lemma Ivt_AddDocument_cases:
  assumes "Ivt_AddDocument env b (Some d) = Some (b', r)"
  obtains (empty) "b' = b" "r \<noteq> Inr ()" | (conjs) w' cs' r' where
    "encode_conjs env (ivb_panicOnError b) (ivb_world b) (ID d) 0 (doc_Cons d) (ivb_containerBuilder b) = Some (w', cs', r')"
    "r = r'" "b' = b\<lparr>ivb_world := w', ivb_containerBuilder := cs',
      ivb_docMaxConjSize := (if r' = Inr () then MaxInt (int (length (doc_Cons d))) (ivb_docMaxConjSize b) else ivb_docMaxConjSize b)\<rparr>"
  using assms by (auto simp: Ivt_AddDocument_def Let_def split: if_splits option.splits sum.splits)

lemma ivt_inv_other:
  assumes inv: "ivt_inv env docs F b" and a: "Ivt_AddDocument env b (Some d) = Some (b', r)"
  shows "ivt_inv env docs (insert (ID d) F) b'"
  using a
proof (cases rule: Ivt_AddDocument_cases)
  case empty
  then show ?thesis using inv by (auto simp: ivt_inv_def field_inv_def)
next
  case (conjs w' cs' r')
  have ok: "\<forall>fc\<in>set (ivb_containerBuilder b). rc_ok env (snd fc)" and cl: "w_clean env (ivb_world b)"
    using inv by (simp_all add: ivt_inv_def)
  note e = encode_conjs_ok [OF ok cl conjs(1)]
  have le: "ps_le (w_parsers (ivb_world b)) (w_parsers w')" using e by simp
  have fr: "list_all2 (frame env (conj_ids (ID d) 0 (length (doc_Cons d)))) (ivb_containerBuilder b) cs'" using e by simp
  have "\<forall>fc\<in>set (ivb_containerBuilder b). field_inv env (w_parsers w') docs F fc"
    using inv by (auto simp: ivt_inv_def intro: field_inv_le [OF le])
  then have "\<forall>fc\<in>set cs'. field_inv env (w_parsers w') docs (insert (ID d) F) fc"
    by (rule frames_forall [OF fr]) (erule field_inv_frame, auto dest: conj_ids_DocID)
  moreover have "doc_inv m e \<Longrightarrow> m \<le> n \<Longrightarrow> doc_inv n e" for m n e by (simp add: doc_inv_def)
  then have "\<forall>e\<in>set docs. doc_inv (ivb_docMaxConjSize b') e"
    using inv by (auto simp: ivt_inv_def conjs(3) MaxInt_def)
  ultimately show ?thesis using e frames_ok [OF fr] by (simp add: ivt_inv_def conjs(3))
qed

lemma ivt_inv_add:
  assumes inv: "ivt_inv env docs F b" and a: "Ivt_AddDocument env b (Some d) = Some (b', Inr ())"
    and new: "ID d \<notin> ID ` set docs \<union> F"
  shows "ivt_inv env (docs @ [d]) F b'"
  using a
proof (cases rule: Ivt_AddDocument_cases)
  case (conjs w' cs' r')
  let ?X = "conj_ids (ID d) 0 (length (doc_Cons d))"
  have ok: "\<forall>fc\<in>set (ivb_containerBuilder b). rc_ok env (snd fc)" and cl: "w_clean env (ivb_world b)"
    using inv by (simp_all add: ivt_inv_def)
  note e = encode_conjs_ok [OF ok cl conjs(1)]
  have le: "ps_le (w_parsers (ivb_world b)) (w_parsers w')" using e by simp
  have fr: "list_all2 (frame env ?X) (ivb_containerBuilder b) cs'" using e by simp
  have fresh: "c_post env (snd fc) j = no_post"
    if "fc \<in> set (ivb_containerBuilder b)" "ConjunctionID_DocID j = ID d" for fc j
    using field_inv_fresh [of env "w_parsers (ivb_world b)" docs F fc j] inv new that by (simp add: ivt_inv_def)
  then have "\<forall>fc\<in>set (ivb_containerBuilder b). \<forall>j\<in>?X. c_post env (snd fc) j = no_post"
    using conj_ids_DocID by blast
  then have h: "\<forall>k<length (doc_Cons d). \<exists>i. NewConjunctionID (int k) (ID d) = Inr i \<and>
      (\<forall>fc\<in>set cs'. holds env (w_parsers w') (doc_Cons d ! k) i fc)" using e conjs(2) by simp
  have old: "\<forall>fc\<in>set (ivb_containerBuilder b). field_inv env (w_parsers w') docs F fc"
    using inv by (auto simp: ivt_inv_def intro: field_inv_le [OF le])
  have "\<forall>fc\<in>set cs'. field_inv env (w_parsers w') docs (insert (ID d) F) fc"
    by (rule frames_forall [OF fr old]) (erule field_inv_frame, auto dest: conj_ids_DocID)
  moreover have "\<forall>fc\<in>set cs'. \<forall>i. ConjunctionID_DocID i = ID d \<longrightarrow> i \<notin> ?X \<longrightarrow> c_post env (snd fc) i = no_post"
    by (rule frames_forall [OF fr, where P = "\<lambda>fc. \<forall>j. ConjunctionID_DocID j = ID d \<longrightarrow> c_post env (snd fc) j = no_post"])
      (use fresh in \<open>blast, simp add: frame_def\<close>)
  ultimately have "\<forall>fc\<in>set cs'. field_inv env (w_parsers w') (docs @ [d]) F fc"
    using field_inv_snoc [OF new] h by blast
  moreover have "doc_inv m e \<Longrightarrow> m \<le> n \<Longrightarrow> doc_inv n e" for m n e by (simp add: doc_inv_def)
  then have "\<forall>e\<in>set (docs @ [d]). doc_inv (ivb_docMaxConjSize b') e"
    using inv h conjs(2) by (auto simp: ivt_inv_def conjs(3) MaxInt_def doc_inv_def)
  ultimately show ?thesis using e frames_ok [OF fr] by (simp add: ivt_inv_def conjs(3))
qed (rule notE [OF _ refl])

lemma build_containers_ok:
  assumes "\<forall>fc\<in>set cs. rc_ok env (snd fc)"
  obtains cs' where "build_containers cs = Inr cs'" "list_all2 (frame env {}) cs cs'" "\<forall>fc\<in>set cs'. rc_ready env (snd fc)"
proof -
  have "\<exists>cs'. build_containers cs = Inr cs' \<and> list_all2 (frame env {}) cs cs' \<and> (\<forall>fc\<in>set cs'. rc_ready env (snd fc))"
    using assms
  proof (induction cs)
    case (Cons fc cs)
    then obtain c' where c': "BuildBEContainer (snd fc) = Inr c'" "rc_ready env c'" "c_cfg c' = c_cfg (snd fc)"
      "c_post env c' = c_post env (snd fc)" using bc.build_ok [of env "snd fc"] by auto
    then show ?case using Cons bc.ready_ok [OF c'(2)] by (cases fc) (auto simp: frame_def)
  qed simp
  then show ?thesis using that by blast
qed

lemma ivt_inv_build:
  assumes inv: "ivt_inv env docs F b"
  obtains b' x where "BuildIndexer b = Inr (b', x)" "ivt_inv env docs F b'" "ivx_data x = ivb_containerBuilder b'"
    "ivx_parsers x = w_parsers (ivb_world b')" "ivx_docMaxConjSize x = ivb_docMaxConjSize b'"
    "\<forall>fc\<in>set (ivx_data x). rc_ready env (snd fc)" "map fst (ivx_data x) = map fst (ivb_containerBuilder b)"
proof -
  have "\<forall>fc\<in>set (ivb_containerBuilder b). rc_ok env (snd fc)" using inv by (simp add: ivt_inv_def)
  then obtain cs where cs: "build_containers (ivb_containerBuilder b) = Inr cs"
    "list_all2 (frame env {}) (ivb_containerBuilder b) cs" "\<forall>fc\<in>set cs. rc_ready env (snd fc)" by (rule build_containers_ok)
  have "\<forall>fc\<in>set (ivb_containerBuilder b). field_inv env (w_parsers (ivb_world b)) docs F fc"
    using inv by (simp add: ivt_inv_def)
  then have "\<forall>fc\<in>set cs. field_inv env (w_parsers (ivb_world b)) docs F fc"
    by (rule frames_forall [OF cs(2)]) (erule field_inv_frame, auto)
  then have "ivt_inv env docs F (b\<lparr>ivb_containerBuilder := cs\<rparr>)"
    using inv frames_ok [OF cs(2)] by (simp add: ivt_inv_def)
  then show ?thesis using cs(1,3) frames_fst [OF cs(2)] by (intro that) (simp add: BuildIndexer_def, simp_all)
qed

lemma field_inv_Nil: "(\<And>i. c_post env (snd fc) i = no_post) \<Longrightarrow> field_inv env ps [] F fc"
  by (simp add: field_inv_def conj_at_def)

lemma Ivt_ConfigureField_cases:
  assumes "rfactory_ok env factory" "w_clean env (ivb_world b)" "Ivt_ConfigureField factory b f opt = (b', r)"
  obtains (fail) "b' = b" "r \<noteq> Inr ()" | (ok) c pool where
    "b' = b\<lparr>ivb_containerBuilder := alist_put f c (ivb_containerBuilder b), ivb_world := (ivb_world b)\<lparr>w_pool := pool\<rparr>\<rparr>"
    "r = Inr ()" "rc_ok env c" "bp_clean env pool" "\<And>i. c_post env c i = no_post"
proof (cases "map_of factory (fs_Container opt)")
  case None
  then show ?thesis using fail assms(3) by (auto simp: Ivt_ConfigureField_def NewContainerBuilder_def Let_def)
next
  case (Some fn)
  define meta where "meta = \<lparr>fs_Parser = (case fs_Parser opt of None \<Rightarrow> Some (ivb_defaultParser b) | Some p \<Rightarrow> Some p),
    fs_Container = fs_Container opt, meta_field = f\<rparr>"
  show ?thesis
  proof (cases "fn meta (w_pool (ivb_world b))")
    case (Inl e)
    then show ?thesis using fail assms(3) Some
      by (auto simp: Ivt_ConfigureField_def NewContainerBuilder_def Let_def meta_def [symmetric])
  next
    case (Inr cp)
    then obtain c pool where n: "fn meta (w_pool (ivb_world b)) = Inr (c, pool)" by (cases cp) simp
    then have "rc_ok env c \<and> bp_clean env pool \<and> (\<forall>i. c_post env c i = no_post)"
      using assms(1,2) map_of_SomeD [OF Some] unfolding rfactory_ok_def w_clean_def by blast
    then show ?thesis using ok [of pool c] assms(3) Some n
      by (auto simp: Ivt_ConfigureField_def NewContainerBuilder_def Let_def meta_def [symmetric])
  qed
qed

lemma set_alist_put: "set (alist_put k v m) \<subseteq> insert (k, v) (set m)"
  unfolding alist_put_def by (induction k "\<lambda>_ :: 'b option. v" m rule: alist_modify.induct) auto

lemma ivt_inv_configure:
  assumes inv: "ivt_inv env [] {} b" and fac: "rfactory_ok env factory" and c: "Ivt_ConfigureField factory b f opt = (b', r)"
  shows "ivt_inv env [] {} b'"
proof -
  have "w_clean env (ivb_world b)" using inv by (simp add: ivt_inv_def)
  from fac this c show ?thesis
  proof (cases rule: Ivt_ConfigureField_cases)
    case (ok c pool)
    have "field_inv env (w_parsers (ivb_world b)) [] {} (f, c)" using ok(5) by (intro field_inv_Nil) simp
    then have "\<forall>fc\<in>insert (f, c) (set (ivb_containerBuilder b)). rc_ok env (snd fc) \<and> field_inv env (w_parsers (ivb_world b)) [] {} fc"
      using inv ok(3) by (simp add: ivt_inv_def)
    then have "\<forall>fc\<in>set (ivb_containerBuilder b'). rc_ok env (snd fc) \<and> field_inv env (w_parsers (ivb_world b)) [] {} fc"
      using set_alist_put [of f c "ivb_containerBuilder b"] unfolding ok(1) by auto
    then show ?thesis using ok(4) by (simp add: ivt_inv_def w_clean_def ok(1))
  qed (use inv in simp)
qed

lemma ivt_run_inv:
  assumes "ivt_run env factory w docs F b" "rfactory_ok env factory" "w_clean env w"
  shows "ivt_inv env docs F b"
  using assms(1)
proof induction
  case ivt_new
  then show ?case using assms(3) by (simp add: ivt_inv_def NewIvtIndexerBuilder_def w_clean_def)
next
  case (ivt_panic docs F b p)
  then show ?case by (simp add: ivt_inv_def WithErrPanic_def)
next
  case (ivt_configure b f opt b' r)
  then show ?case using ivt_inv_configure assms(2) by blast
next
  case (ivt_add docs F b d b')
  then show ?case by (blast intro: ivt_inv_add)
next
  case (ivt_other docs F b d b' r)
  then show ?case by (blast intro: ivt_inv_other)
next
  case (ivt_nil docs F b b' r)
  then show ?case by (simp add: Ivt_AddDocument_def)
next
  case (ivt_build docs F b b' x)
  then show ?case by (metis Inr_inject Pair_inject ivt_inv_build)
next
  case (ivt_order docs F b cs)
  then show ?case by (simp add: ivt_inv_def)
next
  case (ivt_shared docs F b w')
  then show ?case by (auto simp: ivt_inv_def intro: field_inv_le)
qed

end
