(* ===== verification/RoaringCorrect.thy ===== *)
theory RoaringCorrect
  imports RoaringBuild
begin

text \<open>
  Correctness of the roaring index end to end: a scanner over the index built after any history of
  builder operations returns exactly the documents with a conjunction that is satisfied in
  every configured field. Concrete instances for the witnesses are at the end.
\<close>

subsection \<open>Retrieval\<close>

definition field_pass ::
  "'b renv \<Rightarrow> ValueIDGenerator list \<Rightarrow> Assignments \<Rightarrow> ConjunctionID \<Rightarrow> BEField \<times> 'b BEContainer \<Rightarrow> bool"
where
  "field_pass env ps ass i fc \<longleftrightarrow> passes (c_post env (snd fc) i) (c_asks env ps (c_cfg (snd fc)) (value_at ass (fst fc)))"

definition field_answers :: "'b renv \<Rightarrow> ValueIDGenerator list \<Rightarrow> Assignments \<Rightarrow> BEField \<times> 'b BEContainer \<Rightarrow> bool" where
  "field_answers env ps ass fc \<longleftrightarrow> c_answers env ps (snd fc) (value_at ass (fst fc))"

text \<open>A scanner between two fields: it ended only with an empty result, and holds nothing before it started.\<close>

definition scanner_inv :: "'b renv \<Rightarrow> 'b IvtScanner \<Rightarrow> bool" where
  "scanner_inv env sc \<longleftrightarrow>
     (isc_ended sc \<longrightarrow> isc_inited sc \<and> rset env (isc_conjIDResults sc) = {}) \<and>
     (\<not> isc_inited sc \<longrightarrow> rset env (isc_conjIDResults sc) = {})"

text \<open>The ids a scanner still admits.\<close>

definition admitted :: "'b renv \<Rightarrow> 'b IvtScanner \<Rightarrow> ConjunctionID set" where
  "admitted env sc = (if isc_inited sc then rset env (isc_conjIDResults sc) else UNIV)"

lemma mergeFieldResult_ok:
  assumes rb: "roaring_spec env" and inv: "scanner_inv env sc"
  shows "scanner_inv env (mergeFieldResult env sc pl) \<and> isc_inited (mergeFieldResult env sc pl) \<and>
    isc_indexer (mergeFieldResult env sc pl) = isc_indexer sc \<and>
    admitted env (mergeFieldResult env sc pl) = admitted env sc \<inter> rset env pl"
  using inv
  by (auto simp: mergeFieldResult_def scanner_inv_def admitted_def Scanner_Ended_def Let_def roaring_specD [OF rb])

lemma retrieve_fields_ok:
  assumes rb: "roaring_spec env" and "\<forall>fc\<in>set cs. rc_ready env (snd fc) \<and> field_answers env ps ass fc"
    and "scanner_inv env sc" "rset env tmp = {}"
  shows "\<exists>sc' tmp'. retrieve_fields env ps ass cs sc tmp = (sc', tmp', Inr ()) \<and> scanner_inv env sc' \<and>
    isc_indexer sc' = isc_indexer sc \<and> (isc_inited sc' \<longleftrightarrow> isc_inited sc \<or> cs \<noteq> []) \<and>
    admitted env sc' = admitted env sc \<inter> {i. \<forall>fc\<in>set cs. field_pass env ps ass i fc}"
  using assms(2-)
proof (induction cs arbitrary: sc tmp)
  case (Cons fc cs)
  obtain f c where fc: "fc = (f, c)" by fastforce
  show ?case
  proof (cases "isc_ended sc")
    case True
    then have "admitted env sc = {}" "isc_inited sc" using Cons.prems(2) by (simp_all add: scanner_inv_def admitted_def)
    then show ?thesis using True Cons.prems(2) by (simp add: fc)
  next
    case False
    have "rc_ready env c" "c_answers env ps c (value_at ass f)" using Cons.prems(1) by (simp_all add: fc field_answers_def)
    then obtain pl where pl: "Container_Retrieve env ps c (value_at ass f) tmp = Inr pl"
      "rset env pl = {i. field_pass env ps ass i fc}"
      using bc.retrieve_ok [of env c ps "value_at ass f" tmp] Cons.prems(3) by (auto simp: field_pass_def fc)
    note m = mergeFieldResult_ok [OF rb Cons.prems(2), of pl]
    have "rset env (rb_Clear env pl) = {}" by (simp add: roaring_specD [OF rb])
    from Cons.IH [OF _ _ this, of "mergeFieldResult env sc pl"] m Cons.prems(1)
    obtain sc' tmp' where "retrieve_fields env ps ass cs (mergeFieldResult env sc pl) (rb_Clear env pl) = (sc', tmp', Inr ())"
      "scanner_inv env sc'" "isc_indexer sc' = isc_indexer sc" "isc_inited sc'"
      "admitted env sc' = admitted env sc \<inter> rset env pl \<inter> {i. \<forall>fc\<in>set cs. field_pass env ps ass i fc}" by auto
    then show ?thesis using False pl by (auto simp: fc)
  qed
qed simp

lemma Scanner_retrieve_ok:
  assumes rb: "roaring_spec env" and ready: "\<forall>fc\<in>set (ivx_data (isc_indexer sc)). rc_ready env (snd fc)"
    and ans: "list_all (field_answers env (ivx_parsers (isc_indexer sc)) ass) (ivx_data (isc_indexer sc))"
    and inv: "scanner_inv env sc" and pool: "bp_clean env pool" and ne: "isc_inited sc \<or> ivx_data (isc_indexer sc) \<noteq> []"
  obtains sc' pool' where "Scanner_retrieve env sc ass pool = (sc', pool', Inr ())" "bp_clean env pool'"
    "rset env (isc_conjIDResults sc') = admitted env sc \<inter>
       {i. \<forall>fc\<in>set (ivx_data (isc_indexer sc)). field_pass env (ivx_parsers (isc_indexer sc)) ass i fc}"
proof -
  obtain tmp pool1 where n: "NewPostingList env pool = (tmp, pool1)" by fastforce
  note c = NewPostingList_clean [OF rb pool n]
  have "\<forall>fc\<in>set (ivx_data (isc_indexer sc)). rc_ready env (snd fc) \<and> field_answers env (ivx_parsers (isc_indexer sc)) ass fc"
    using ready ans by (simp add: list_all_iff)
  from retrieve_fields_ok [OF rb this inv c(1)] obtain sc' tmp' where
    r: "retrieve_fields env (ivx_parsers (isc_indexer sc)) ass (ivx_data (isc_indexer sc)) sc tmp = (sc', tmp', Inr ())"
    "isc_inited sc' \<longleftrightarrow> isc_inited sc \<or> ivx_data (isc_indexer sc) \<noteq> []"
    "admitted env sc' = admitted env sc \<inter>
       {i. \<forall>fc\<in>set (ivx_data (isc_indexer sc)). field_pass env (ivx_parsers (isc_indexer sc)) ass i fc}" by auto
  then show ?thesis using n ne ReleasePostingList_clean [OF rb c(2)]
    by (intro that [of sc' "ReleasePostingList env (Some tmp') pool1"]) (simp_all add: Scanner_retrieve_def admitted_def)
qed

lemma sint_DocID: "sint (word_of_int (ConjunctionID_DocID i) :: u64) = ConjunctionID_DocID i"
proof (rule sint_word_of_int_id)
  have "- (2 ^ 63) \<le> sint i" "sint i < 2 ^ 63" using sint_greater_eq [of i] sint_lt [of i] by simp_all
  then show "- (2 ^ 63) \<le> ConjunctionID_DocID i" "ConjunctionID_DocID i < 2 ^ 63"
    by (simp_all add: ConjunctionID_DocID_def drop_bit_eq_div)
qed

lemma foldl_Add_set:
  assumes "roaring_spec env"
  shows "rset env (foldl (\<lambda>b i. rb_Add env b (g i)) b xs) = rset env b \<union> g ` set xs"
  by (induction xs arbitrary: b) (auto simp: roaring_specD [OF assms])

subsection \<open>Meaning of documents\<close>

text \<open>
  A field is satisfied when it has no including expression or one whose keys meet the query's,
  and the keys of no excluding expression do.
\<close>

definition rfield_sat :: "'b renv \<Rightarrow> ValueIDGenerator list \<Rightarrow> ccfg \<Rightarrow> BoolValues list \<Rightarrow> Values \<Rightarrow> bool" where
  "rfield_sat env ps cfg es v \<longleftrightarrow>
     (list_all (\<lambda>e. \<not> Incl e) es \<or>
      list_ex (\<lambda>e. Incl e \<and> c_keys env ps cfg (Value e) \<inter> c_asks env ps cfg v \<noteq> {}) es) \<and>
     list_all (\<lambda>e. Incl e \<or> c_keys env ps cfg (Value e) \<inter> c_asks env ps cfg v = {}) es"

definition rconj_sat :: "'b renv \<Rightarrow> 'b IvtBEIndexer \<Rightarrow> Assignments \<Rightarrow> Conjunction \<Rightarrow> bool" where
  "rconj_sat env x ass cj \<longleftrightarrow>
     list_all (\<lambda>(f, c). rfield_sat env (ivx_parsers x) (c_cfg c) (exprs_at cj f) (value_at ass f)) (ivx_data x)"

definition rdoc_sat :: "'b renv \<Rightarrow> 'b IvtBEIndexer \<Rightarrow> Assignments \<Rightarrow> Document \<Rightarrow> bool" where
  "rdoc_sat env x ass d \<longleftrightarrow> list_ex (rconj_sat env x ass) (doc_Cons d)"

lemma passes_field_post: "passes (field_post env ps cfg es) (c_asks env ps cfg v) = rfield_sat env ps cfg es v"
  by (auto simp: passes_def field_post_def rfield_sat_def expr_keys_def list_all_iff list_ex_iff)

text \<open>An index as it is built from a builder with the invariant.\<close>

definition index_ok :: "'b renv \<Rightarrow> Document list \<Rightarrow> int set \<Rightarrow> 'b IvtBEIndexer \<Rightarrow> bool" where
  "index_ok env docs F x \<longleftrightarrow>
     (\<forall>d\<in>set docs. doc_inv (ivx_docMaxConjSize x) d) \<and>
     (\<forall>fc\<in>set (ivx_data x). rc_ready env (snd fc) \<and> field_inv env (ivx_parsers x) docs F fc)"

lemma BuildIndexer_ok:
  assumes "ivt_run env factory w docs F b" "rfactory_ok env factory" "w_clean env w"
  obtains b' x where "BuildIndexer b = Inr (b', x)" "index_ok env docs F x"
    "map fst (ivx_data x) = map fst (ivb_containerBuilder b)"
  using ivt_inv_build [OF ivt_run_inv [OF assms]] unfolding ivt_inv_def index_ok_def by metis

lemma matched_conj:
  assumes ok: "index_ok env docs F x" and ne: "ivx_data x \<noteq> []" and i: "ConjunctionID_DocID i \<notin> F"
  shows "(\<forall>fc\<in>set (ivx_data x). field_pass env (ivx_parsers x) ass i fc) \<longleftrightarrow> (\<exists>cj. conj_at docs i cj \<and> rconj_sat env x ass cj)"
proof (cases "\<exists>cj. conj_at docs i cj")
  case False
  obtain fc where fc: "fc \<in> set (ivx_data x)" using ne by (cases "ivx_data x") auto
  then have "c_post env (snd fc) i = no_post" using ok False i by (simp add: index_ok_def field_inv_def)
  then have "\<not> field_pass env (ivx_parsers x) ass i fc" by (simp add: field_pass_def passes_def)
  then show ?thesis using False fc by blast
next
  case True
  have "(\<forall>fc\<in>set (ivx_data x). field_pass env (ivx_parsers x) ass i fc) \<longleftrightarrow> rconj_sat env x ass cj" if "conj_at docs i cj" for cj
  proof -
    have "\<forall>fc\<in>set (ivx_data x). holds env (ivx_parsers x) cj i fc" using ok that i by (simp add: index_ok_def field_inv_def)
    then show ?thesis by (fastforce simp: rconj_sat_def list_all_iff field_pass_def holds_def passes_field_post)
  qed
  then show ?thesis using True by blast
qed

lemma conj_at_sat:
  assumes "\<forall>d\<in>set docs. doc_inv m d"
  shows "(\<exists>i cj. conj_at docs i cj \<and> P cj \<and> ConjunctionID_DocID i = n) \<longleftrightarrow> (\<exists>d\<in>set docs. ID d = n \<and> list_ex P (doc_Cons d))"
proof
  assume "\<exists>i cj. conj_at docs i cj \<and> P cj \<and> ConjunctionID_DocID i = n"
  then show "\<exists>d\<in>set docs. ID d = n \<and> list_ex P (doc_Cons d)"
    using ConjunctionID_parts(1) by (fastforce simp: conj_at_def list_ex_iff)
next
  assume "\<exists>d\<in>set docs. ID d = n \<and> list_ex P (doc_Cons d)"
  then obtain d k where d: "d \<in> set docs" "ID d = n" "k < length (doc_Cons d)" "P (doc_Cons d ! k)"
    by (auto simp: list_ex_length)
  then obtain i where "NewConjunctionID (int k) (ID d) = Inr i" using assms by (auto simp: doc_inv_def)
  then show "\<exists>i cj. conj_at docs i cj \<and> P cj \<and> ConjunctionID_DocID i = n"
    using d ConjunctionID_parts(1) unfolding conj_at_def by blast
qed

lemma hint_ids_set: "i \<in> set (hint_ids x hints) \<longleftrightarrow>
    (\<exists>h\<in>set hints. \<exists>k<nat (ivx_docMaxConjSize x). NewConjunctionID (int k) h = Inr i)"
proof -
  have sets: "set (case r of Inl _ \<Rightarrow> [] | Inr c \<Rightarrow> [c]) = {c. r = Inr c}" for r :: "ConjunctionID res" by (cases r) auto
  show ?thesis by (simp add: hint_ids_def sets Bex_def)
qed

lemma conj_at_hinted:
  assumes "\<forall>d\<in>set docs. doc_inv (ivx_docMaxConjSize x) d" "conj_at docs i cj"
  shows "i \<in> set (hint_ids x hints) \<longleftrightarrow> ConjunctionID_DocID i \<in> set hints"
proof
  assume "i \<in> set (hint_ids x hints)"
  then show "ConjunctionID_DocID i \<in> set hints" using ConjunctionID_parts(1) by (auto simp: hint_ids_set)
next
  assume h: "ConjunctionID_DocID i \<in> set hints"
  obtain d k where d: "d \<in> set docs" "k < length (doc_Cons d)" "NewConjunctionID (int k) (ID d) = Inr i"
    using assms(2) by (auto simp: conj_at_def)
  have "int (length (doc_Cons d)) \<le> ivx_docMaxConjSize x" using assms(1) d(1) by (simp add: doc_inv_def)
  then show "i \<in> set (hint_ids x hints)"
    using h d ConjunctionID_parts(1) [OF d(3)] by (auto simp: hint_ids_set intro!: bexI exI [of _ k])
qed

text \<open>The documents of the ids that pass, among those an initial set \<open>H\<close> admits.\<close>

lemma matched_docs:
  assumes ok: "index_ok env docs F x" and ne: "ivx_data x \<noteq> []"
    and H: "\<And>i cj. conj_at docs i cj \<Longrightarrow> i \<in> H \<longleftrightarrow> ConjunctionID_DocID i \<in> D"
  shows "ConjunctionID_DocID ` (H \<inter> {i. \<forall>fc\<in>set (ivx_data x). field_pass env (ivx_parsers x) ass i fc}) - F =
    {ID d |d. d \<in> set docs \<and> rdoc_sat env x ass d} \<inter> D - F"
proof (rule set_eqI)
  fix n
  have docs: "\<forall>d\<in>set docs. doc_inv (ivx_docMaxConjSize x) d" using ok by (simp add: index_ok_def)
  show "n \<in> ConjunctionID_DocID ` (H \<inter> {i. \<forall>fc\<in>set (ivx_data x). field_pass env (ivx_parsers x) ass i fc}) - F \<longleftrightarrow>
    n \<in> {ID d |d. d \<in> set docs \<and> rdoc_sat env x ass d} \<inter> D - F"
  proof (cases "n \<in> F")
    case False
    then have "n \<in> ConjunctionID_DocID ` (H \<inter> {i. \<forall>fc\<in>set (ivx_data x). field_pass env (ivx_parsers x) ass i fc}) \<longleftrightarrow>
      (\<exists>i cj. conj_at docs i cj \<and> rconj_sat env x ass cj \<and> ConjunctionID_DocID i = n) \<and> n \<in> D"
      using matched_conj [OF ok ne] H by blast
    then show ?thesis using False unfolding conj_at_sat [OF docs] by (simp add: rdoc_sat_def Bex_def eq_commute [of n] conj_ac)
  qed simp
qed

subsection \<open>The scanner is exact\<close>

lemma NewScanner_fresh:
  assumes "roaring_spec env" "bp_clean env pool" "NewScanner env x pool = (sc, pool1)"
  shows "scanner_inv env sc" "\<not> isc_inited sc" "isc_indexer sc = x" "bp_clean env pool1" "rset env (isc_conjIDResults sc) = {}"
proof -
  obtain pl where n: "NewPostingList env pool = (pl, pool1)" and sc: "sc = \<lparr>isc_debug = False, isc_inited = False,
      isc_ended = False, isc_indexer = x, isc_conjIDResults = pl\<rparr>"
    using assms(3) by (auto simp: NewScanner_def split: prod.splits)
  note c = NewPostingList_clean [OF assms(1,2) n]
  show "scanner_inv env sc" "\<not> isc_inited sc" "isc_indexer sc = x" "rset env (isc_conjIDResults sc) = {}"
    using c(1) by (simp_all add: sc scanner_inv_def)
  show "bp_clean env pool1" by (rule c(2))
qed

lemma Scanner_Retrieve_ok:
  assumes rb: "roaring_spec env" and r: "Scanner_retrieve env sc ass pool = (sc', pool1, Inr ())" and pool: "bp_clean env pool1"
  obtains pool' ids ds where "Scanner_Retrieve env sc ass pool = (sc', pool', Inr ids)" "bp_clean env pool'"
    "sorted ids" "distinct ids" "sint ` set ids = ConjunctionID_DocID ` rset env (isc_conjIDResults sc')"
    "RetrieveDocs env sc ass pool = (sc', pool1, Inr ds)" "set ds = ConjunctionID_DocID ` rset env (isc_conjIDResults sc')"
proof -
  obtain bits pool2 where n: "NewPostingList env pool1 = (bits, pool2)" by fastforce
  note c = NewPostingList_clean [OF rb pool n]
  define out where "out = foldl (\<lambda>b i. rb_Add env b (word_of_int (ConjunctionID_DocID i))) bits (rb_ToArray env (isc_conjIDResults sc'))"
  have "rset env out = (\<lambda>i. word_of_int (ConjunctionID_DocID i)) ` rset env (isc_conjIDResults sc')"
    unfolding out_def foldl_Add_set [OF rb] c(1) rset_def [of env "isc_conjIDResults sc'"] by (rule Un_empty_left)
  then have "sint ` set (rb_ToArray env out) = ConjunctionID_DocID ` rset env (isc_conjIDResults sc')"
    by (simp add: rset_def image_image sint_DocID)
  then show ?thesis using r n ReleasePostingList_clean [OF rb c(2)]
    by (intro that [of "ReleasePostingList env (Some out) pool2" "rb_ToArray env out"
        "remdups (map ConjunctionID_DocID (rb_ToArray env (isc_conjIDResults sc')))"])
      (simp_all add: Scanner_Retrieve_def RetrieveDocs_def out_def Let_def rset_def roaring_specD [OF rb])
qed

text \<open>What both retrieval functions of a scanner return, for the scanner's admitted ids.\<close>

definition scan_result :: "'b renv \<Rightarrow> 'b IvtScanner \<Rightarrow> Assignments \<Rightarrow> 'b bitmapPool \<Rightarrow> int set \<Rightarrow> int set \<Rightarrow> bool" where
  "scan_result env sc ass pool F A \<longleftrightarrow>
     (\<exists>sc1 pool1 ids sc2 pool2 ds.
        Scanner_Retrieve env sc ass pool = (sc1, pool1, Inr ids) \<and> bp_clean env pool1 \<and> sorted ids \<and> distinct ids \<and>
        sint ` set ids - F = A - F \<and>
        RetrieveDocs env sc ass pool = (sc2, pool2, Inr ds) \<and> bp_clean env pool2 \<and> set ds - F = A - F)"

lemma scan_result_ok:
  assumes rb: "roaring_spec env" and ok: "index_ok env docs F x" and sc: "isc_indexer sc = x" "scanner_inv env sc"
    and ans: "list_all (field_answers env (ivx_parsers x) ass) (ivx_data x)" and pool: "bp_clean env pool" and ne: "ivx_data x \<noteq> []"
    and H: "\<And>i cj. conj_at docs i cj \<Longrightarrow> i \<in> admitted env sc \<longleftrightarrow> ConjunctionID_DocID i \<in> D"
  shows "scan_result env sc ass pool F ({ID d |d. d \<in> set docs \<and> rdoc_sat env x ass d} \<inter> D)"
proof -
  have ready: "\<forall>fc\<in>set (ivx_data (isc_indexer sc)). rc_ready env (snd fc)" using ok sc(1) by (simp add: index_ok_def)
  obtain sc' pool1 where r: "Scanner_retrieve env sc ass pool = (sc', pool1, Inr ())" "bp_clean env pool1"
    "rset env (isc_conjIDResults sc') = admitted env sc \<inter> {i. \<forall>fc\<in>set (ivx_data x). field_pass env (ivx_parsers x) ass i fc}"
    by (rule Scanner_retrieve_ok [OF rb ready _ sc(2) pool, unfolded sc(1), OF ans]) (use ne in simp_all)
  have m: "ConjunctionID_DocID ` rset env (isc_conjIDResults sc') - F = {ID d |d. d \<in> set docs \<and> rdoc_sat env x ass d} \<inter> D - F"
    unfolding r(3) by (rule matched_docs [OF ok ne]) (rule H)
  from Scanner_Retrieve_ok [OF rb r(1,2)] obtain pool' ids ds where q:
    "Scanner_Retrieve env sc ass pool = (sc', pool', Inr ids)" "bp_clean env pool'" "sorted ids" "distinct ids"
    "sint ` set ids = ConjunctionID_DocID ` rset env (isc_conjIDResults sc')"
    "RetrieveDocs env sc ass pool = (sc', pool1, Inr ds)" "set ds = ConjunctionID_DocID ` rset env (isc_conjIDResults sc')" .
  show ?thesis using m by (simp add: scan_result_def q r(2))
qed

lemma fresh_scan:
  assumes rb: "roaring_spec env" and ok: "index_ok env docs F x" and ne: "ivx_data x \<noteq> []"
    and ans: "list_all (field_answers env (ivx_parsers x) ass) (ivx_data x)" and pool: "bp_clean env pool"
    and sc: "isc_indexer sc = x" "scanner_inv env sc" "\<not> isc_inited sc"
  shows "scan_result env sc ass pool F {ID d |d. d \<in> set docs \<and> rdoc_sat env x ass d}"
    and "\<exists>sc1. WithHint env sc hints = Inr sc1 \<and>
      scan_result env sc1 ass pool F ({ID d |d. d \<in> set docs \<and> rdoc_sat env x ass d} \<inter> set hints)"
proof -
  show "scan_result env sc ass pool F {ID d |d. d \<in> set docs \<and> rdoc_sat env x ass d}"
    using scan_result_ok [OF rb ok sc(1,2) ans pool ne, of UNIV] sc(3) by (simp add: admitted_def)
  define sc1 where "sc1 = sc\<lparr>isc_conjIDResults := rb_AddMany env (isc_conjIDResults sc) (hint_ids x hints), isc_inited := True\<rparr>"
  have "admitted env sc1 = set (hint_ids x hints)" "scanner_inv env sc1" "isc_indexer sc1 = x"
    using sc by (auto simp: sc1_def admitted_def scanner_inv_def roaring_specD [OF rb])
  moreover have "\<forall>d\<in>set docs. doc_inv (ivx_docMaxConjSize x) d" using ok by (simp add: index_ok_def)
  ultimately have "scan_result env sc1 ass pool F ({ID d |d. d \<in> set docs \<and> rdoc_sat env x ass d} \<inter> set hints)"
    using conj_at_hinted by (intro scan_result_ok [OF rb ok _ _ ans pool ne]) simp_all
  moreover have "WithHint env sc hints = Inr sc1" using sc by (simp add: WithHint_def sc1_def)
  ultimately show "\<exists>sc1. WithHint env sc hints = Inr sc1 \<and>
      scan_result env sc1 ass pool F ({ID d |d. d \<in> set docs \<and> rdoc_sat env x ass d} \<inter> set hints)" by blast
qed

lemma Scanner_Reset_fresh:
  assumes "roaring_spec env"
  shows "isc_indexer (Scanner_Reset env sc) = isc_indexer sc" "scanner_inv env (Scanner_Reset env sc)"
    "\<not> isc_inited (Scanner_Reset env sc)"
  by (simp_all add: Scanner_Reset_def scanner_inv_def roaring_specD [OF assms])

lemma ivt_index:
  assumes "ivt_run env factory w docs F b" "rfactory_ok env factory" "w_clean env w" "ivb_containerBuilder b \<noteq> []"
  obtains b' x where "BuildIndexer b = Inr (b', x)" "index_ok env docs F x" "ivx_data x \<noteq> []"
  using BuildIndexer_ok [OF assms(1-3)] assms(4) by (metis map_is_Nil_conv)

subsection \<open>Concrete instances\<close>

text \<open>Bitmaps as lists, the registered containers, and a builder with one field that a number parser reads.\<close>

definition list_rb :: "u64 list renv" where
  "list_rb =
     \<lparr>rb_New = [], rb_Add = (\<lambda>b x. x # b), rb_AddMany = (\<lambda>b xs. xs @ b), rb_Or = (\<lambda>b c. b @ c),
      rb_And = (\<lambda>b c. filter (\<lambda>x. x \<in> set c) b), rb_AndNot = (\<lambda>b c. filter (\<lambda>x. x \<notin> set c) b),
      rb_IsEmpty = (\<lambda>b. b = []), rb_Clear = (\<lambda>b. []), rb_ToArray = (\<lambda>b. sort (remdups b)), re_ParseFloat = (\<lambda>_. None)\<rparr>"

lemma list_rb_spec: "roaring_spec list_rb"
  by (auto simp: roaring_spec_def rset_def list_rb_def)

lemma rfactory_ok_init:
  assumes "roaring_spec env" "aho_spec m"
  shows "rfactory_ok env (containerFactory_init env m)"
  unfolding rfactory_ok_def containerFactory_init_def
  using NewPostingList_clean [OF assms(1)] assms
  by (fastforce simp: rc_ok_def NewDefaultBEContainer_def NewACBEContainer_def split: prod.splits if_splits)

definition ivt_factory :: "u64 list containerFactory" where
  "ivt_factory = containerFactory_init list_rb naive_aho"

definition ivt_pool :: "u64 list bitmapPool" where
  "ivt_pool = \<lparr>bp_free = [], bp_choices = []\<rparr>"

definition ivt_world :: "u64 list world" where
  "ivt_world = \<lparr>w_parsers = [GNumber NewNumberParser], w_pool = ivt_pool\<rparr>"

definition ivt_b0 :: "u64 list IvtBEIndexerBuilder" where
  "ivt_b0 = fst (Ivt_ConfigureField ivt_factory (NewIvtIndexerBuilder ivt_world) ''age''
     \<lparr>fs_Parser = Some 0, fs_Container = ContainerNameDefault\<rparr>)"

definition ivt_d7 :: Document where
  "ivt_d7 = AddConjunction (NewDocument 7) [Conj_In NewConjunction ''age'' (VIntS KInt (Slice [1, 2]))]"

definition ivt_d8 :: Document where
  "ivt_d8 = AddConjunction (NewDocument (-8)) [Conj_NotIn NewConjunction ''age'' (VInt KInt 2)]"

definition ivt_b1 :: "u64 list IvtBEIndexerBuilder" where
  "ivt_b1 = fst (the (Ivt_AddDocument list_rb ivt_b0 (Some ivt_d7)))"

definition ivt_b2 :: "u64 list IvtBEIndexerBuilder" where
  "ivt_b2 = fst (the (Ivt_AddDocument list_rb ivt_b1 (Some ivt_d8)))"

definition ivt_x :: "u64 list IvtBEIndexer" where
  "ivt_x = snd (projr (BuildIndexer ivt_b2))"

lemma ivt_adds:
  "map_option snd (Ivt_AddDocument list_rb ivt_b0 (Some ivt_d7)) = Some (Inr ())"
  "map_option snd (Ivt_AddDocument list_rb ivt_b1 (Some ivt_d8)) = Some (Inr ())"
  by code_simp+

lemma ivt_ex_run: "ivt_run list_rb ivt_factory ivt_world [ivt_d7, ivt_d8] {} ivt_b2"
proof -
  have a: "Ivt_AddDocument list_rb ivt_b0 (Some ivt_d7) = Some (ivt_b1, Inr ())"
    "Ivt_AddDocument list_rb ivt_b1 (Some ivt_d8) = Some (ivt_b2, Inr ())"
    using ivt_adds by (auto simp: ivt_b1_def ivt_b2_def)
  have n: "ID ivt_d7 \<notin> ID ` set [] \<union> {}" "ID ivt_d8 \<notin> ID ` set ([] @ [ivt_d7]) \<union> {}" by code_simp+
  have 0: "ivt_run list_rb ivt_factory ivt_world [] {} ivt_b0"
    unfolding ivt_b0_def by (rule ivt_configure [OF ivt_new]) (rule prod.collapse [symmetric])
  show ?thesis using ivt_add [OF ivt_add [OF 0 a(1) n(1)] a(2) n(2)] by simp
qed

lemma ivt_ex_data:
  "length (ivx_data ivt_x) = Suc 0"
  "case hd (ivx_data ivt_x) of (f, CDefault c) \<Rightarrow> f = ''age'' \<and>
     dc_meta c = \<lparr>fs_Parser = Some 0, fs_Container = ContainerNameDefault, meta_field = ''age''\<rparr> | _ \<Rightarrow> False"
  "case ivx_parsers ivt_x of GNumber p # _ \<Rightarrow> p = NewNumberParser | _ \<Rightarrow> False"
  by code_simp+

definition ivt_ass :: Assignments where
  "ivt_ass = [(''age'', VInt KInt 2)]"

lemma ivt_ex_keys:
  "NumberParser_ParseValue (re_ParseFloat list_rb) NewNumberParser (VIntS KInt (Slice [1, 2])) = Inr [1, 2]"
  "NumberParser_ParseValue (re_ParseFloat list_rb) NewNumberParser (VInt KInt 2) = Inr [2]"
  "NumberParser_ParseAssign (re_ParseFloat list_rb) NewNumberParser (VInt KInt 2) = Inr [2]"
  "NilInterface (VInt KInt 2) = Inr False" "value_at ivt_ass ''age'' = VInt KInt 2"
  "map (\<lambda>cj. exprs_at cj ''age'') (doc_Cons ivt_d7) =
     [[\<lparr>Incl = True, Value = VIntS KInt (Slice [1, 2]), Operator = ValueOptEQ\<rparr>]]"
  "map (\<lambda>cj. exprs_at cj ''age'') (doc_Cons ivt_d8) = [[\<lparr>Incl = False, Value = VInt KInt 2, Operator = ValueOptEQ\<rparr>]]"
  by code_simp+

lemma ivt_ex_index:
  obtains c gs where "ivx_data ivt_x = [(''age'', CDefault c)]" "ivx_parsers ivt_x = GNumber NewNumberParser # gs"
    "fs_Parser (dc_meta c) = Some 0"
  using ivt_ex_data by (auto simp: length_Suc_conv split: list.splits prod.splits BEContainer.splits ValueIDGenerator.splits)

lemma ivt_ex_answers: "list_all (field_answers list_rb (ivx_parsers ivt_x) ivt_ass) (ivx_data ivt_x)"
  by (rule ivt_ex_index) (simp add: field_answers_def assign_with_def ivt_ex_keys)

lemma ivt_ex_sat: "{ID d |d. d \<in> set [ivt_d7, ivt_d8] \<and> rdoc_sat list_rb ivt_x ivt_ass d} = {7}"
proof -
  obtain c gs where x: "ivx_data ivt_x = [(''age'', CDefault c)]" "ivx_parsers ivt_x = GNumber NewNumberParser # gs"
    "fs_Parser (dc_meta c) = Some 0" by (rule ivt_ex_index)
  have "rdoc_sat list_rb ivt_x ivt_ass d \<longleftrightarrow>
    list_ex (\<lambda>es. rfield_sat list_rb (ivx_parsers ivt_x) (dc_meta c, None) es (VInt KInt 2)) (map (\<lambda>cj. exprs_at cj ''age'') (doc_Cons d))" for d
    by (simp add: rdoc_sat_def rconj_sat_def x(1) ivt_ex_keys list_ex_iff)
  then have "rdoc_sat list_rb ivt_x ivt_ass ivt_d7" "\<not> rdoc_sat list_rb ivt_x ivt_ass ivt_d8"
    by (simp_all add: ivt_ex_keys rfield_sat_def x assign_with_def)
  moreover have "ID ivt_d7 = 7" by code_simp
  ultimately show ?thesis by auto
qed

lemma ivt_ex_hyps:
  "rfactory_ok list_rb ivt_factory" "w_clean list_rb ivt_world" "bp_clean list_rb ivt_pool" "ivb_containerBuilder ivt_b2 \<noteq> []"
proof -
  show "rfactory_ok list_rb ivt_factory" unfolding ivt_factory_def by (rule rfactory_ok_init [OF list_rb_spec naive_aho_spec])
  show "w_clean list_rb ivt_world" "bp_clean list_rb ivt_pool" by (simp_all add: w_clean_def ivt_world_def ivt_pool_def bp_clean_def)
  have "length (ivb_containerBuilder ivt_b2) = 1" by code_simp
  then show "ivb_containerBuilder ivt_b2 \<noteq> []" by auto
qed

text \<open>
  C10: After any sequence of the roaring builder's operations, failed ones included, the index is
  built without an error, and for every query its containers can answer, a scanner that is
  new or was reset returns the ids of exactly the added documents with a conjunction that is
  satisfied in every configured field, sorted and each once; the pool stays clean. Nothing is said about
  ids of documents whose addition failed or whose id was added twice (\<open>F\<close>).
\<close>

theorem ivt_retrieve_exact:
  assumes "ivt_run env factory w docs F b" "roaring_spec env" "rfactory_ok env factory" "w_clean env w"
    and "ivb_containerBuilder b \<noteq> []"
  shows "\<exists>b' x. BuildIndexer b = Inr (b', x) \<and>
    (\<forall>ass pool sc pool1 old. bp_clean env pool \<longrightarrow> list_all (field_answers env (ivx_parsers x) ass) (ivx_data x) \<longrightarrow>
       NewScanner env x pool = (sc, pool1) \<longrightarrow> isc_indexer old = x \<longrightarrow>
       scan_result env sc ass pool1 F {ID d |d. d \<in> set docs \<and> rdoc_sat env x ass d} \<and>
       scan_result env (Scanner_Reset env old) ass pool F {ID d |d. d \<in> set docs \<and> rdoc_sat env x ass d})"
proof -
  obtain b' x where b: "BuildIndexer b = Inr (b', x)" "index_ok env docs F x" "ivx_data x \<noteq> []"
    using ivt_index [OF assms(1,3-5)] .
  note scan = fresh_scan(1) [OF assms(2) b(2,3)]
  note new = NewScanner_fresh [OF assms(2)]
  note reset = Scanner_Reset_fresh [OF assms(2)]
  show ?thesis
  proof (intro exI conjI allI impI)
    show "BuildIndexer b = Inr (b', x)" by (rule b(1))
    fix ass pool sc pool1 and old :: "'a IvtScanner"
    assume a: "bp_clean env pool" "list_all (field_answers env (ivx_parsers x) ass) (ivx_data x)"
      "NewScanner env x pool = (sc, pool1)" "isc_indexer old = x"
    show "scan_result env sc ass pool1 F {ID d |d. d \<in> set docs \<and> rdoc_sat env x ass d}"
      using scan [OF a(2) new(4,3,1,2) [OF a(1,3)]] .
    show "scan_result env (Scanner_Reset env old) ass pool F {ID d |d. d \<in> set docs \<and> rdoc_sat env x ass d}"
      using scan [OF a(2,1)] reset a(4) by simp
  qed
qed

theorem ivt_retrieve_exact_witness:
  "\<exists>b' sc pool. BuildIndexer ivt_b2 = Inr (b', ivt_x) \<and> NewScanner list_rb ivt_x ivt_pool = (sc, pool) \<and>
     scan_result list_rb sc ivt_ass pool {} {7}"
proof -
  obtain b' x where b: "BuildIndexer ivt_b2 = Inr (b', x)" and r: "\<forall>ass pool sc pool1 old. bp_clean list_rb pool \<longrightarrow>
      list_all (field_answers list_rb (ivx_parsers x) ass) (ivx_data x) \<longrightarrow>
      NewScanner list_rb x pool = (sc, pool1) \<longrightarrow> isc_indexer old = x \<longrightarrow>
      scan_result list_rb sc ass pool1 {} {ID d |d. d \<in> set [ivt_d7, ivt_d8] \<and> rdoc_sat list_rb x ass d} \<and>
      scan_result list_rb (Scanner_Reset list_rb old) ass pool {} {ID d |d. d \<in> set [ivt_d7, ivt_d8] \<and> rdoc_sat list_rb x ass d}"
    using ivt_retrieve_exact [OF ivt_ex_run list_rb_spec ivt_ex_hyps(1,2,4)] by blast
  have x: "x = ivt_x" by (simp add: ivt_x_def b)
  obtain sc pool where n: "NewScanner list_rb ivt_x ivt_pool = (sc, pool)" by fastforce
  have "isc_indexer sc = ivt_x" using n by (auto simp: NewScanner_def split: prod.splits)
  then have "scan_result list_rb sc ivt_ass pool {} {7}"
    using r [rule_format, OF ivt_ex_hyps(3) _ _, of ivt_ass sc pool sc] n ivt_ex_answers ivt_ex_sat unfolding x by auto
  then show ?thesis using b n unfolding x by blast
qed

text \<open>
  C11: Hints restrict the answer: a scanner that is given document ids before it retrieves returns
  exactly the satisfied documents among them, whichever of their conjunctions are satisfied.
\<close>

theorem ivt_retrieve_hints:
  assumes "ivt_run env factory w docs F b" "roaring_spec env" "rfactory_ok env factory" "w_clean env w"
    and "ivb_containerBuilder b \<noteq> []"
  shows "\<exists>b' x. BuildIndexer b = Inr (b', x) \<and>
    (\<forall>ass pool sc pool1 hints. bp_clean env pool \<longrightarrow> list_all (field_answers env (ivx_parsers x) ass) (ivx_data x) \<longrightarrow>
       NewScanner env x pool = (sc, pool1) \<longrightarrow>
       (\<exists>sc1. WithHint env sc hints = Inr sc1 \<and>
          scan_result env sc1 ass pool1 F ({ID d |d. d \<in> set docs \<and> rdoc_sat env x ass d} \<inter> set hints)))"
proof -
  obtain b' x where b: "BuildIndexer b = Inr (b', x)" "index_ok env docs F x" "ivx_data x \<noteq> []"
    using ivt_index [OF assms(1,3-5)] .
  note scan = fresh_scan(2) [OF assms(2) b(2,3)]
  note new = NewScanner_fresh [OF assms(2)]
  show ?thesis using b(1) scan [OF _ new(4,3,1,2)] by blast
qed

theorem ivt_retrieve_hints_witness:
  "\<exists>b' sc pool sc1. BuildIndexer ivt_b2 = Inr (b', ivt_x) \<and> NewScanner list_rb ivt_x ivt_pool = (sc, pool) \<and>
     WithHint list_rb sc [7, 5] = Inr sc1 \<and> scan_result list_rb sc1 ivt_ass pool {} {7}"
proof -
  obtain b' x where b: "BuildIndexer ivt_b2 = Inr (b', x)" and r: "\<forall>ass pool sc pool1 hints. bp_clean list_rb pool \<longrightarrow>
      list_all (field_answers list_rb (ivx_parsers x) ass) (ivx_data x) \<longrightarrow> NewScanner list_rb x pool = (sc, pool1) \<longrightarrow>
      (\<exists>sc1. WithHint list_rb sc hints = Inr sc1 \<and>
        scan_result list_rb sc1 ass pool1 {} ({ID d |d. d \<in> set [ivt_d7, ivt_d8] \<and> rdoc_sat list_rb x ass d} \<inter> set hints))"
    using ivt_retrieve_hints [OF ivt_ex_run list_rb_spec ivt_ex_hyps(1,2,4)] by blast
  have x: "x = ivt_x" by (simp add: ivt_x_def b)
  obtain sc pool where n: "NewScanner list_rb ivt_x ivt_pool = (sc, pool)" by fastforce
  obtain sc1 where "WithHint list_rb sc [7, 5] = Inr sc1" "scan_result list_rb sc1 ivt_ass pool {} ({7} \<inter> set [7, 5])"
    using r [unfolded x, rule_format, OF ivt_ex_hyps(3) ivt_ex_answers n, of "[7, 5]"] unfolding ivt_ex_sat by blast
  then show ?thesis using b n unfolding x by auto
qed

text \<open>A document whose second conjunction has a value the parser rejects.\<close>

definition ivt_d9 :: Document where
  "ivt_d9 = AddConjunction (NewDocument 9)
     [Conj_In NewConjunction ''age'' (VInt KInt 1), Conj_In NewConjunction ''age'' VOther]"


end
