(* ===== verification/OptRangeCorrect.thy ===== *)
theory OptRangeCorrect
  imports OptRangeHolder
begin

text \<open>
  What the segment-tree holder answers. \<open>or_run\<close> are the states a client can reach by preparing
  and committing expressions in any order; from each of them compiling returns, and a query gets
  exactly the entries of the ranges that cover it between the collected coordinates
  (\<open>seg_covers\<close>). On a coordinate this is the meaning of the range (\<open>seg_covers_coordinate\<close>);
  elsewhere it is not.
\<close>

subsection \<open>Covering\<close>

text \<open>
  \<open>v\<close> lies above the last coordinate below \<open>L\<close> and not above the last coordinate below \<open>R\<close>. A
  single value is the range with \<open>R = L\<close>.
\<close>

definition seg_covers :: "int set \<Rightarrow> int \<Rightarrow> int \<Rightarrow> int \<Rightarrow> bool" where
  "seg_covers C L R v \<longleftrightarrow> (\<forall>c\<in>C. v \<le> c \<longrightarrow> L \<le> c) \<and> (\<exists>c\<in>C. v \<le> c \<and> c < max R (L + 1))"

lemma seg_covers_coordinate: "v \<in> C \<Longrightarrow> L < R \<Longrightarrow> seg_covers C L R v \<longleftrightarrow> L \<le> v \<and> v < R"
  unfolding seg_covers_def by (auto simp: max_absorb1 intro: bexI [of _ v])

lemma FindRange_covers:
  assumes s: "sorted (cc_values cc)" and L: "L \<in> set (cc_values cc)" and lr: "FindRange cc L R = (l, r)"
  shows "0 \<le> l" "l < CC_Size cc" "l \<le> r"
    "l \<le> FindIdx cc v \<and> FindIdx cc v \<le> r \<longleftrightarrow> seg_covers (set (cc_values cc)) L R v"
proof -
  let ?C = "set (cc_values cc)"
  have l: "l = FindIdx cc L" and r: "r = max l (FindIdx cc R - 1)" using lr by (auto simp: FindRange_def Let_def max_def)
  show "0 \<le> l" "l < CC_Size cc" "l \<le> r" using FindIdx_bounds [OF s, of L] L by (auto simp: l r)
  have "FindIdx cc v \<le> l \<longleftrightarrow> v \<le> L"
    using FindIdx_less_iff [OF s, of L v] L unfolding l by (meson le_less_linear not_le order_refl order_trans less_le_trans)
  then have "FindIdx cc v \<le> r \<longleftrightarrow> v \<le> L \<or> (\<exists>c\<in>?C. v \<le> c \<and> c < R)"
    using FindIdx_less_iff [OF s, of v R] by (auto simp: r le_max_iff_disj)
  also have "\<dots> \<longleftrightarrow> (\<exists>c\<in>?C. v \<le> c \<and> c < max R (L + 1))" using L by (auto simp: less_max_iff_disj)
  finally have "FindIdx cc v \<le> r \<longleftrightarrow> (\<exists>c\<in>?C. v \<le> c \<and> c < max R (L + 1))" .
  moreover have "l \<le> FindIdx cc v \<longleftrightarrow> (\<forall>c\<in>?C. v \<le> c \<longrightarrow> L \<le> c)"
    using FindIdx_less_iff [OF s, of v L] unfolding l by (meson not_le)
  ultimately show "l \<le> FindIdx cc v \<and> FindIdx cc v \<le> r \<longleftrightarrow> seg_covers ?C L R v" by (simp add: seg_covers_def)
qed

subsection \<open>Compiling and collecting\<close>

definition pending_hits :: "int set \<Rightarrow> pendingRange list \<Rightarrow> int \<Rightarrow> EntryID set" where
  "pending_hits C prs v = {pr_eid pr |pr. pr \<in> set prs \<and> seg_covers C (pr_left pr) (pr_right pr) v}"

lemma pending_hits_simps [simp]:
  "pending_hits C [] v = {}"
  "pending_hits C (pr # prs) v = (if seg_covers C (pr_left pr) (pr_right pr) v then {pr_eid pr} else {}) \<union> pending_hits C prs v"
  by (auto simp: pending_hits_def)

lemma pending_hits_bound: "e \<in> pending_hits C prs v \<Longrightarrow> \<exists>c\<in>C. v \<le> c"
  by (auto simp: pending_hits_def seg_covers_def)

text \<open>A tree over all coordinates.\<close>

definition seg_spans :: "CoordinateCompressor \<Rightarrow> SegmentTreeNode \<Rightarrow> bool" where
  "seg_spans cc t \<longleftrightarrow> seg_wf t \<and> seg_l t = 0 \<and> seg_r t = CC_Size cc - 1"

lemma insert_pending_ok:
  assumes s: "sorted (cc_values cc)" and "seg_spans cc t" "\<forall>pr\<in>set prs. pr_left pr \<in> set (cc_values cc)"
  shows "\<exists>t' n'. insert_pending cc prs (Some t) n = Some (Inr (Some t', n')) \<and>
    (\<forall>v. FindIdx cc v < CC_Size cc \<longrightarrow>
       collected (Some t') (FindIdx cc v) = collected (Some t) (FindIdx cc v) \<union> pending_hits (set (cc_values cc)) prs v)"
  using assms(2,3)
proof (induction prs arbitrary: t n)
  case (Cons pr prs)
  obtain l r where lr: "FindRange cc (pr_left pr) (pr_right pr) = (l, r)" by fastforce
  have L: "pr_left pr \<in> set (cc_values cc)" using Cons.prems(2) by simp
  note f = FindRange_covers [OF s L lr]
  have "seg_wf t" "seg_l t \<le> r" "l \<le> seg_r t" using Cons.prems(1) f(1-3) by (auto simp: seg_spans_def)
  from seg_insert_ok [OF this f(3), of "pr_eid pr" n] obtain t1 n1 where
    t1: "seg_insert t l r (pr_eid pr) n = Some (t1, n1)" "inserted t l r (pr_eid pr) t1" by blast
  have "seg_spans cc t1" using t1(2) Cons.prems(1) by (simp add: inserted_def seg_spans_def)
  from Cons.IH [OF this, of n1] Cons.prems(2) obtain t' n' where
    t': "insert_pending cc prs (Some t1) n1 = Some (Inr (Some t', n'))"
    "\<forall>v. FindIdx cc v < CC_Size cc \<longrightarrow>
       collected (Some t') (FindIdx cc v) = collected (Some t1) (FindIdx cc v) \<union> pending_hits (set (cc_values cc)) prs v" by auto
  have "collected (Some t1) (FindIdx cc v) =
      collected (Some t) (FindIdx cc v) \<union> (if seg_covers (set (cc_values cc)) (pr_left pr) (pr_right pr) v then {pr_eid pr} else {})"
    if "FindIdx cc v < CC_Size cc" for v
    using t1(2) Cons.prems(1) that FindIdx_bounds(1) [OF s, of v] f(4) [of v] by (simp add: inserted_def seg_spans_def)
  then show ?case using lr f(3) t1(1) t' by (auto simp: Un_assoc)
qed simp

lemma collect_ids_distinct: "distinct m \<Longrightarrow> distinct (collect_ids h ids m)"
  by (induction h ids m rule: collect_ids.induct) (simp_all add: Let_def collectEntries_distinct split: option.split)

lemma collect_ids_set:
  assumes "\<And>v i. GetIdx (or_compressor h) v = Some i \<Longrightarrow> i = FindIdx (or_compressor h) v \<and> i < CompressedSize (or_stats h)"
  shows "set (collect_ids h ids m) =
    set m \<union> (\<Union>v\<in>{v\<in>set ids. FindIdx (or_compressor h) v < CompressedSize (or_stats h)}.
      collected (or_root h) (FindIdx (or_compressor h) v))"
proof (induction ids arbitrary: m)
  case (Cons i ids)
  show ?case
  proof (cases "FindIdx (or_compressor h) i < CompressedSize (or_stats h)")
    case True
    then have "collect_ids h (i # ids) m = collect_ids h ids (collectEntries (or_root h) (FindIdx (or_compressor h) i) m)"
      using assms [of i] by (auto simp: Let_def split: option.split)
    then show ?thesis using Cons.IH True by (auto simp: collectEntries_set)
  next
    case False
    then have "collect_ids h (i # ids) m = collect_ids h ids m" using assms [of i] by (auto simp: Let_def split: option.split)
    then show ?thesis using Cons.IH False by auto
  qed
qed simp

lemma OR_compile_ok:
  assumes h: "\<not> cc_built (or_compressor h)" "or_root h = None"
    and p: "\<forall>pr\<in>set (or_pendingRanges h). pr_left pr \<in> set (cc_values (or_compressor h))"
  obtains h' where "OR_CompileEntries h = Some (Inr h')" "or_built h'" "or_option h' = or_option h"
    "\<forall>ids. distinct (collect_ids h' ids []) \<and>
       set (collect_ids h' ids []) = (\<Union>v\<in>set ids. pending_hits (set (cc_values (or_compressor h))) (or_pendingRanges h) v)"
proof -
  define cc where "cc = CC_Build (or_compressor h)"
  note b = CC_Build_ok [OF h(1), folded cc_def]
  let ?C = "set (cc_values cc)" and ?prs = "or_pendingRanges h"
  define start where "start = (if CC_Size cc > 0 then map_prod Some id (buildTree 0 (CC_Size cc - 1) (TreeNodeCount (or_stats h)))
    else (None, TreeNodeCount (or_stats h)))"
  have "\<exists>root n. insert_pending cc ?prs (fst start) (snd start) = Some (Inr (root, n)) \<and>
    (\<forall>v. FindIdx cc v < CC_Size cc \<longrightarrow> collected root (FindIdx cc v) = pending_hits ?C ?prs v)"
  proof (cases "CC_Size cc > 0")
    case True
    let ?t = "fst (buildTree 0 (CC_Size cc - 1) (TreeNodeCount (or_stats h)))"
    have "seg_spans cc ?t" "fst start = Some ?t" "collected (Some ?t) idx = {}" for idx
      using True by (simp_all add: start_def buildTree_def seg_spans_def child_ok_def)
    then show ?thesis using insert_pending_ok [OF b(1), of ?t ?prs "snd start"] p b(3) by auto
  next
    case False
    then have "?prs = []" using p b(3) by (cases ?prs) (auto simp: CC_Size_def)
    moreover have "\<not> FindIdx cc v < CC_Size cc" for v using False FindIdx_bounds(1) [OF b(1), of v] by linarith
    ultimately show ?thesis using False by (simp add: start_def)
  qed
  then obtain root n where i: "insert_pending cc ?prs (fst start) (snd start) = Some (Inr (root, n))"
    "\<forall>v. FindIdx cc v < CC_Size cc \<longrightarrow> collected root (FindIdx cc v) = pending_hits ?C ?prs v" by blast
  define h' where "h' = h\<lparr>or_compressor := cc, or_root := root, or_pendingRanges := [], or_built := True,
    or_stats := calculateMemoryStats ((or_stats h)\<lparr>CompressedSize := CC_Size cc, TreeNodeCount := n\<rparr>)\<rparr>"
  have "OR_CompileEntries h = Some (Inr h')"
    using i(1) h(2) by (simp add: OR_CompileEntries_def Let_def cc_def [symmetric] start_def h'_def buildTree_def split: if_splits)
  moreover have size: "CompressedSize (or_stats h') = CC_Size cc" "or_compressor h' = cc" "or_root h' = root"
    by (simp_all add: h'_def calculateMemoryStats_def)
  moreover have "set (collect_ids h' ids []) = (\<Union>v\<in>set ids. pending_hits ?C ?prs v)" for ids
  proof -
    have "set (collect_ids h' ids []) = (\<Union>v\<in>{v\<in>set ids. FindIdx cc v < CC_Size cc}. collected root (FindIdx cc v))"
      using collect_ids_set [of h' ids "[]"] GetIdx_FindIdx [OF b(1,2,4)] by (simp add: size)
    also have "\<dots> = (\<Union>v\<in>set ids. pending_hits ?C ?prs v)"
      using i(2) pending_hits_bound FindIdx_bounds(3) [OF b(1)] by fastforce
    finally show ?thesis .
  qed
  ultimately show ?thesis using b(3) by (intro that [of h']) (simp_all add: h'_def collect_ids_distinct)
qed

subsection \<open>Histories\<close>

text \<open>
  \<open>or_run pf fns ps txs h\<close>: a new holder with the options \<open>fns\<close> became \<open>h\<close>; \<open>ps\<close> are the data it prepared
  and \<open>txs\<close> the entries and data committed to it. Preparing may fail, and data may be committed
  in another order than it was prepared, or never.
\<close>

inductive or_run ::
  "(string \<Rightarrow> gfloat option) \<Rightarrow> (RangeHolderOption \<Rightarrow> RangeHolderOption) list \<Rightarrow> IndexingData list \<Rightarrow>
   (EntryID \<times> IndexingData) list \<Rightarrow> OptimizedRangeHolder \<Rightarrow> bool"
  for pf fns
where
  or_new: "or_run pf fns [] [] (NewOptimizedRangeHolder fns)"
| or_prepare: "or_run pf fns ps txs h \<Longrightarrow> OR_BuildFieldIndexingData pf h fd bv = (h', Inr d) \<Longrightarrow> or_run pf fns (d # ps) txs h'"
| or_reject: "or_run pf fns ps txs h \<Longrightarrow> OR_BuildFieldIndexingData pf h fd bv = (h', Inl e) \<Longrightarrow> or_run pf fns ps txs h'"
| or_commit: "or_run pf fns ps txs h \<Longrightarrow> d \<in> set ps \<Longrightarrow> tx_Data tx = Some d \<Longrightarrow>
    OR_CommitFieldIndexingData h tx = Inr h' \<Longrightarrow> or_run pf fns ps (txs @ [(tx_EID tx, d)]) h'"
| or_debugging: "or_run pf fns ps txs h \<Longrightarrow> or_run pf fns ps txs (OR_EnableDebug h debug)"

text \<open>The ranges of prepared data; a single value is a range with equal bounds.\<close>

fun data_ranges :: "IndexingData \<Rightarrow> (int \<times> int) list" where
  "data_ranges (OptimizedRangeTxData op rg eqs) =
     (if op = ValueOptEQ then map (\<lambda>v. (v, v)) (DistinctInteger eqs)
      else case rg of None \<Rightarrow> [] | Some r \<Rightarrow> [(rg_left r, rg_right r)])"
| "data_ranges _ = []"

definition pend :: "EntryID \<Rightarrow> int \<times> int \<Rightarrow> pendingRange" where
  "pend eid lr = \<lparr>pr_left = fst lr, pr_right = snd lr, pr_eid = eid\<rparr>"

definition cc_inv :: "CoordinateCompressor \<Rightarrow> bool" where
  "cc_inv cc \<longleftrightarrow> \<not> cc_built cc \<and> fst ` set (cc_valueToIdx cc) = set (cc_values cc)"

text \<open>Prepared data has the holder's type, and the bounds of a range were collected.\<close>

definition data_ok :: "int set \<Rightarrow> IndexingData \<Rightarrow> bool" where
  "data_ok C d \<longleftrightarrow> (\<exists>eqs. d = OptimizedRangeTxData ValueOptEQ None eqs) \<or>
     (\<exists>r. d = OptimizedRangeTxData ValueOptBetween (Some r) [] \<and> rg_left r \<in> C)"

definition or_inv :: "IndexingData list \<Rightarrow> (EntryID \<times> IndexingData) list \<Rightarrow> OptimizedRangeHolder \<Rightarrow> bool" where
  "or_inv ps txs h \<longleftrightarrow>
     cc_inv (or_compressor h) \<and> or_root h = None \<and> list_all (data_ok (set (cc_values (or_compressor h)))) ps \<and>
     or_pendingRanges h = concat (map (\<lambda>(eid, d). map (pend eid) (data_ranges d)) txs) \<and>
     (\<forall>pr\<in>set (or_pendingRanges h). pr_left pr \<in> set (cc_values (or_compressor h)))"

lemma AddValue_inv:
  assumes "cc_inv cc"
  obtains cc' where "AddValue cc v = Inr cc'" "cc_inv cc'" "set (cc_values cc') = insert v (set (cc_values cc))"
proof -
  have "map_of (cc_valueToIdx cc) v = None \<longleftrightarrow> v \<notin> set (cc_values cc)"
    using assms by (simp add: cc_inv_def map_of_eq_None_iff)
  then show ?thesis using assms that by (auto simp: AddValue_def cc_inv_def alist_put_def insert_absorb split: if_splits)
qed

lemma pend_values_inv:
  assumes "cc_inv (or_compressor h)"
  shows "\<exists>cc. pend_values h eid vs = Inr (h\<lparr>or_compressor := cc,
      or_pendingRanges := or_pendingRanges h @ map (\<lambda>v. pend eid (v, v)) vs\<rparr>) \<and>
    cc_inv cc \<and> set (cc_values cc) = set vs \<union> set (cc_values (or_compressor h))"
  using assms
proof (induction vs arbitrary: h)
  case Nil
  then show ?case by (intro exI [of _ "or_compressor h"]) simp
next
  case (Cons v vs)
  obtain cc where cc: "AddValue (or_compressor h) v = Inr cc" "cc_inv cc" "set (cc_values cc) = insert v (set (cc_values (or_compressor h)))"
    by (rule AddValue_inv [OF Cons.prems])
  show ?case using Cons.IH [of "h\<lparr>or_pendingRanges := or_pendingRanges h @ [pend eid (v, v)], or_compressor := cc\<rparr>"] cc
    by (auto simp: pend_def)
qed

lemma data_ok_mono: "data_ok C d \<Longrightarrow> C \<subseteq> D \<Longrightarrow> data_ok D d"
  by (auto simp: data_ok_def)

lemma or_inv_grow:
  assumes "or_inv ps txs h" "cc_inv cc" "set (cc_values (or_compressor h)) \<subseteq> set (cc_values cc)"
  shows "or_inv ps txs (h\<lparr>or_compressor := cc\<rparr>)"
proof -
  have "list_all (data_ok (set (cc_values cc))) ps"
    using assms(1) data_ok_mono [OF _ assms(3)] unfolding or_inv_def list_all_iff by blast
  then show ?thesis using assms by (auto simp: or_inv_def)
qed

lemma or_inv_prepare:
  assumes inv: "or_inv ps txs h" and b: "OR_BuildFieldIndexingData pf h fd bv = (h', r)"
  shows "or_inv ps txs h'" "r = Inr d \<Longrightarrow> or_inv (d # ps) txs h'"
proof -
  have "or_inv ps txs h' \<and> (r = Inr d \<longrightarrow> data_ok (set (cc_values (or_compressor h'))) d)"
  proof (cases "\<exists>rg. r = Inr (OptimizedRangeTxData ValueOptBetween (Some rg) []) \<or> h' \<noteq> h")
    case False
    then have "h' = h" "\<forall>rg. r \<noteq> Inr (OptimizedRangeTxData ValueOptBetween (Some rg) [])" by auto
    then show ?thesis using inv b
      by (auto simp: OR_BuildFieldIndexingData_def data_ok_def split: if_splits sum.splits gerr.splits)
  next
    case True
    then obtain rg cc1 where rg: "AddValue (or_compressor h) (rg_left rg) = Inr cc1" and
      cc2: "(\<exists>e. AddValue cc1 (rg_right rg) = Inl e) \<or> (\<exists>cc2. AddValue cc1 (rg_right rg) = Inr cc2 \<and>
        h' = h\<lparr>or_compressor := cc2\<rparr> \<and> r = Inr (OptimizedRangeTxData ValueOptBetween (Some rg) []))"
      using b by (auto simp: OR_BuildFieldIndexingData_def split: if_splits sum.splits gerr.splits)
    have "cc_inv (or_compressor h)" using inv by (simp add: or_inv_def)
    then obtain cc where 1: "AddValue (or_compressor h) (rg_left rg) = Inr cc" "cc_inv cc"
      "set (cc_values cc) = insert (rg_left rg) (set (cc_values (or_compressor h)))" by (rule AddValue_inv)
    obtain cc' where 2: "AddValue cc (rg_right rg) = Inr cc'" "cc_inv cc'" "set (cc_values cc') = insert (rg_right rg) (set (cc_values cc))"
      by (rule AddValue_inv [OF 1(2)])
    have h': "h' = h\<lparr>or_compressor := cc'\<rparr>" "r = Inr (OptimizedRangeTxData ValueOptBetween (Some rg) [])"
      using rg cc2 1(1) 2(1) by auto
    have "set (cc_values (or_compressor h)) \<subseteq> set (cc_values cc')" "rg_left rg \<in> set (cc_values cc')" using 1(3) 2(3) by auto
    then show ?thesis using or_inv_grow [OF inv 2(2)] by (auto simp: h' data_ok_def)
  qed
  then show "or_inv ps txs h'" "r = Inr d \<Longrightarrow> or_inv (d # ps) txs h'" by (simp_all add: or_inv_def)
qed

lemma or_inv_commit:
  assumes inv: "or_inv ps txs h" and d: "d \<in> set ps" "tx_Data tx = Some d"
  shows "\<exists>h'. OR_CommitFieldIndexingData h tx = Inr h' \<and> or_inv ps (txs @ [(tx_EID tx, d)]) h' \<and> or_option h' = or_option h"
proof -
  have "data_ok (set (cc_values (or_compressor h))) d" and cc: "cc_inv (or_compressor h)"
    using inv d(1) by (simp_all add: or_inv_def list_all_iff)
  then consider (single) eqs where "d = OptimizedRangeTxData ValueOptEQ None eqs"
    | (ranged) r where "d = OptimizedRangeTxData ValueOptBetween (Some r) []" "rg_left r \<in> set (cc_values (or_compressor h))"
    by (auto simp: data_ok_def)
  then show ?thesis
  proof cases
    case single
    let ?vs = "DistinctInteger eqs"
    obtain cc' where p: "pend_values h (tx_EID tx) ?vs = Inr (h\<lparr>or_compressor := cc',
        or_pendingRanges := or_pendingRanges h @ map (\<lambda>v. pend (tx_EID tx) (v, v)) ?vs\<rparr>)"
      "cc_inv cc'" "set (cc_values cc') = set ?vs \<union> set (cc_values (or_compressor h))"
      using pend_values_inv [OF cc] by blast
    have g: "or_inv ps txs (h\<lparr>or_compressor := cc'\<rparr>)" using or_inv_grow [OF inv p(2)] p(3) by simp
    have old: "or_pendingRanges h = concat (map (\<lambda>(eid, d). map (pend eid) (data_ranges d)) txs)"
      using inv by (simp add: or_inv_def)
    have "\<forall>pr\<in>set (or_pendingRanges h). pr_left pr \<in> set (cc_values cc')" using g by (simp add: or_inv_def)
    then have "or_inv ps (txs @ [(tx_EID tx, d)]) (h\<lparr>or_compressor := cc',
        or_pendingRanges := or_pendingRanges h @ map (\<lambda>v. pend (tx_EID tx) (v, v)) ?vs\<rparr>)"
      using g p(2,3) unfolding or_inv_def by (auto simp: single old [symmetric] pend_def)
    then show ?thesis using p(1) by (simp add: OR_CommitFieldIndexingData_def d(2) single)
  next
    case ranged
    then show ?thesis using inv
      by (auto simp: OR_CommitFieldIndexingData_def d(2) or_inv_def pend_def ValueOptEQ_def ValueOptBetween_def)
  qed
qed

lemma or_run_inv: "or_run pf fns ps txs h \<Longrightarrow> or_inv ps txs h"
proof (induction rule: or_run.induct)
  case or_new
  then show ?case by (simp add: or_inv_def NewOptimizedRangeHolder_def NewCoordinateCompressor_def cc_inv_def)
next
  case (or_prepare ps txs h fd bv h' d)
  then show ?case by (blast intro: or_inv_prepare(2))
next
  case (or_reject ps txs h fd bv h' e)
  then show ?case by (blast intro: or_inv_prepare(1))
next
  case (or_commit ps txs h d tx h')
  then show ?case using or_inv_commit [OF or_commit.IH or_commit.hyps(2,3)] by auto
next
  case (or_debugging ps txs h debug)
  then show ?case by (simp add: or_inv_def OR_EnableDebug_def)
qed

lemma or_run_compiles:
  assumes "or_run pf fns ps txs h"
  obtains h' where "OR_CompileEntries h = Some (Inr h')" "or_built h'" "or_option h' = or_option h"
    "\<forall>ids. distinct (collect_ids h' ids []) \<and>
       set (collect_ids h' ids []) = (\<Union>v\<in>set ids. pending_hits (set (cc_values (or_compressor h))) (or_pendingRanges h) v)"
proof -
  have "\<not> cc_built (or_compressor h)" "or_root h = None"
    "\<forall>pr\<in>set (or_pendingRanges h). pr_left pr \<in> set (cc_values (or_compressor h))"
    using or_run_inv [OF assms] by (simp_all add: or_inv_def cc_inv_def)
  then show ?thesis by (rule OR_compile_ok) (rule that)
qed

lemma OR_GetEntries_collects:
  assumes "or_built h" "ParseIntegers pf v (EnableFloat2Int (or_option h)) = Inr ids"
  obtains cs where "OR_GetEntries pf h fd v = Inr cs" "concat (map ec_entries cs) = sort (collect_ids h ids [])"
proof (cases "collect_ids h ids [] = []")
  case True
  then show ?thesis using assms that [of "[]"] by (simp add: OR_GetEntries_def)
next
  case False
  then have "ids \<noteq> []" "length (sort (collect_ids h ids [])) > 0" by auto
  then show ?thesis
    using False assms that [of "[NewEntriesCursor (NewQKey (fd_Field fd) (QInt 0)) (sort (collect_ids h ids []))]"]
    by (auto simp add: OR_GetEntries_def Let_def NewEntriesCursor_def simp del: length_sort)
qed

definition or_hits :: "int set \<Rightarrow> (EntryID \<times> IndexingData) list \<Rightarrow> int list \<Rightarrow> EntryID set" where
  "or_hits C txs ids =
     {eid |eid d L R i. (eid, d) \<in> set txs \<and> (L, R) \<in> set (data_ranges d) \<and> i \<in> set ids \<and> seg_covers C L R i}"

lemma or_run_answers:
  assumes "or_run pf fns ps txs h" "ParseIntegers pf v (EnableFloat2Int (or_option h)) = Inr ids"
    and "OR_CompileEntries h = Some (Inr h')"
  shows "\<exists>cs. OR_GetEntries pf h' fd v = Inr cs \<and>
    sorted (concat (map ec_entries cs)) \<and> distinct (concat (map ec_entries cs)) \<and>
    set (concat (map ec_entries cs)) = or_hits (set (cc_values (or_compressor h))) txs ids"
proof -
  let ?C = "set (cc_values (or_compressor h))"
  have p: "or_pendingRanges h = concat (map (\<lambda>(eid, d). map (pend eid) (data_ranges d)) txs)"
    using or_run_inv [OF assms(1)] by (simp add: or_inv_def)
  obtain h1 where h1: "OR_CompileEntries h = Some (Inr h1)" "or_built h1" "or_option h1 = or_option h" and
    c1: "\<forall>ids. distinct (collect_ids h1 ids []) \<and> set (collect_ids h1 ids []) = (\<Union>v\<in>set ids. pending_hits ?C (or_pendingRanges h) v)"
    by (rule or_run_compiles [OF assms(1)])
  then have h': "h' = h1" using assms(3) by simp
  have "pending_hits ?C (or_pendingRanges h) i =
      {eid |eid d L R. (eid, d) \<in> set txs \<and> (L, R) \<in> set (data_ranges d) \<and> seg_covers ?C L R i}" for i
    unfolding pending_hits_def p by (force simp: pend_def)
  then have S: "set (collect_ids h' ids []) = or_hits ?C txs ids" using c1 unfolding or_hits_def h' by auto
  obtain cs where g: "OR_GetEntries pf h' fd v = Inr cs" "concat (map ec_entries cs) = sort (collect_ids h' ids [])"
    by (rule OR_GetEntries_collects [of h' pf v ids fd]) (use assms(2) h1(2,3) in \<open>simp_all add: h'\<close>)
  have "distinct (collect_ids h' ids [])" using c1 by (simp add: h')
  then show ?thesis using g(1) S by (intro exI [of _ cs]) (simp add: g(2) del: set_concat)
qed

text \<open>
  C39: Whatever expressions were prepared for and committed to a segment-tree holder, compiling
  returns without an error, and a query that parses gets, sorted and each once, the entries
  of exactly the committed ranges and values that cover one of its integers between the
  coordinates collected so far. The next committed data, once prepared, is never refused.
\<close>

theorem OptRangeHolder_exact:
  assumes "or_run pf fns ps txs h" "ParseIntegers pf v (EnableFloat2Int (or_option h)) = Inr ids"
  shows "(\<exists>h' cs. OR_CompileEntries h = Some (Inr h') \<and> OR_GetEntries pf h' fd v = Inr cs \<and>
      sorted (concat (map ec_entries cs)) \<and> distinct (concat (map ec_entries cs)) \<and>
      set (concat (map ec_entries cs)) = or_hits (set (cc_values (or_compressor h))) txs ids) \<and>
    (\<forall>tx d. d \<in> set ps \<longrightarrow> tx_Data tx = Some d \<longrightarrow> (\<exists>h1. OR_CommitFieldIndexingData h tx = Inr h1))"
proof -
  obtain h' where "OR_CompileEntries h = Some (Inr h')" by (rule or_run_compiles [OF assms(1)])
  then show ?thesis using or_run_answers [OF assms, of h' fd] or_inv_commit [OF or_run_inv [OF assms(1)]] by blast
qed

subsection \<open>An example\<close>

text \<open>One expression: between 10 and 1000.\<close>

definition or_fd :: FieldDesc where
  "or_fd = \<lparr>Container = ''optimized_range'', fd_ID = 1, fd_Field = ''age''\<rparr>"

definition or_prepared :: OptimizedRangeHolder where
  "or_prepared = (NewOptimizedRangeHolder [])\<lparr>or_compressor :=
     \<lparr>cc_values = [10, 1000], cc_valueToIdx = [(10, -1), (1000, -1)], cc_built = False\<rparr>\<rparr>"

definition or_data :: IndexingData where
  "or_data = OptimizedRangeTxData ValueOptBetween (Some \<lparr>rg_left = 10, rg_right = 1000\<rparr>) []"

definition or_tx :: FieldIndexingData where
  "or_tx = \<lparr>tx_field = or_fd, tx_holder = RefField 0 ''age'', tx_EID = 17, tx_Data = Some or_data\<rparr>"

definition or_ex :: OptimizedRangeHolder where
  "or_ex = or_prepared\<lparr>or_pendingRanges := [\<lparr>pr_left = 10, pr_right = 1000, pr_eid = 17\<rparr>],
     or_stats := (or_stats or_prepared)\<lparr>OriginalRangeCount := 1\<rparr>\<rparr>"

lemma or_ex_prepare:
  "OR_BuildFieldIndexingData (\<lambda>_. None) (NewOptimizedRangeHolder []) or_fd
     \<lparr>Incl = True, Value = VArr2I 10 1000, Operator = ValueOptBetween\<rparr> = (or_prepared, Inr or_data)"
proof -
  have "Range_Size \<lparr>rg_left = 10, rg_right = 1000\<rparr> = 990" by (simp add: Range_Size_def float64_int_small)
  moreover have "ParseBetween (VArr2I 10 1000) = Inr \<lparr>rg_left = 10, rg_right = 1000\<rparr>" by code_simp
  ultimately show ?thesis
    by (simp add: OR_BuildFieldIndexingData_def ParseRange_def or_prepared_def or_data_def NewOptimizedRangeHolder_def
        NewRangeHolderOption_def NewCoordinateCompressor_def AddValue_def alist_put_def ValueOptEQ_def ValueOptBetween_def)
qed

lemma or_ex_commit: "OR_CommitFieldIndexingData or_prepared or_tx = Inr or_ex"
  by (simp add: OR_CommitFieldIndexingData_def or_tx_def or_data_def or_ex_def or_prepared_def NewOptimizedRangeHolder_def
      ValueOptEQ_def ValueOptBetween_def)

lemma or_ex_run: "or_run (\<lambda>_. None) [] [or_data] [(17, or_data)] or_ex"
proof -
  have "or_data \<in> set [or_data]" "tx_Data or_tx = Some or_data" by (simp_all add: or_tx_def)
  from or_commit [OF or_prepare [OF or_new or_ex_prepare] this or_ex_commit] show ?thesis by (simp add: or_tx_def)
qed

lemma or_ex_hits: "or_hits (set (cc_values (or_compressor or_ex))) [(17, or_data)] [i] = (if i \<le> 10 then {17} else {})"
  by (auto simp: or_hits_def or_data_def or_ex_def or_prepared_def seg_covers_def ValueOptEQ_def ValueOptBetween_def)

lemma or_ex_parse:
  "ParseIntegers (\<lambda>_. None) (VInt KInt 5) (EnableFloat2Int (or_option or_ex)) = Inr [5]"
  "ParseIntegers (\<lambda>_. None) (VInt KInt 10) (EnableFloat2Int (or_option or_ex)) = Inr [10]"
  "ParseIntegers (\<lambda>_. None) (VInt KInt 500) (EnableFloat2Int (or_option or_ex)) = Inr [500]"
  by code_simp+

theorem OptRangeHolder_exact_witness:
  "\<exists>h' cs. OR_CompileEntries or_ex = Some (Inr h') \<and> OR_GetEntries (\<lambda>_. None) h' or_fd (VInt KInt 10) = Inr cs \<and>
     set (concat (map ec_entries cs)) = {17}"
  using OptRangeHolder_exact [OF or_ex_run or_ex_parse(2), of or_fd] by (auto simp: or_ex_hits simp del: set_concat)


end
