(* ===== verification/Spec2Isabelle.thy ===== *)
theory Spec2Isabelle
  imports Examples RoaringCorrect OptRangeCorrect
begin

text \<open>
  \<^bold>\<open>be_indexer\<close>: a Boolean-expression indexer (\<^verbatim>\<open>github.com/echoface/be_indexer\<close>, Go).

  Documents are Boolean expressions in disjunctive normal form: a document is a list of
  conjunctions, a conjunction asks of some fields to take (include) or not to take (exclude)
  certain values. A query assigns values to fields; the index returns the documents with a
  satisfied conjunction. The program has these parts, one theory (or a few) each.

  \<^item> \<open>Prelude\<close>: result types (\<open>gerr\<close>: an error or a panic, \<open>'a res\<close>), association lists for Go
    maps, facts on words and lists.
  \<^item> \<open>IdTypes\<close> (\<^verbatim>\<open>id_types.go\<close>): document id, index and size of a conjunction packed into a
    64-bit word, entry ids with their sign bit. Packing is shown to be a bijection on the valid
    parts and the order of entries to be conjunction first, excluding before including.
  \<^item> \<open>SkipCursor\<close>: the interface of a cursor over a sorted posting list (locale \<open>skip_cursor\<close>)
    and what a family of posting sets matches (\<open>conj_matched\<close>); the lemmas about one round of
    the merge are proved once for it.
  \<^item> \<open>IndexScanner\<close> (\<^verbatim>\<open>index_scanner.go\<close>): entry cursors with galloping search, field cursors,
    the insertion sort; both cursors interpret the interface.
  \<^item> \<open>RetrieveLoop\<close> (loops of \<^verbatim>\<open>be_indexer_kgroups.go\<close> and \<^verbatim>\<open>be_indexer_compact.go\<close>): the two
    merge loops as \<^verbatim>\<open>partial_function (option)\<close>; they return and add exactly the matched
    conjunctions.
  \<^item> \<open>GoValue\<close>, \<open>Parser\<close>, \<open>RangeParser\<close> (\<^verbatim>\<open>util/\<close>, \<^verbatim>\<open>parser/\<close>): dynamic values, decimal
    numbers, tokenizers, number and range parsers, with their round trips and bounds.
  \<^item> \<open>GeoHash\<close>, \<open>ValueIds\<close> (\<^verbatim>\<open>parser/geohash_parser.go\<close>, \<^verbatim>\<open>common_parser.go\<close>,
    \<^verbatim>\<open>id_allocator.go\<close>, \<^verbatim>\<open>str_parser_hash.go\<close>): parsers that turn values into 64-bit ids. The
    locale \<open>value_parser\<close> says that an id never changes once it is given; every parser meets it.
  \<^item> \<open>Utf8\<close>, \<open>AhoMatch\<close>, \<open>AcHolder\<close> (\<^verbatim>\<open>holder/ahoholder/\<close>): Go strings as bytes and runes, the text a
    query is searched in, and the keyword holder.
  \<^item> \<open>Document\<close> (\<^verbatim>\<open>document.go\<close>, \<^verbatim>\<open>boolean_expr.go\<close>): documents and their constructors.
  \<^item> \<open>HolderTypes\<close>, \<open>PostingMap\<close>, \<open>DefaultHolder\<close>, \<open>RangeIdx\<close>, \<open>RangeHolder\<close>, \<open>Holders\<close>
    (\<^verbatim>\<open>entries_holder.go\<close>, \<^verbatim>\<open>entries_holder_factory.go\<close>, \<^verbatim>\<open>holder/rangeholder/\<close>): a holder takes
    prepared data, commits it, is compiled, and answers a query with cursors. The locale
    \<open>entries_holder\<close> is that contract; the default, the range and the keyword holder and the
    dispatch over them interpret it. \<open>RangeIdx\<close> is the interval list of the range holder: its intervals
    stay a partition of the domain.
  \<^item> \<open>OptRangeHolder\<close>, \<open>OptRangeCorrect\<close> (\<^verbatim>\<open>holder/rangeholder/optimized_range_holder.go\<close>): the range
    holder over a segment tree with compressed coordinates. It does not meet the contract;
    \<open>OptRangeHolder_exact\<close> says what it answers instead, for every history of its operations (\<open>or_run\<close>).
  \<^item> \<open>ResultCollector\<close> (\<^verbatim>\<open>result_collector.go\<close>, pool of \<^verbatim>\<open>be_indexer.go\<close>): the collector over a
    bitmap and its pool.
  \<^item> \<open>BEIndex\<close> (\<^verbatim>\<open>be_indexer.go\<close>, \<^verbatim>\<open>be_indexer_kgroups.go\<close>, \<^verbatim>\<open>be_indexer_compact.go\<close>): containers of
    holders, both index layouts, cursors and retrieval.
  \<^item> \<open>IndexBuilder\<close> (\<^verbatim>\<open>index_builder.go\<close>, \<^verbatim>\<open>doc_idx_cache.go\<close>): field configuration, the two-phase
    commit of documents, cache entries, \<open>BuildIndex\<close>. An operation returns the builder it
    leaves behind and its result, so the state after an error is visible.
  \<^item> \<open>IndexState\<close>, \<open>BuilderCorrect\<close>, \<open>IndexCorrect\<close>, \<open>Semantics\<close>: the invariant of the index as
    a store of holders, what preparing and committing do to it, compiled indexes, and the
    meaning of documents. \<open>builder_run\<close> is the step relation of the builder states a client
    can reach.
  \<^item> \<open>RoaringIds\<close>, \<open>RoaringContainer\<close>, \<open>RoaringPostings\<close>, \<open>RoaringIndex\<close>, \<open>RoaringBuild\<close>,
    \<open>RoaringCorrect\<close> (\<^verbatim>\<open>roaringidx/\<close>): the second index, which keeps per field bitmaps of conjunction
    ids and intersects them. \<open>be_container\<close> is the contract of its containers, met by the
    dispatch over the default and the keyword container; \<open>ivt_run\<close> is the relation of the
    builder's histories, \<open>ivt_inv\<close> its invariant.
  \<^item> \<open>Examples\<close>: concrete instances of the parameters and documents for the witnesses.

  \<^bold>\<open>State and calls.\<close> A Go struct is a record, a pointer to a holder is a reference
  (\<open>holder_ref\<close>: container and field) into the index, a Go map an association list in
  insertion order. Go iterates maps in random order; the results proved here are sets or
  sorted lists and do not depend on it. Panics are values, so every raise is a branch.

  \<^bold>\<open>Parameters.\<close> Code outside the repository is an argument with a named hypothesis: the
  roaring bitmaps (\<open>bitmap\<close> with \<open>bitmap_spec\<close>, and the 64-bit \<open>rbitmap\<close> with \<open>roaring_spec\<close>), the
  Aho-Corasick automaton (\<open>aho_machine\<close>, \<open>aho_spec\<close>), the geohash packages (\<open>geo_lib\<close>), the codecs and
  \<^verbatim>\<open>strconv.ParseFloat\<close> (\<open>codec\<close>, \<open>renv\<close>), the user's document cache (\<open>DocLevelCache\<close>), user
  tokenizers (\<open>ValueTokenizer\<close>, \<open>nil_quiet\<close>), and the choices \<^verbatim>\<open>sync.Pool\<close> makes. \<open>Examples\<close>,
  \<open>AhoMatch\<close> and \<open>RoaringCorrect\<close> show that the hypotheses can hold.

  \<^bold>\<open>What is shown.\<close> \<open>Retrieve_correct\<close>: from any reachable builder, of either layout, the index
  returns exactly the satisfied documents. Its parts are the invariant of the builder
  (\<open>builder_run_invariant\<close>), the atomicity and completeness of \<^verbatim>\<open>AddDocument\<close>, the holders'
  lifecycle theorems, and the exactness of the two merge loops. \<open>ivt_retrieve_exact\<close> and
  \<open>ivt_retrieve_hints\<close> are the same for the roaring index, whose \<^verbatim>\<open>AddDocument\<close> is not atomic
  (\<open>ivt_add_not_atomic\<close>): they exclude the ids of failed additions. The remaining properties are
  about single components: bounds, round trips, termination and errors. No fuel is used:
  loops that might not end are \<^verbatim>\<open>partial_function (option)\<close>, and that they return is proved.

  \<^bold>\<open>Not modelled.\<close> Logging, dumps, statistics for printing and \<^verbatim>\<open>String\<close> methods (output only), the
  helpers of \<^verbatim>\<open>util/\<close> that only examples or nothing calls, the generated protobuf code, and the example programs. The
  end-to-end theorems are about builders without a document cache (the cache path itself is modelled)
  and registries without the segment-tree holder, which breaks the holders' contract. Those about
  the roaring index take its fields as configured before the first document, which is the use the
  code supports: a field configured later hides the earlier documents.
\<close>

section \<open>Retrieval\<close>

text \<open>
  C1: For every builder a client can reach without a document cache, \<^verbatim>\<open>BuildIndex\<close> succeeds and
  \<^verbatim>\<open>Retrieve\<close> on the index, grouped or compact, returns the ids of exactly the documents the
  query satisfies. Each id is returned once, in the order of the unsigned ids, and the
  collector goes back to the pool empty.
\<close>

theorem Retrieve_correct:
  assumes "builder_run env opts docs b" "factory_ok (env_factory env)" "no_cache opts" "docs_wf docs"
    and "query_fits env b ass" "bitmap_spec bm" "pool_clean bm pool" "\<forall>col. WithCollector col \<notin> set ropts"
  shows "\<exists>index ids pool'. BuildIndex b = (b\<lparr>indexer := index\<rparr>, Inr index) \<and>
    Retrieve (env_lib env) bm index ass ropts choice pool = Some (Inr ids, pool') \<and>
    set ids = {ID doc |doc. doc \<in> set docs \<and> doc_sat env (fieldsData b) doc ass} \<and>
    distinct ids \<and> sorted (map (word_of_int :: int \<Rightarrow> u64) ids) \<and> pool_clean bm pool'"
  using Retrieve_run [OF assms, of choice] unfolding answer_ids_def by blast

theorem Retrieve_correct_witness:
  "(\<exists>index ids pool'. BuildIndex (ex_builder 0) = ((ex_builder 0)\<lparr>indexer := index\<rparr>, Inr index) \<and>
     Retrieve ex_lib list_bitmap index ex_ass [] 0 [] = Some (Inr ids, pool') \<and> set ids = {7}) \<and>
   (\<exists>index ids pool'. BuildIndex (ex_builder 1) = ((ex_builder 1)\<lparr>indexer := index\<rparr>, Inr index) \<and>
     Retrieve ex_lib list_bitmap index ex_ass [] 0 [] = Some (Inr ids, pool') \<and> set ids = {7})"
proof -
  have "\<exists>index ids pool'. BuildIndex (ex_builder t) = ((ex_builder t)\<lparr>indexer := index\<rparr>, Inr index) \<and>
     Retrieve ex_lib list_bitmap index ex_ass [] 0 [] = Some (Inr ids, pool') \<and> set ids = {7}" if t: "t \<in> {0, 1}" for t
    using Retrieve_correct [OF ex_run [OF t] ex_factory_ok _ ex_docs_wf ex_query_ok [OF t] list_bitmap_spec, of "[]" "[]" 0]
      ex_answer [OF t] by (auto simp: no_cache_def ex_env_def answer_ids_def)
  then show ?thesis by simp
qed





section \<open>Building\<close>











end
